(* ===== verification/Rap_Prelude.thy ===== *)
theory Rap_Prelude
  imports Main "HOL-Library.Word"
begin

unbundle bit_operations_syntax

text \<open>
  The shared vocabulary of the development: the machine types of the Go sources, Go's ways for a
  call to end (return, panic, wait), the errors the package's functions return, Go strings as byte
  sequences, and the generic facts about lists, options and words that the component theories use.
\<close>

section \<open>Machine types and outcomes\<close>

type_synonym byte = "8 word"
type_synonym u16 = "16 word"
type_synonym u32 = "32 word"
type_synonym u64 = "64 word"

text \<open>A Go \<^verbatim>\<open>int64\<close> is the same 64 bits, read with \<^const>\<open>sint\<close>.\<close>

type_synonym i64 = "64 word"

text \<open>
  The error values of the package (\<^verbatim>\<open>errors.WithStack\<close> and \<^verbatim>\<open>errors.Wrap\<close> only add a
  stack trace or a text and \<^verbatim>\<open>errors.Cause\<close> strips it, so a wrapped error is its cause here).
  \<open>ErrOther\<close> stands for an error made by a reader, writer or network endpoint.
\<close>

datatype goerr =
    ErrLengthNegative | ErrLengthOverflow | ErrFrameTooBig | ErrFrameTooSmall
  | ErrInvalidRouteIndex | ErrUnhandledRecordType byte | ErrMissingFrameHead
  | TimeoutError | ServerClosedError | ProtocolError | PanicError string
  | ErrEOF | ErrUnexpectedEOF | ErrClosedPipe | ErrShortBuffer | ErrShortWrite
  | ErrAlreadyHijacked | ErrOther string

text \<open>Why a goroutine panics: a runtime check of the language, or a \<^verbatim>\<open>panic\<close> call and its text.\<close>

datatype gopanic = IndexOutOfRange | SliceBounds | NilDeref | PanicMsg string

text \<open>
  How a call ends: it returns a value, it panics, or it waits for something no other goroutine
  does while it runs (a channel operation none of whose cases is ready, a mutex already held).
\<close>

datatype 'a go = Ret 'a | Panics gopanic | Blocks

fun bnd :: "'a go \<Rightarrow> ('a \<Rightarrow> 'b go) \<Rightarrow> 'b go" where
  "bnd (Ret x) f = f x"
| "bnd (Panics p) f = Panics p"
| "bnd Blocks f = Blocks"

fun map_go :: "('a \<Rightarrow> 'b) \<Rightarrow> 'a go \<Rightarrow> 'b go" where
  "map_go f (Ret x) = Ret (f x)"
| "map_go f (Panics p) = Panics p"
| "map_go f Blocks = Blocks"

text \<open>Indexing a slice: out of range is a runtime panic.\<close>

definition idx :: "'a list \<Rightarrow> nat \<Rightarrow> 'a go" where
  "idx xs i = (if i < length xs then Ret (xs ! i) else Panics IndexOutOfRange)"

definition put :: "'a list \<Rightarrow> nat \<Rightarrow> 'a \<Rightarrow> 'a list go" where
  "put xs i x = (if i < length xs then Ret (xs[i := x]) else Panics IndexOutOfRange)"

text \<open>\<^verbatim>\<open>xs[i:]\<close> on a slice: the upper bound is the length, a lower bound past it panics.\<close>

definition slice_from :: "'a list \<Rightarrow> nat \<Rightarrow> 'a list go" where
  "slice_from xs i = (if i \<le> length xs then Ret (drop i xs) else Panics SliceBounds)"

text \<open>A Go string is a sequence of bytes; a \<^typ>\<open>char\<close> is one byte.\<close>

definition str_bytes :: "string \<Rightarrow> byte list" where
  "str_bytes s = map of_char s"

definition bytes_str :: "byte list \<Rightarrow> string" where
  "bytes_str bs = map (\<lambda>b. char_of (unat b)) bs"

section \<open>Collections of facts\<close>

named_theorems go_simps "evaluation of outcomes"
named_theorems hdr_simps "header accessors on a frame of at least four bytes"
named_theorems codec_simps "readers applied to what the matching writer produced"
named_theorems conn_simps "Conn operations and the fields they leave alone"

section \<open>Outcomes\<close>

lemma bnd_Ret_conv: "bnd m f = Ret y \<longleftrightarrow> (\<exists>x. m = Ret x \<and> f x = Ret y)"
  by (cases m) auto

lemma bnd_Panics_conv:
  "bnd m f = Panics p \<longleftrightarrow> m = Panics p \<or> (\<exists>x. m = Ret x \<and> f x = Panics p)"
  by (cases m) auto

lemma bnd_Blocks_conv: "bnd m f = Blocks \<longleftrightarrow> m = Blocks \<or> (\<exists>x. m = Ret x \<and> f x = Blocks)"
  by (cases m) auto

lemma bnd_assoc: "bnd (bnd m f) g = bnd m (\<lambda>x. bnd (f x) g)"
  by (cases m) auto

lemma bnd_Ret_right [simp]: "bnd m Ret = m"
  by (cases m) auto

lemma map_go_Ret_conv: "map_go f m = Ret y \<longleftrightarrow> (\<exists>x. m = Ret x \<and> f x = y)"
  by (cases m) auto

lemma map_go_bnd: "map_go f m = bnd m (\<lambda>x. Ret (f x))"
  by (cases m) auto

lemmas go_convs = bnd_Ret_conv bnd_Panics_conv bnd_Blocks_conv map_go_Ret_conv

lemma bnd_RetE:
  assumes "bnd m f = Ret y"
  obtains x where "m = Ret x" "f x = Ret y"
  using assms by (cases m) auto

lemma bnd_split:
  "P (bnd m f) \<longleftrightarrow>
     (\<forall>x. m = Ret x \<longrightarrow> P (f x)) \<and> (\<forall>p. m = Panics p \<longrightarrow> P (Panics p)) \<and> (m = Blocks \<longrightarrow> P Blocks)"
  by (cases m) auto

section \<open>Slices\<close>

lemma idx_Cons_0 [simp]: "idx (x # xs) 0 = Ret x"
  and idx_Cons_1 [simp]: "idx (x # y # xs) (Suc 0) = Ret y"
  and idx_Nil [simp]: "idx [] i = Panics IndexOutOfRange"
  by (simp_all add: idx_def)

lemma idx_Cons_2 [simp]: "idx (x # y # z # xs) 2 = Ret z"
  and idx_Cons_3 [simp]: "idx (x # y # z # w # xs) 3 = Ret w"
  by (simp_all add: idx_def)

lemma put_Cons_0 [simp]: "put (x # xs) 0 v = Ret (v # xs)"
  and put_Cons_1 [simp]: "put (x # y # xs) (Suc 0) v = Ret (x # v # xs)"
  by (simp_all add: put_def)

lemma put_Cons_2 [simp]: "put (x # y # z # xs) 2 v = Ret (x # y # v # xs)"
  and put_Cons_3 [simp]: "put (x # y # z # w # xs) 3 v = Ret (x # y # z # v # xs)"
  by (simp_all add: put_def eval_nat_numeral)

lemma slice_from_append [simp]: "slice_from (xs @ ys) (length xs) = Ret ys"
  by (simp add: slice_from_def)

lemma four_bytes:
  assumes "4 \<le> length xs"
  obtains a b c d r where "xs = a # b # c # d # r"
proof -
  from assms obtain a xs1 where 1: "xs = a # xs1" "3 \<le> length xs1" by (cases xs) auto
  then obtain b xs2 where 2: "xs1 = b # xs2" "2 \<le> length xs2" by (cases xs1) auto
  then obtain c xs3 where 3: "xs2 = c # xs3" "1 \<le> length xs3" by (cases xs2) auto
  then obtain d r where "xs3 = d # r" by (cases xs3) auto
  with 1 2 3 that show thesis by simp
qed

section \<open>Strings and bytes\<close>

lemma char_of_of_char_byte [simp]: "char_of (unat (of_char c :: byte)) = c"
proof -
  have "(of_char c :: nat) < 256" by simp
  then have "unat (of_nat (of_char c) :: byte) = (of_char c :: nat)"
    by (simp add: unsigned_of_nat take_bit_eq_mod)
  then show ?thesis by (simp add: of_nat_of_char)
qed

lemma of_char_char_of_byte [simp]: "(of_char (char_of (unat b)) :: byte) = b"
proof -
  have "unat b < 256" using unsigned_less [of b] by simp
  then have "(of_char (char_of (unat b)) :: nat) = unat b" by simp
  then have "(of_nat (of_char (char_of (unat b))) :: byte) = b" by (simp only: of_nat_unat ucast_id)
  then show ?thesis by (simp only: of_nat_of_char)
qed

lemma bytes_str_str_bytes [simp]: "bytes_str (str_bytes s) = s"
  by (simp add: bytes_str_def str_bytes_def o_def)

lemma str_bytes_bytes_str [simp]: "str_bytes (bytes_str bs) = bs"
  by (simp add: bytes_str_def str_bytes_def o_def)

lemma length_str_bytes [simp]: "length (str_bytes s) = length s"
  by (simp add: str_bytes_def)

lemma length_bytes_str [simp]: "length (bytes_str bs) = length bs"
  by (simp add: bytes_str_def)

lemma str_bytes_Nil [simp]: "str_bytes [] = []"
  by (simp add: str_bytes_def)

lemma str_bytes_eq_iff [simp]: "str_bytes s = str_bytes t \<longleftrightarrow> s = t"
  by (metis bytes_str_str_bytes)

section \<open>Words\<close>

lemma unat_byte_bound: "unat (b :: byte) < 256"
  using unsigned_less [of b] by simp

lemma unat_u16_bound: "unat (n :: u16) < 65536"
  using unsigned_less [of n] by simp

text \<open>Two bytes, most significant first, and the 16-bit value they spell.\<close>

lemma u16_of_halves:
  "push_bit 8 (ucast (ucast (drop_bit 8 n) :: byte)) OR ucast (ucast n :: byte) = (n :: u16)"
  by (rule bit_word_eqI) (auto simp: bit_simps)

lemma high_half [simp]:
  "ucast (drop_bit 8 (push_bit 8 (ucast a) OR ucast b :: u16)) = (a :: byte)" for a b :: byte
  by (rule bit_word_eqI) (auto simp: bit_simps dest: bit_imp_le_length)

lemma low_half [simp]:
  "ucast (push_bit 8 (ucast a) OR ucast b :: u16) = (b :: byte)" for a b :: byte
  by (rule bit_word_eqI) (auto simp: bit_simps)

text \<open>A byte is determined by its eight bits, and so are the masks of the frame header.\<close>

lemma less_8: "(i::nat) < 8 \<longleftrightarrow> i = 0 \<or> i = 1 \<or> i = 2 \<or> i = 3 \<or> i = 4 \<or> i = 5 \<or> i = 6 \<or> i = 7"
  by auto

lemma byte_eq_bits:
  "(a :: byte) = b \<longleftrightarrow> bit a 0 = bit b 0 \<and> bit a 1 = bit b 1 \<and> bit a 2 = bit b 2 \<and> bit a 3 = bit b 3
     \<and> bit a 4 = bit b 4 \<and> bit a 5 = bit b 5 \<and> bit a 6 = bit b 6 \<and> bit a 7 = bit b 7" (is "_ \<longleftrightarrow> ?bits")
proof
  assume ?bits
  show "a = b"
  proof (rule bit_word_eqI)
    fix i assume "i < LENGTH(8)"
    then have "i < 8" by simp
    then show "bit a i = bit b i" unfolding less_8 using \<open>?bits\<close> by (elim disjE) simp_all
  qed
qed simp

lemma unat_two_bytes:
  "unat (push_bit 8 (ucast a) OR ucast b :: u16) = 256 * unat a + unat b" for a b :: byte
proof -
  have "push_bit 8 (ucast a) OR ucast b = (push_bit 8 (ucast a) + ucast b :: u16)"
    by (rule disjunctive_add [symmetric]) (auto simp: bit_simps dest: bit_imp_le_length)
  also have "\<dots> = of_nat (256 * unat a + unat b)"
    by (simp add: push_bit_eq_mult)
  finally show ?thesis
    using unat_byte_bound [of a] unat_byte_bound [of b]
    by (simp only: unsigned_of_nat take_bit_eq_mod) simp
qed

lemma two_bytes_of_nat:
  "push_bit 8 (ucast a) OR ucast b = (of_nat (256 * unat a + unat b) :: u16)" for a b :: byte
  by (metis of_nat_unat ucast_id unat_two_bytes)

lemma unat_shift_7: "unat (drop_bit 7 x) = unat x div 128" for x :: u64
proof -
  have "unat x < 2 ^ LENGTH(64)" by (rule unsigned_less)
  then have "take_bit 64 (unat x) = unat x" by (simp add: take_bit_nat_eq_self)
  then show ?thesis by (simp only: unsigned_drop_bit_eq) (simp add: drop_bit_eq_div)
qed

lemma shift_7_smaller: "0x80 \<le> x \<Longrightarrow> unat (drop_bit 7 x) < unat x" for x :: u64
  by (simp add: unat_shift_7 word_le_nat_alt)

lemma of_nat_mod_256: "(of_nat (n mod 256) :: byte) = of_nat n"
  by (rule bit_word_eqI) (simp add: bit_simps flip: take_bit_eq_mod [of 8 n, simplified])

section \<open>Seven bits at a time\<close>

lemma byte_less_128: "(b :: byte) < 0x80 \<longleftrightarrow> \<not> bit b 7"
proof -
  have "bit b 7 \<longleftrightarrow> odd (unat b div 128)"
    using bit_unsigned_iff[of b 7, where ?'a = nat] by (simp add: bit_iff_odd)
  moreover have "unat b div 128 = 0 \<or> unat b div 128 = 1"
    using unat_byte_bound [of b] by linarith
  ultimately show ?thesis by (auto simp: word_less_nat_alt)
qed

lemma low_7_bits: "(ucast ((ucast (y::u64) OR 0x80 :: byte) AND 0x7f) :: u64) = take_bit 7 y"
proof -
  have "(ucast y OR 0x80 :: byte) AND 0x7f = take_bit 7 (ucast y)"
    by (simp add: byte_eq_bits bit_simps)
  moreover have "(ucast (take_bit 7 (ucast y) :: byte) :: u64) = take_bit 7 y"
    by (rule bit_word_eqI) (auto simp: bit_simps)
  ultimately show ?thesis by simp
qed

lemma join_7_bits: "(x OR push_bit s (take_bit 7 y)) OR push_bit (s + 7) (drop_bit 7 y) = x OR push_bit s (y::u64)"
proof (rule bit_word_eqI)
  fix n assume "n < LENGTH(64)"
  show "bit ((x OR push_bit s (take_bit 7 y)) OR push_bit (s + 7) (drop_bit 7 y)) n = bit (x OR push_bit s y) n"
    by (cases "s + 7 \<le> n") (auto simp: bit_simps)
qed

lemma two_bytes_nat: "b < 256 \<Longrightarrow> push_bit 8 a OR b = 256 * a + (b::nat)"
proof -
  assume "b < 256"
  then have "take_bit 8 b = b" by (simp add: take_bit_eq_mod)
  then have "\<not> bit b n" if "8 \<le> n" for n using that by (metis bit_take_bit_iff not_le)
  then have "push_bit 8 a OR b = push_bit 8 a + b"
    by (intro disjunctive_add [symmetric]) (auto simp: bit_simps)
  then show ?thesis by (simp add: push_bit_eq_mult)
qed

lemma unat_len_high: assumes "q < 128" shows "unat (of_nat q OR 0x80 :: byte) = q + 128"
proof -
  have "take_bit 7 q = q" using assms by (simp add: take_bit_eq_mod)
  then have nb: "\<not> bit q n" if "7 \<le> n" for n using that by (metis bit_take_bit_iff not_le)
  have "unat (of_nat q OR 0x80 :: byte) = q OR 128"
    using assms by (simp add: unsigned_or_eq unsigned_of_nat take_bit_eq_mod)
  also have "\<dots> = q + 128"
  proof (rule disjunctive_add [symmetric])
    fix n show "\<not> bit q n \<or> \<not> bit (128::nat) n"
      using nb[of n] bit_exp_iff[of 7 n, where ?'a=nat] by (cases "n = 7") auto
  qed
  finally show ?thesis .
qed

end
