(* ===== verification/Frame_Header.thy ===== *)
theory Frame_Header
  imports Rap_Prelude
begin

unbundle bit_operations_syntax

text \<open>
  \<^verbatim>\<open>src/frameheader.go\<close>, with the constants of \<^verbatim>\<open>src/rap.go\<close> and the record types of
  \<^verbatim>\<open>src/recordtype.go\<close>. A \<^verbatim>\<open>FrameHeader\<close> is the byte slice of a whole frame, whose first four
  bytes hold a 16-bit size, three control bits and a 13-bit Conn ID. The accessors index that
  slice, so on a shorter slice they panic; on four bytes or more they are related to an abstract
  view of the header (\<open>hdr_view\<close>), which every accessor reads and every setter updates in one field.
\<close>

section \<open>Constants\<close>

type_synonym ConnID = u16
type_synonym FrameFlag = byte
type_synonym MuxerControl = byte
type_synonym RecordType = byte
type_synonym FrameHeader = "byte list"

definition FrameFlagHead :: FrameFlag where "FrameFlagHead = 0x20"
definition FrameFlagBody :: FrameFlag where "FrameFlagBody = 0x40"
definition FrameFlagFlow :: FrameFlag where "FrameFlagFlow = 0x80"
definition FrameFlagMask :: byte where
  "FrameFlagMask = FrameFlagFlow OR FrameFlagBody OR FrameFlagHead"

definition MuxerControlPanic :: MuxerControl where "MuxerControlPanic = 0"
definition MuxerControlPing :: MuxerControl where "MuxerControlPing = FrameFlagBody"
definition MuxerControlPong :: MuxerControl where
  "MuxerControlPong = FrameFlagBody OR FrameFlagHead"
definition muxerControlReserved001 :: MuxerControl where "muxerControlReserved001 = FrameFlagHead"
definition muxerControlReserved100 :: MuxerControl where "muxerControlReserved100 = FrameFlagFlow"
definition muxerControlReserved101 :: MuxerControl where
  "muxerControlReserved101 = FrameFlagFlow OR FrameFlagHead"
definition muxerControlReserved110 :: MuxerControl where
  "muxerControlReserved110 = FrameFlagFlow OR FrameFlagBody"
definition muxerControlReserved111 :: MuxerControl where
  "muxerControlReserved111 = FrameFlagFlow OR FrameFlagBody OR FrameFlagHead"

definition MuxerConnID :: ConnID where
  "MuxerConnID = push_bit 8 (0xff AND NOT (ucast FrameFlagMask)) OR 0xff"
definition ProtocolMaxConnID :: ConnID where "ProtocolMaxConnID = MuxerConnID - 1"
definition ProtocolMaxConcurrentConns :: nat where "ProtocolMaxConcurrentConns = 10 * 1000000"
definition MaxSendWindowSize :: nat where "MaxSendWindowSize = 8"
definition FrameHeaderSize :: nat where "FrameHeaderSize = 4"
definition FrameMaxSize :: nat where "FrameMaxSize = 0x10000"
definition FrameMaxPayloadSize :: nat where "FrameMaxPayloadSize = FrameMaxSize - FrameHeaderSize"

text \<open>Times are in nanoseconds.\<close>

definition DefaultReadTimeout :: int where "DefaultReadTimeout = 1000000000 * 5"
definition DefaultWriteTimeout :: int where "DefaultWriteTimeout = 1000000000 * 5"

definition RecordTypeInvalid :: RecordType where "RecordTypeInvalid = 0x00"
definition RecordTypeSetString :: RecordType where "RecordTypeSetString = 0x01"
definition RecordTypeSetRoute :: RecordType where "RecordTypeSetRoute = 0x02"
definition RecordTypeHTTPRequest :: RecordType where "RecordTypeHTTPRequest = 0x03"
definition RecordTypeHTTPResponse :: RecordType where "RecordTypeHTTPResponse = 0x04"
definition RecordTypeServicePause :: RecordType where "RecordTypeServicePause = 0x05"
definition RecordTypeServiceResume :: RecordType where "RecordTypeServiceResume = 0x06"
definition RecordTypeHijacked :: RecordType where "RecordTypeHijacked = 0x07"
definition RecordTypeUserFirst :: RecordType where "RecordTypeUserFirst = 0x80"

text \<open>
  The package variables that a program may change at run time, and the rule by which the Go
  runtime chooses the capacity of a slice that \<^verbatim>\<open>append\<close> has to move (of the old capacity and the
  length needed; the language promises no more than that the new capacity is large enough).
\<close>

record rap_config =
  MaxConnID :: ConnID
  SendWindowSize :: int
  append_cap :: "nat \<Rightarrow> nat \<Rightarrow> nat"

text \<open>\<^verbatim>\<open>src/sanitycheck.go\<close>: the configurations its \<^verbatim>\<open>init\<close> accepts without a panic.\<close>

definition sanitycheck :: "rap_config \<Rightarrow> bool" where
  "sanitycheck E \<longleftrightarrow>
     \<not> ProtocolMaxConcurrentConns < 1 \<and>
     \<not> SendWindowSize E < 1 \<and>
     \<not> SendWindowSize E > int MaxSendWindowSize \<and>
     \<not> MuxerConnID < 1 \<and>
     \<not> ProtocolMaxConnID < 1 \<and>
     \<not> ProtocolMaxConnID \<ge> MuxerConnID \<and>
     \<not> MaxConnID E < 0 \<and>
     \<not> MaxConnID E > ProtocolMaxConnID \<and>
     \<not> FrameMaxSize < FrameHeaderSize + 60 \<and>
     \<not> FrameMaxSize > FrameHeaderSize + 0xffff"

text \<open>
  \<^verbatim>\<open>src/raceenabled.go\<close>: in a build with the race detector its \<^verbatim>\<open>init\<close> lowers \<^verbatim>\<open>MaxConnID\<close>, before that of
  \<^verbatim>\<open>src/sanitycheck.go\<close> looks at it (the files of a package are initialised in the order of their names).
\<close>

definition raceenabled :: "rap_config \<Rightarrow> rap_config" where
  "raceenabled E = E\<lparr>MaxConnID := 1024\<rparr>"

section \<open>Accessors\<close>

definition getLargeValue :: "FrameHeader \<Rightarrow> u16 go" where
  "getLargeValue fh = bnd (idx fh 0) (\<lambda>b0. bnd (idx fh 1) (\<lambda>b1.
     Ret (push_bit 8 (ucast b0) OR ucast b1)))"

definition setLargeValue :: "FrameHeader \<Rightarrow> u16 \<Rightarrow> FrameHeader go" where
  "setLargeValue fh n = bnd (put fh 0 (ucast (drop_bit 8 n))) (\<lambda>fh. put fh 1 (ucast n))"

definition getSmallValue :: "FrameHeader \<Rightarrow> u16 go" where
  "getSmallValue fh = bnd (idx fh 2) (\<lambda>b2. bnd (idx fh 3) (\<lambda>b3.
     Ret (push_bit 8 (ucast (b2 AND NOT FrameFlagMask)) OR ucast b3)))"

definition setSmallValue :: "FrameHeader \<Rightarrow> u16 \<Rightarrow> FrameHeader go" where
  "setSmallValue fh n = bnd (idx fh 2) (\<lambda>b2.
     bnd (put fh 2 ((b2 AND FrameFlagMask) OR ucast (drop_bit 8 n))) (\<lambda>fh. put fh 3 (ucast n)))"

definition SizeValue :: "FrameHeader \<Rightarrow> int go" where
  "SizeValue fh = map_go uint (getLargeValue fh)"

definition SetSizeValue :: "FrameHeader \<Rightarrow> int \<Rightarrow> FrameHeader go" where
  "SetSizeValue fh n = setLargeValue fh (word_of_int n)"

definition ConnIDOf :: "FrameHeader \<Rightarrow> ConnID go" where
  "ConnIDOf fh = getSmallValue fh"

definition SetConnID :: "FrameHeader \<Rightarrow> ConnID \<Rightarrow> FrameHeader go" where
  "SetConnID fh connID =
     (if connID > MuxerConnID then Panics (PanicMsg ''SetConnID(): connID > MuxerConnID'')
      else setSmallValue fh connID)"

definition HasFlow :: "FrameHeader \<Rightarrow> bool go" where
  "HasFlow fh = bnd (idx fh 2) (\<lambda>b. Ret (b AND FrameFlagFlow = FrameFlagFlow))"

definition HasBodyOrHead :: "FrameHeader \<Rightarrow> bool go" where
  "HasBodyOrHead fh = bnd (idx fh 2) (\<lambda>b. Ret (b AND (FrameFlagBody OR FrameFlagHead) \<noteq> 0))"

definition HasHead :: "FrameHeader \<Rightarrow> bool go" where
  "HasHead fh = bnd (idx fh 2) (\<lambda>b. Ret (b AND FrameFlagHead = FrameFlagHead))"

definition HasBody :: "FrameHeader \<Rightarrow> bool go" where
  "HasBody fh = bnd (idx fh 2) (\<lambda>b. Ret (b AND FrameFlagBody = FrameFlagBody))"

definition SetFlow :: "FrameHeader \<Rightarrow> FrameHeader go" where
  "SetFlow fh = bnd (idx fh 2) (\<lambda>b. put fh 2 (b OR FrameFlagFlow))"

definition SetHead :: "FrameHeader \<Rightarrow> FrameHeader go" where
  "SetHead fh = bnd (idx fh 2) (\<lambda>b. put fh 2 (b OR FrameFlagHead))"

definition SetBody :: "FrameHeader \<Rightarrow> FrameHeader go" where
  "SetBody fh = bnd (idx fh 2) (\<lambda>b. put fh 2 (b OR FrameFlagBody))"

text \<open>\<^verbatim>\<open>!fh.HasFlow() && fh.HasBodyOrHead()\<close>: the second operand runs only when the first is true.\<close>

definition HasPayload :: "FrameHeader \<Rightarrow> bool go" where
  "HasPayload fh = bnd (HasFlow fh) (\<lambda>f. if \<not> f then HasBodyOrHead fh else Ret False)"

definition IsAck :: "FrameHeader \<Rightarrow> bool go" where
  "IsAck fh = bnd (idx fh 2) (\<lambda>b. Ret (b AND FrameFlagMask = FrameFlagFlow))"

definition IsFinal :: "FrameHeader \<Rightarrow> bool go" where
  "IsFinal fh = bnd (idx fh 2) (\<lambda>b.
     Ret (b AND (FrameFlagFlow OR FrameFlagBody) = FrameFlagFlow OR FrameFlagBody))"

definition IsFinalAck :: "FrameHeader \<Rightarrow> bool go" where
  "IsFinalAck fh = bnd (idx fh 2) (\<lambda>b. Ret (b AND FrameFlagMask = FrameFlagMask))"

definition PayloadSize :: "FrameHeader \<Rightarrow> int go" where
  "PayloadSize fh = bnd (HasPayload fh) (\<lambda>p. if p then SizeValue fh else Ret 0)"

definition IsMuxerControl :: "FrameHeader \<Rightarrow> bool go" where
  "IsMuxerControl fh = bnd (ConnIDOf fh) (\<lambda>i. Ret (i = MuxerConnID))"

definition MuxerControlOf :: "FrameHeader \<Rightarrow> MuxerControl go" where
  "MuxerControlOf fh = bnd (idx fh 2) (\<lambda>b. Ret (b AND FrameFlagMask))"

definition FrameControl :: "FrameHeader \<Rightarrow> FrameFlag go" where
  "FrameControl fh = bnd (idx fh 2) (\<lambda>b. Ret (b AND FrameFlagMask))"

definition SetMuxerControl :: "FrameHeader \<Rightarrow> MuxerControl \<Rightarrow> FrameHeader go" where
  "SetMuxerControl fh sc = bnd (idx fh 2) (\<lambda>b.
     bnd (put fh 2 ((b AND NOT FrameFlagMask) OR sc)) (\<lambda>fh. SetConnID fh MuxerConnID))"

definition Clear :: "FrameHeader \<Rightarrow> FrameHeader go" where
  "Clear fh = bnd (put fh 0 0) (\<lambda>fh. bnd (put fh 1 0) (\<lambda>fh. bnd (put fh 2 0) (\<lambda>fh. put fh 3 0)))"

definition ClearID :: "rap_config \<Rightarrow> FrameHeader \<Rightarrow> ConnID \<Rightarrow> FrameHeader go" where
  "ClearID E fh connID =
     (if connID > MaxConnID E then Panics (PanicMsg ''AppendFrameHeader(): connID > MaxConnID'')
      else bnd (Clear fh) (\<lambda>fh. SetConnID fh connID))"

section \<open>The abstract header\<close>

text \<open>What the four bytes say, and the reading of a frame's first four bytes.\<close>

record header =
  h_size :: nat
  h_flow :: bool
  h_body :: bool
  h_head :: bool
  h_id :: nat

fun hdr_view :: "FrameHeader \<Rightarrow> header" where
  "hdr_view (b0 # b1 # b2 # b3 # _) =
     \<lparr>h_size = 256 * unat b0 + unat b1, h_flow = bit b2 7, h_body = bit b2 6, h_head = bit b2 5,
      h_id = 256 * (unat b2 mod 32) + unat b3\<rparr>"
| "hdr_view _ = \<lparr>h_size = 0, h_flow = False, h_body = False, h_head = False, h_id = 0\<rparr>"

text \<open>The four bytes of an abstract header: the layout the package documentation draws.\<close>

definition ctl_byte :: "bool \<Rightarrow> bool \<Rightarrow> bool \<Rightarrow> nat \<Rightarrow> byte" where
  "ctl_byte f b h n =
     (if f then 0x80 else 0) OR (if b then 0x40 else 0) OR (if h then 0x20 else 0) OR of_nat n"

definition hdr_bytes :: "header \<Rightarrow> byte list" where
  "hdr_bytes h =
     [of_nat (h_size h div 256), of_nat (h_size h mod 256),
      ctl_byte (h_flow h) (h_body h) (h_head h) (h_id h div 256), of_nat (h_id h mod 256)]"

definition hdr_ok :: "header \<Rightarrow> bool" where
  "hdr_ok h \<longleftrightarrow> h_size h < 2 ^ 16 \<and> h_id h < 2 ^ 13"

section \<open>Constants evaluated\<close>

lemma FrameFlagMask_eq: "FrameFlagMask = 0xe0"
  by (simp add: FrameFlagMask_def FrameFlagFlow_def FrameFlagBody_def FrameFlagHead_def)

lemma MuxerConnID_eq: "MuxerConnID = 0x1fff"
  by (simp add: MuxerConnID_def FrameFlagMask_eq)

lemma ProtocolMaxConnID_eq: "ProtocolMaxConnID = 0x1ffe"
  by (simp add: ProtocolMaxConnID_def MuxerConnID_eq)

lemmas frame_sizes = FrameHeaderSize_def FrameMaxSize_def FrameMaxPayloadSize_def

lemmas flag_defs = FrameFlagMask_eq FrameFlagFlow_def FrameFlagBody_def FrameFlagHead_def

section \<open>The control byte\<close>

lemma bit_below_32: "\<not> bit n i" if "n < 32" "5 \<le> i" for n :: nat
proof -
  have "take_bit 5 n = n" using that by (simp add: take_bit_eq_mod)
  with that show ?thesis by (metis bit_take_bit_iff not_le)
qed

lemma bit_ctl_byte [simp]:
  assumes "n < 32"
  shows "bit (ctl_byte f b h n) 7 = f"
    and "bit (ctl_byte f b h n) 6 = b"
    and "bit (ctl_byte f b h n) 5 = h"
  using bit_below_32 [OF assms] by (auto simp: ctl_byte_def bit_simps)

lemma ctl_byte_masks:
  assumes "n < 32"
  shows "ctl_byte f b h n OR 0x80 = ctl_byte True b h n"
    and "ctl_byte f b h n OR 0x40 = ctl_byte f True h n"
    and "ctl_byte f b h n OR 0x20 = ctl_byte f b True n"
    and "ctl_byte f b h n AND 0xe0 = ctl_byte f b h 0"
    and "ctl_byte f b h n AND NOT 0xe0 = of_nat n"
  using bit_below_32 [OF assms] by (simp_all add: ctl_byte_def byte_eq_bits bit_simps)

lemma ctl_byte_parts:
  "ctl_byte f b h 0 OR of_nat m = ctl_byte f b h m"
  "of_nat m OR ctl_byte f b h 0 = ctl_byte f b h m"
  "ctl_byte False False False m = of_nat m"
  by (simp_all add: ctl_byte_def byte_eq_bits bit_simps)

lemma ctl_byte_tests:
  "ctl_byte f b h 0 = 0x80 \<longleftrightarrow> f \<and> \<not> b \<and> \<not> h"
  "ctl_byte f b h 0 = 0xe0 \<longleftrightarrow> f \<and> b \<and> h"
  "ctl_byte f b h 0 = ctl_byte f' b' h' 0 \<longleftrightarrow> f = f' \<and> b = b' \<and> h = h'"
  by (auto simp: ctl_byte_def byte_eq_bits bit_simps)

lemma byte_flag_tests:
  fixes x :: byte
  shows "x AND 0x80 = 0x80 \<longleftrightarrow> bit x 7"
    and "x AND 0x40 = 0x40 \<longleftrightarrow> bit x 6"
    and "x AND 0x20 = 0x20 \<longleftrightarrow> bit x 5"
    and "x AND 0x60 = 0 \<longleftrightarrow> \<not> bit x 6 \<and> \<not> bit x 5"
    and "x AND 0xc0 = 0xc0 \<longleftrightarrow> bit x 7 \<and> bit x 6"
  by (auto simp: byte_eq_bits bit_simps)

lemma ctl_byte_surj: "ctl_byte (bit x 7) (bit x 6) (bit x 5) (unat x mod 32) = x"
proof -
  have "unat x mod 32 = take_bit 5 (unat x)" by (simp add: take_bit_eq_mod)
  then show ?thesis by (simp add: ctl_byte_def byte_eq_bits bit_simps)
qed

section \<open>Reading the layout back\<close>

lemma length_hdr_bytes [simp]: "length (hdr_bytes h) = 4"
  by (simp add: hdr_bytes_def)

lemma hdr_ok_view [simp]: "hdr_ok (hdr_view fh)"
proof (cases "4 \<le> length fh")
  case True
  then obtain a b c d r where fh: "fh = a # b # c # d # r" by (rule four_bytes)
  have "256 * (unat c mod 32) + unat d < 8192"
    using unat_byte_bound [of d] mod_less_divisor [of 32 "unat c"] by linarith
  moreover have "256 * unat a + unat b < 65536"
    using unat_byte_bound [of a] unat_byte_bound [of b] by simp
  ultimately show ?thesis by (simp add: fh hdr_ok_def)
next
  case False
  then have "hdr_view fh = \<lparr>h_size = 0, h_flow = False, h_body = False, h_head = False, h_id = 0\<rparr>"
    by (cases fh rule: hdr_view.cases) auto
  then show ?thesis by (simp add: hdr_ok_def)
qed

lemma hdr_bytes_view:
  assumes "4 \<le> length fh"
  shows "hdr_bytes (hdr_view fh) @ drop 4 fh = fh"
proof -
  from assms obtain a b c d r where fh: "fh = a # b # c # d # r" by (rule four_bytes)
  have "unat b < 256" "unat d < 256" by (rule unat_byte_bound)+
  then have "(256 * unat a + unat b) div 256 = unat a" "(256 * unat a + unat b) mod 256 = unat b"
    "(256 * (unat c mod 32) + unat d) div 256 = unat c mod 32"
    "(256 * (unat c mod 32) + unat d) mod 256 = unat d"
    by simp_all
  then show ?thesis by (simp add: fh hdr_bytes_def ctl_byte_surj)
qed

lemma hdr_view_bytes [simp]:
  assumes "hdr_ok h"
  shows "hdr_view (hdr_bytes h @ p) = h"
proof -
  have id: "h_id h div 256 < 32" using assms by (simp add: hdr_ok_def less_mult_imp_div_less)
  have sz: "h_size h div 256 < 256" using assms by (simp add: hdr_ok_def less_mult_imp_div_less)
  have low: "unat (ctl_byte f b hd n) mod 32 = n" if "n < 32" for f b hd n
  proof -
    have "unat (ctl_byte f b hd n) mod 32 = take_bit 5 (unat (ctl_byte f b hd n))"
      by (simp add: take_bit_eq_mod)
    also have "\<dots> = unat (take_bit 5 (ctl_byte f b hd n))"
      by (simp add: unsigned_take_bit_eq)
    also have "take_bit 5 (ctl_byte f b hd n) = of_nat n"
      using bit_below_32 [OF that] by (simp add: ctl_byte_def byte_eq_bits bit_simps)
    finally show ?thesis using that by (simp add: unsigned_of_nat take_bit_eq_mod)
  qed
  show ?thesis
    using id sz by (simp add: hdr_bytes_def low unsigned_of_nat take_bit_eq_mod)
qed

lemma frame_cases:
  assumes "4 \<le> length fh"
  obtains h p where "fh = hdr_bytes h @ p" "hdr_ok h" "h = hdr_view fh" "p = drop 4 fh"
  using hdr_bytes_view [OF assms] that [of "hdr_view fh" "drop 4 fh"] by simp

section \<open>The accessors on the layout\<close>

lemma hdr_ok_id: "hdr_ok h \<Longrightarrow> h_id h div 256 < 32"
  and hdr_ok_size: "hdr_ok h \<Longrightarrow> h_size h div 256 < 256"
  by (simp_all add: hdr_ok_def less_mult_imp_div_less)

lemma of_nat_halves:
  "push_bit 8 (ucast (of_nat (n div 256) :: byte)) OR ucast (of_nat (n mod 256) :: byte) = (of_nat n :: u16)"
  if "n < 65536"
proof -
  have "n div 256 < 256" using that by (simp add: less_mult_imp_div_less)
  then have "unat (of_nat (n div 256) :: byte) = n div 256" "unat (of_nat (n mod 256) :: byte) = n mod 256"
    by (simp_all add: unsigned_of_nat take_bit_eq_mod)
  then show ?thesis by (simp only: two_bytes_of_nat) simp
qed

lemma hdr_read [hdr_simps]:
  assumes "hdr_ok h"
  shows "SizeValue (hdr_bytes h @ p) = Ret (int (h_size h))"
    and "ConnIDOf (hdr_bytes h @ p) = Ret (of_nat (h_id h))"
    and "HasFlow (hdr_bytes h @ p) = Ret (h_flow h)"
    and "HasBody (hdr_bytes h @ p) = Ret (h_body h)"
    and "HasHead (hdr_bytes h @ p) = Ret (h_head h)"
    and "HasBodyOrHead (hdr_bytes h @ p) = Ret (h_body h \<or> h_head h)"
proof -
  have sz: "h_size h < 65536" and id: "h_id h < 65536" using assms by (simp_all add: hdr_ok_def)
  note n = hdr_ok_id [OF assms]
  have "uint (of_nat (h_size h) :: u16) = int (h_size h)"
    using sz by (simp add: unsigned_of_nat take_bit_eq_mod)
  then show "SizeValue (hdr_bytes h @ p) = Ret (int (h_size h))"
    using sz by (simp only: SizeValue_def getLargeValue_def hdr_bytes_def) (simp add: of_nat_halves)
  show "ConnIDOf (hdr_bytes h @ p) = Ret (of_nat (h_id h))"
    using id by (simp add: ConnIDOf_def getSmallValue_def hdr_bytes_def FrameFlagMask_eq
        ctl_byte_masks(5) [OF n, simplified] of_nat_halves)
  show "HasFlow (hdr_bytes h @ p) = Ret (h_flow h)"
    "HasBody (hdr_bytes h @ p) = Ret (h_body h)"
    "HasHead (hdr_bytes h @ p) = Ret (h_head h)"
    "HasBodyOrHead (hdr_bytes h @ p) = Ret (h_body h \<or> h_head h)"
    using n by (simp_all add: HasFlow_def HasBody_def HasHead_def HasBodyOrHead_def hdr_bytes_def
        flag_defs byte_flag_tests)
qed

lemma hdr_classify [hdr_simps]:
  assumes "hdr_ok h"
  shows "HasPayload (hdr_bytes h @ p) = Ret (\<not> h_flow h \<and> (h_body h \<or> h_head h))"
    and "IsAck (hdr_bytes h @ p) = Ret (h_flow h \<and> \<not> h_body h \<and> \<not> h_head h)"
    and "IsFinal (hdr_bytes h @ p) = Ret (h_flow h \<and> h_body h)"
    and "IsFinalAck (hdr_bytes h @ p) = Ret (h_flow h \<and> h_body h \<and> h_head h)"
    and "IsMuxerControl (hdr_bytes h @ p) = Ret (h_id h = 0x1fff)"
    and "FrameControl (hdr_bytes h @ p) = Ret (ctl_byte (h_flow h) (h_body h) (h_head h) 0)"
    and "MuxerControlOf (hdr_bytes h @ p) = Ret (ctl_byte (h_flow h) (h_body h) (h_head h) 0)"
proof -
  note n = hdr_ok_id [OF assms]
  show "HasPayload (hdr_bytes h @ p) = Ret (\<not> h_flow h \<and> (h_body h \<or> h_head h))"
    by (simp add: HasPayload_def hdr_read [OF assms])
  show "IsAck (hdr_bytes h @ p) = Ret (h_flow h \<and> \<not> h_body h \<and> \<not> h_head h)"
    "IsFinalAck (hdr_bytes h @ p) = Ret (h_flow h \<and> h_body h \<and> h_head h)"
    "FrameControl (hdr_bytes h @ p) = Ret (ctl_byte (h_flow h) (h_body h) (h_head h) 0)"
    "MuxerControlOf (hdr_bytes h @ p) = Ret (ctl_byte (h_flow h) (h_body h) (h_head h) 0)"
    using n by (simp_all add: IsAck_def IsFinalAck_def FrameControl_def MuxerControlOf_def
        hdr_bytes_def flag_defs ctl_byte_masks ctl_byte_tests)
  show "IsFinal (hdr_bytes h @ p) = Ret (h_flow h \<and> h_body h)"
    using n by (simp add: IsFinal_def hdr_bytes_def flag_defs byte_flag_tests)
  have "(of_nat (h_id h) = (0x1fff :: u16)) = (h_id h = 0x1fff)"
  proof
    assume "of_nat (h_id h) = (0x1fff :: u16)"
    then have "unat (of_nat (h_id h) :: u16) = 0x1fff" by simp
    then show "h_id h = 0x1fff" using assms by (simp add: unsigned_of_nat take_bit_eq_mod hdr_ok_def)
  qed simp
  then show "IsMuxerControl (hdr_bytes h @ p) = Ret (h_id h = 0x1fff)"
    by (simp add: IsMuxerControl_def hdr_read [OF assms] MuxerConnID_eq)
qed

lemma u16_parts:
  fixes n :: u16
  shows "of_nat (unat n div 256) = (ucast (drop_bit 8 n) :: byte)"
    and "of_nat (unat n mod 256) = (ucast n :: byte)"
proof -
  have "unat n = unat (push_bit 8 (ucast (ucast (drop_bit 8 n) :: byte)) OR ucast (ucast n :: byte) :: u16)"
    by (simp only: u16_of_halves)
  also have "\<dots> = 256 * unat (ucast (drop_bit 8 n) :: byte) + unat (ucast n :: byte)"
    by (rule unat_two_bytes)
  finally have n: "unat n = \<dots>" .
  show "of_nat (unat n div 256) = (ucast (drop_bit 8 n) :: byte)"
    and "of_nat (unat n mod 256) = (ucast n :: byte)"
    unfolding n using unat_byte_bound [of "ucast n :: byte"] by (simp_all del: of_nat_add of_nat_mult)
qed

lemma setLargeValue_bytes:
  "hdr_ok h \<Longrightarrow> setLargeValue (hdr_bytes h @ p) n = Ret (hdr_bytes (h\<lparr>h_size := unat n\<rparr>) @ p)"
  by (simp add: setLargeValue_def hdr_bytes_def u16_parts)

lemma setSmallValue_bytes:
  assumes "hdr_ok h" and "n \<le> MuxerConnID"
  shows "setSmallValue (hdr_bytes h @ p) n = Ret (hdr_bytes (h\<lparr>h_id := unat n\<rparr>) @ p)"
proof -
  have "ctl_byte f b hd 0 OR ucast (drop_bit 8 n) = ctl_byte f b hd (unat n div 256)" for f b hd
    by (simp only: ctl_byte_parts u16_parts(1) [symmetric])
  then show ?thesis
    using hdr_ok_id [OF assms(1)]
    by (simp add: setSmallValue_def hdr_bytes_def FrameFlagMask_eq ctl_byte_masks u16_parts(2))
qed

lemma hdr_write [hdr_simps]:
  assumes "hdr_ok h"
  shows "SetFlow (hdr_bytes h @ p) = Ret (hdr_bytes (h\<lparr>h_flow := True\<rparr>) @ p)"
    and "SetBody (hdr_bytes h @ p) = Ret (hdr_bytes (h\<lparr>h_body := True\<rparr>) @ p)"
    and "SetHead (hdr_bytes h @ p) = Ret (hdr_bytes (h\<lparr>h_head := True\<rparr>) @ p)"
    and "SetSizeValue (hdr_bytes h @ p) n = Ret (hdr_bytes (h\<lparr>h_size := nat (n mod 65536)\<rparr>) @ p)"
    and "SetConnID (hdr_bytes h @ p) i =
      (if i > MuxerConnID then Panics (PanicMsg ''SetConnID(): connID > MuxerConnID'')
       else Ret (hdr_bytes (h\<lparr>h_id := unat i\<rparr>) @ p))"
proof -
  show "SetFlow (hdr_bytes h @ p) = Ret (hdr_bytes (h\<lparr>h_flow := True\<rparr>) @ p)"
    "SetBody (hdr_bytes h @ p) = Ret (hdr_bytes (h\<lparr>h_body := True\<rparr>) @ p)"
    "SetHead (hdr_bytes h @ p) = Ret (hdr_bytes (h\<lparr>h_head := True\<rparr>) @ p)"
    using hdr_ok_id [OF assms]
    by (simp_all add: SetFlow_def SetBody_def SetHead_def hdr_bytes_def flag_defs ctl_byte_masks)
  have "unat (word_of_int n :: u16) = nat (n mod 65536)"
    by (simp add: unsigned_of_int take_bit_eq_mod)
  then show "SetSizeValue (hdr_bytes h @ p) n = Ret (hdr_bytes (h\<lparr>h_size := nat (n mod 65536)\<rparr>) @ p)"
    by (simp only: SetSizeValue_def setLargeValue_bytes [OF assms])
  show "SetConnID (hdr_bytes h @ p) i =
      (if i > MuxerConnID then Panics (PanicMsg ''SetConnID(): connID > MuxerConnID'')
       else Ret (hdr_bytes (h\<lparr>h_id := unat i\<rparr>) @ p))"
    by (simp add: SetConnID_def setSmallValue_bytes [OF assms])
qed

lemma hdr_ok_updates [simp]:
  assumes "hdr_ok h"
  shows "hdr_ok (h\<lparr>h_flow := x\<rparr>)" "hdr_ok (h\<lparr>h_body := x\<rparr>)" "hdr_ok (h\<lparr>h_head := x\<rparr>)"
    "hdr_ok (h\<lparr>h_size := nat (n mod 65536)\<rparr>)"
    "m < 65536 \<Longrightarrow> hdr_ok (h\<lparr>h_size := m\<rparr>)"
    "k < 8192 \<Longrightarrow> hdr_ok (h\<lparr>h_id := k\<rparr>)"
  using assms by (auto simp: hdr_ok_def nat_less_iff)

definition zero_hdr :: header where
  "zero_hdr = \<lparr>h_size = 0, h_flow = False, h_body = False, h_head = False, h_id = 0\<rparr>"

abbreviation id_hdr :: "ConnID \<Rightarrow> header" where
  "id_hdr i \<equiv> zero_hdr\<lparr>h_id := unat i\<rparr>"

lemma zero_hdr_ok [simp]: "hdr_ok zero_hdr"
  by (simp add: zero_hdr_def hdr_ok_def)

lemma zero_hdr_fields [simp]:
  "h_size zero_hdr = 0" "\<not> h_flow zero_hdr" "\<not> h_body zero_hdr" "\<not> h_head zero_hdr" "h_id zero_hdr = 0"
  by (simp_all add: zero_hdr_def)

lemma unat_le_MuxerConnID: "i \<le> MuxerConnID \<longleftrightarrow> unat i < 8192"
  by (auto simp: MuxerConnID_eq word_le_nat_alt)

lemma Clear_bytes: "Clear (hdr_bytes h @ p) = Ret (hdr_bytes zero_hdr @ p)"
  by (simp add: Clear_def hdr_bytes_def ctl_byte_def)

lemma ClearID_bytes:
  assumes "i \<le> MaxConnID E" and "MaxConnID E \<le> MuxerConnID"
  shows "ClearID E (hdr_bytes h @ p) i = Ret (hdr_bytes (id_hdr i) @ p)"
  using assms by (auto simp: ClearID_def Clear_bytes hdr_write)

text \<open>The configuration the package starts with, and what every checked configuration bounds.\<close>

definition rap_default :: rap_config where
  "rap_default = \<lparr>MaxConnID = ProtocolMaxConnID, SendWindowSize = int MaxSendWindowSize, append_cap = \<lambda>_ n. n\<rparr>"

lemma rap_default_sane [simp]: "sanitycheck rap_default"
  by (simp add: sanitycheck_def rap_default_def frame_sizes ProtocolMaxConcurrentConns_def
      MaxSendWindowSize_def MuxerConnID_eq ProtocolMaxConnID_eq)

text \<open>The lower limit of a race detector build passes the check that runs after it.\<close>

lemma raceenabled_sane: "sanitycheck E \<Longrightarrow> sanitycheck (raceenabled E)"
  by (simp add: sanitycheck_def raceenabled_def ProtocolMaxConnID_eq)

lemma rap_default_sel [simp]:
  "MaxConnID rap_default = 0x1ffe" "SendWindowSize rap_default = 8"
  by (simp_all add: rap_default_def ProtocolMaxConnID_eq MaxSendWindowSize_def)

lemma sanity_MaxConnID: "sanitycheck E \<Longrightarrow> MaxConnID E \<le> MuxerConnID"
  by (auto simp: sanitycheck_def ProtocolMaxConnID_eq MuxerConnID_eq word_le_nat_alt not_less)

lemma sanity_window: "sanitycheck E \<Longrightarrow> 1 \<le> SendWindowSize E \<and> SendWindowSize E \<le> 8"
  by (auto simp: sanitycheck_def MaxSendWindowSize_def)

section \<open>Properties of the header\<close>

text \<open>
  C39. Every setter of a frame header changes the one field it names and nothing else: on a frame of
  four bytes or more, \<^verbatim>\<open>SetFlow\<close>, \<^verbatim>\<open>SetBody\<close>, \<^verbatim>\<open>SetHead\<close>, \<^verbatim>\<open>SetSizeValue\<close> and \<^verbatim>\<open>SetConnID\<close> act on
  the abstract header as single field updates (the size modulo 65536, the ID rejected by a panic
  when it does not fit 13 bits), and the payload stays as it was.
\<close>

theorem header_setters_refine:
  assumes "4 \<le> length fh"
  shows "map_go hdr_view (SetFlow fh) = Ret (hdr_view fh\<lparr>h_flow := True\<rparr>)
    \<and> map_go hdr_view (SetBody fh) = Ret (hdr_view fh\<lparr>h_body := True\<rparr>)
    \<and> map_go hdr_view (SetHead fh) = Ret (hdr_view fh\<lparr>h_head := True\<rparr>)
    \<and> map_go hdr_view (SetSizeValue fh n) = Ret (hdr_view fh\<lparr>h_size := nat (n mod 65536)\<rparr>)
    \<and> map_go hdr_view (SetConnID fh i) =
        (if unat i < 8192 then Ret (hdr_view fh\<lparr>h_id := unat i\<rparr>)
         else Panics (PanicMsg ''SetConnID(): connID > MuxerConnID''))
    \<and> map_go (drop 4) (SetFlow fh) = Ret (drop 4 fh)
    \<and> map_go (drop 4) (SetBody fh) = Ret (drop 4 fh)
    \<and> map_go (drop 4) (SetHead fh) = Ret (drop 4 fh)
    \<and> map_go (drop 4) (SetSizeValue fh n) = Ret (drop 4 fh)
    \<and> (unat i < 8192 \<longrightarrow> map_go (drop 4) (SetConnID fh i) = Ret (drop 4 fh))"
proof -
  from assms obtain h p where fh: "fh = hdr_bytes h @ p" and ok: "hdr_ok h"
    by (rule frame_cases) blast
  have lim: "MuxerConnID < i \<longleftrightarrow> \<not> unat i < 8192" by (simp only: not_le [symmetric] unat_le_MuxerConnID)
  show ?thesis unfolding fh hdr_write [OF ok] lim using ok by simp
qed

theorem header_setters_refine_witness:
  "map_go hdr_view (SetConnID [1, 2, 0xe3, 4, 5] 0x123)
     = Ret (hdr_view [1, 2, 0xe3, 4, 5]\<lparr>h_id := 0x123\<rparr>)"
  using header_setters_refine [of "[1, 2, 0xe3, 4, 5]" 0 "0x123"] by simp

text \<open>
  The size and the Conn ID written into a header are the ones read back, whatever the four
  bytes held before: every 16-bit size and every 13-bit ID survives, and the control bits and the
  payload are untouched.
\<close>

theorem header_size_id_roundtrip:
  assumes "4 \<le> length fh" and "0 \<le> n" and "n < 65536"
    and "bnd (SetSizeValue fh n) (\<lambda>fh. SetConnID fh i) = Ret fh'"
  shows "SizeValue fh' = Ret n \<and> ConnIDOf fh' = Ret i \<and> FrameControl fh' = FrameControl fh
    \<and> drop 4 fh' = drop 4 fh"
proof -
  from assms(1) obtain h p where fh: "fh = hdr_bytes h @ p" and ok: "hdr_ok h"
    by (rule frame_cases) blast
  from assms(4) have i: "unat i < 8192" and
    fh': "fh' = hdr_bytes (h\<lparr>h_size := nat (n mod 65536), h_id := unat i\<rparr>) @ p"
    unfolding fh hdr_write [OF ok] using ok
    by (auto simp: hdr_write not_less unat_le_MuxerConnID split: if_splits)
  have "hdr_ok (h\<lparr>h_size := nat (n mod 65536), h_id := unat i\<rparr>)"
    using i ok by (simp add: hdr_ok_updates(6))
  then show ?thesis unfolding fh fh' using assms(2,3) ok by (simp add: hdr_read hdr_classify)
qed

theorem header_size_id_roundtrip_witness:
  "SizeValue [0xff, 0xfc, 0x5f, 0xfe] = Ret 0xfffc \<and> ConnIDOf [0xff, 0xfc, 0x5f, 0xfe] = Ret 0x1ffe"
proof -
  have "bnd (SetSizeValue [0, 0, 0x40, 0] 0xfffc) (\<lambda>fh. SetConnID fh 0x1ffe) = Ret [0xff, 0xfc, 0x5f, 0xfe]"
    by (simp add: SetSizeValue_def setLargeValue_def SetConnID_def setSmallValue_def
        MuxerConnID_eq FrameFlagMask_eq drop_bit_eq_div)
  from header_size_id_roundtrip [OF _ _ _ this] show ?thesis by simp
qed

text \<open>
  The frame classes are disjoint and cover every header: with four bytes or more, exactly one
  of data frame (\<^verbatim>\<open>HasPayload\<close>), acknowledgement (\<^verbatim>\<open>IsAck\<close>), final frame (\<^verbatim>\<open>IsFinal\<close>, of which
  \<^verbatim>\<open>IsFinalAck\<close> is the part with the head bit) or reserved combination (\<open>000\<close> and \<open>101\<close>) holds, and
  none of the tests panics.
\<close>

theorem header_classes_partition:
  assumes "4 \<le> length fh"
  shows "\<exists>pay ack fin finack flow body head.
     HasPayload fh = Ret pay \<and> IsAck fh = Ret ack \<and> IsFinal fh = Ret fin \<and> IsFinalAck fh = Ret finack
     \<and> HasFlow fh = Ret flow \<and> HasBody fh = Ret body \<and> HasHead fh = Ret head
     \<and> length (filter id [pay, ack, fin, \<not> body \<and> flow = head]) = 1
     \<and> (finack \<longleftrightarrow> fin \<and> head)"
proof -
  from assms obtain h p where fh: "fh = hdr_bytes h @ p" and ok: "hdr_ok h"
    by (rule frame_cases) blast
  show ?thesis unfolding fh hdr_read [OF ok] hdr_classify [OF ok] go.inject
    by (intro exI conjI) (rule refl | auto)+
qed

theorem header_classes_partition_witness:
  "IsFinal [0, 0, 0xe0, 1] = Ret True \<and> HasPayload [0, 0, 0xe0, 1] = Ret False"
proof -
  have "IsFinal [0, 0, 0xe0, 1] = Ret True"
    by (simp add: IsFinal_def flag_defs)
  with header_classes_partition [of "[0, 0, 0xe0, 1]"] show ?thesis by (auto split: if_splits)
qed

end
