(* ===== verification/Frame_Data.thy ===== *)
theory Frame_Data
  imports Frame_Header
begin

unbundle bit_operations_syntax

text \<open>
  \<^verbatim>\<open>src/framedata.go\<close>. A \<^verbatim>\<open>FrameData\<close> is a Go byte slice: the bytes it shows and, behind them in
  the same array, the bytes up to its capacity, which a reslice brings back into view and an
  \<^verbatim>\<open>append\<close> overwrites. The writers of the RAP data types are modelled on that slice; what each of
  them appends is given by the reference encodings of section "Encodings", and the two are proved
  to agree. Frames are read from a byte stream and written to any \<^verbatim>\<open>io.Writer\<close>.
\<close>

section \<open>Slices\<close>

record FrameData =
  fbytes :: "byte list"
  fspare :: "byte list"

definition fcap :: "FrameData \<Rightarrow> nat" where
  "fcap fd = length (fbytes fd) + length (fspare fd)"

text \<open>\<^verbatim>\<open>fd[:n]\<close>: the bound is the capacity, not the length.\<close>

definition reslice :: "FrameData \<Rightarrow> nat \<Rightarrow> FrameData go" where
  "reslice fd n =
     (if n \<le> fcap fd
      then Ret \<lparr>fbytes = take n (fbytes fd @ fspare fd), fspare = drop n (fbytes fd @ fspare fd)\<rparr>
      else Panics SliceBounds)"

text \<open>
  \<^verbatim>\<open>append(fd, bs...)\<close>: in place while the capacity lasts, otherwise into a new array whose tail is
  zeroed memory.
\<close>

definition append_bytes :: "rap_config \<Rightarrow> FrameData \<Rightarrow> byte list \<Rightarrow> FrameData" where
  "append_bytes E fd bs =
     (if length bs \<le> length (fspare fd)
      then \<lparr>fbytes = fbytes fd @ bs, fspare = drop (length bs) (fspare fd)\<rparr>
      else let n = length (fbytes fd) + length bs
           in \<lparr>fbytes = fbytes fd @ bs, fspare = replicate (append_cap E (fcap fd) n - n) 0\<rparr>)"

text \<open>A method of \<^verbatim>\<open>FrameHeader(fd)\<close> that writes through the shared array.\<close>

definition on_header :: "(FrameHeader \<Rightarrow> FrameHeader go) \<Rightarrow> FrameData \<Rightarrow> FrameData go" where
  "on_header f fd = map_go (\<lambda>bs. fd\<lparr>fbytes := bs\<rparr>) (f (fbytes fd))"

section \<open>Frames\<close>

definition NewFrameData :: FrameData where
  "NewFrameData = \<lparr>fbytes = [], fspare = replicate FrameMaxSize 0\<rparr>"

definition FrameData_Clear :: "FrameData \<Rightarrow> FrameData go" where
  "FrameData_Clear fd = reslice fd 0"

definition FrameData_ClearID :: "rap_config \<Rightarrow> FrameData \<Rightarrow> ConnID \<Rightarrow> FrameData go" where
  "FrameData_ClearID E fd connID =
     bnd (reslice fd FrameHeaderSize) (on_header (\<lambda>fh. ClearID E fh connID))"

definition WriteHeader :: "rap_config \<Rightarrow> FrameData \<Rightarrow> ConnID \<Rightarrow> FrameData go" where
  "WriteHeader E fd connID =
     bnd (reslice fd FrameHeaderSize) (on_header (\<lambda>fh. ClearID E fh connID))"

definition NewFrameDataID :: "rap_config \<Rightarrow> ConnID \<Rightarrow> FrameData go" where
  "NewFrameDataID E connID = WriteHeader E NewFrameData connID"

definition WriteMuxerControl :: "FrameData \<Rightarrow> MuxerControl \<Rightarrow> FrameData go" where
  "WriteMuxerControl fd mc =
     bnd (reslice fd FrameHeaderSize) (on_header (\<lambda>fh. SetMuxerControl fh mc))"

definition Payload :: "FrameData \<Rightarrow> byte list go" where
  "Payload fd = slice_from (fbytes fd) FrameHeaderSize"

definition FrameData_SetSizeValue :: "FrameData \<Rightarrow> FrameData go" where
  "FrameData_SetSizeValue fd =
     (let payloadSize = int (length (fbytes fd)) - int FrameHeaderSize
      in if payloadSize < 0 then Panics (PanicMsg ''frame too small'')
         else on_header (\<lambda>fh. SetSizeValue fh payloadSize) fd)"

definition Available :: "FrameData \<Rightarrow> nat" where
  "Available fd = fcap fd - length (fbytes fd)"

definition Buffered :: "FrameData \<Rightarrow> nat" where
  "Buffered fd = length (fbytes fd)"

definition FrameData_Write :: "rap_config \<Rightarrow> FrameData \<Rightarrow> byte list \<Rightarrow> FrameData \<times> nat \<times> goerr option" where
  "FrameData_Write E fd p = (append_bytes E fd p, length p, None)"

section \<open>Writers of the RAP data types\<close>

function WriteUint64 :: "rap_config \<Rightarrow> FrameData \<Rightarrow> u64 \<Rightarrow> FrameData" where
  "WriteUint64 E fd x =
     (if x \<ge> 0x80 then WriteUint64 E (append_bytes E fd [ucast x OR 0x80]) (drop_bit 7 x)
      else append_bytes E fd [ucast x])"
  by pat_completeness auto
termination
  by (relation "measure (\<lambda>(E, fd, x). unat x)") (auto simp: shift_7_smaller)

definition WriteInt64 :: "rap_config \<Rightarrow> FrameData \<Rightarrow> i64 \<Rightarrow> FrameData" where
  "WriteInt64 E fd x =
     (let ux = push_bit 1 x
      in WriteUint64 E fd (if sint x < 0 then NOT ux else ux))"

definition WriteLen :: "rap_config \<Rightarrow> FrameData \<Rightarrow> int \<Rightarrow> FrameData \<times> goerr option" where
  "WriteLen E fd x =
     (if x < 0 then (fd, Some ErrLengthNegative)
      else if x < 0x80 then (append_bytes E fd [word_of_int x], None)
      else if x \<le> 0x7fff
      then (append_bytes E fd [word_of_int (drop_bit 8 x) OR 0x80, word_of_int x], None)
      else (fd, Some ErrLengthOverflow))"

definition WriteString :: "rap_config \<Rightarrow> FrameData \<Rightarrow> string \<Rightarrow> FrameData \<times> goerr option" where
  "WriteString E fd s =
     (if length s = 0 then (append_bytes E fd [0, 1], None)
      else case WriteLen E fd (int (length s)) of
        (fd, None) \<Rightarrow> (append_bytes E fd (str_bytes s), None)
      | (fd, Some e) \<Rightarrow> (fd, Some e))"

definition WriteStringNull :: "rap_config \<Rightarrow> FrameData \<Rightarrow> FrameData" where
  "WriteStringNull E fd = append_bytes E fd [0, 0]"

definition WriteRoute :: "rap_config \<Rightarrow> FrameData \<Rightarrow> string \<Rightarrow> FrameData \<times> goerr option" where
  "WriteRoute E fd s = WriteString E (fst (WriteLen E fd 0)) s"

fun WriteRegisteredRoute_vals ::
  "rap_config \<Rightarrow> FrameData \<Rightarrow> string list \<Rightarrow> FrameData \<times> goerr option" where
  "WriteRegisteredRoute_vals E fd [] = (fd, None)"
| "WriteRegisteredRoute_vals E fd (s # vals) =
     (case WriteString E fd s of
        (fd, None) \<Rightarrow> WriteRegisteredRoute_vals E fd vals
      | (fd, Some e) \<Rightarrow> (fd, Some e))"

definition WriteRegisteredRoute ::
  "rap_config \<Rightarrow> FrameData \<Rightarrow> int \<Rightarrow> string list \<Rightarrow> FrameData \<times> goerr option" where
  "WriteRegisteredRoute E fd i vals =
     (if i < 1 then (fd, Some ErrInvalidRouteIndex)
      else case WriteLen E fd i of
        (fd, None) \<Rightarrow> WriteRegisteredRoute_vals E fd vals
      | (fd, Some e) \<Rightarrow> (fd, Some e))"

definition WriteByte :: "rap_config \<Rightarrow> FrameData \<Rightarrow> byte \<Rightarrow> FrameData" where
  "WriteByte E fd b = append_bytes E fd [b]"

definition WriteBytes :: "rap_config \<Rightarrow> FrameData \<Rightarrow> byte list \<Rightarrow> FrameData" where
  "WriteBytes E fd bs = append_bytes E fd bs"

definition WriteRecordType :: "rap_config \<Rightarrow> FrameData \<Rightarrow> RecordType \<Rightarrow> FrameData go" where
  "WriteRecordType E fd rt = bnd (on_header SetHead fd) (\<lambda>fd. Ret (append_bytes E fd [rt]))"

definition ByteCount :: "FrameData \<Rightarrow> u64" where
  "ByteCount fd = of_nat (length (fbytes fd))"

text \<open>
  The loops over a \<^verbatim>\<open>map[string][]string\<close> (query values, headers): the map is the list of its
  entries in the order the \<^verbatim>\<open>range\<close> statement visits them, any order being possible. The errors of
  the inner \<^verbatim>\<open>WriteString\<close> calls are discarded, as in the source.
\<close>

type_synonym kvv = "(string \<times> string list) list"

fun write_values :: "rap_config \<Rightarrow> FrameData \<Rightarrow> string list \<Rightarrow> FrameData" where
  "write_values E fd [] = fd"
| "write_values E fd (v # vv) = write_values E (fst (WriteString E fd v)) vv"

definition write_entry :: "rap_config \<Rightarrow> FrameData \<Rightarrow> string \<Rightarrow> string list \<Rightarrow> FrameData" where
  "write_entry E fd k vv = WriteStringNull E (write_values E (fst (WriteString E fd k)) vv)"

fun write_entries :: "rap_config \<Rightarrow> FrameData \<Rightarrow> kvv \<Rightarrow> FrameData" where
  "write_entries E fd [] = fd"
| "write_entries E fd ((k, vv) # m) = write_entries E (write_entry E fd k vv) m"

definition FrameData_WriteResponse ::
  "rap_config \<Rightarrow> FrameData \<Rightarrow> int \<Rightarrow> i64 \<Rightarrow> kvv \<Rightarrow> (FrameData \<times> goerr option) go" where
  "FrameData_WriteResponse E fd code contentLength hdr =
     bnd (WriteRecordType E fd RecordTypeHTTPResponse) (\<lambda>fd.
       let fd = fst (WriteLen E fd code);
           fd = WriteStringNull E (write_entries E fd hdr);
           fd = WriteInt64 E fd contentLength
       in Ret (fd, if length (fbytes fd) > FrameMaxSize then Some ErrShortBuffer else None))"

section \<open>Reading and writing whole frames\<close>

text \<open>
  A stream endpoint: the bytes it still delivers and the error a read gets after them.
  \<open>ReadFull\<close> is \<^verbatim>\<open>io.ReadFull\<close> with a buffer of \<open>n\<close> bytes.
\<close>

record reader =
  rd_data :: "byte list"
  rd_err :: goerr

definition ReadFull :: "reader \<Rightarrow> nat \<Rightarrow> byte list \<times> goerr option \<times> reader" where
  "ReadFull r n =
     (if n \<le> length (rd_data r) then (take n (rd_data r), None, r\<lparr>rd_data := drop n (rd_data r)\<rparr>)
      else (rd_data r,
            Some (if rd_data r \<noteq> [] \<and> rd_err r = ErrEOF then ErrUnexpectedEOF else rd_err r),
            r\<lparr>rd_data := []\<rparr>))"

text \<open>\<^verbatim>\<open>io.ReadFull(r, fd[len(fd):n])\<close> followed by the reslice that shows what was read.\<close>

definition read_into :: "FrameData \<Rightarrow> nat \<Rightarrow> reader \<Rightarrow> (FrameData \<times> nat \<times> goerr option \<times> reader) go" where
  "read_into fd n r =
     (if n \<le> fcap fd then
        (case ReadFull r (n - length (fbytes fd)) of (bs, err, r') \<Rightarrow>
           Ret (\<lparr>fbytes = fbytes fd @ bs, fspare = drop (length bs) (fspare fd)\<rparr>, length bs, err, r'))
      else Panics SliceBounds)"

definition FrameData_ReadFrom :: "FrameData \<Rightarrow> reader \<Rightarrow> (FrameData \<times> nat \<times> goerr option \<times> reader) go" where
  "FrameData_ReadFrom fd r =
     bnd (if length (fbytes fd) < FrameHeaderSize then read_into fd FrameHeaderSize r
          else Ret (fd, 0, None, r)) (\<lambda>(fd, n, err, r).
       if err \<noteq> None \<or> length (fbytes fd) < FrameHeaderSize then Ret (fd, n, err, r)
       else bnd (HasPayload (fbytes fd)) (\<lambda>pay.
         if \<not> pay then Ret (fd, n, None, r)
         else bnd (SizeValue (fbytes fd)) (\<lambda>sz.
           let endIndex = FrameHeaderSize + nat sz in
           if endIndex < length (fbytes fd) then Ret (fd, n, Some ErrFrameTooSmall, r)
           else if endIndex > FrameMaxSize then Ret (fd, n, Some ErrFrameTooBig, r)
           else bnd (read_into fd endIndex r) (\<lambda>(fd, num, err, r). Ret (fd, n + num, err, r)))))"

text \<open>
  An \<^verbatim>\<open>io.Writer\<close> with state \<open>'w\<close>: the state after the call, the count written and the error. The
  loop of \<^verbatim>\<open>WriteTo\<close> runs until everything is written or an error comes; against a writer that
  makes no progress and reports nothing it does not return (\<open>None\<close>).
\<close>

type_synonym 'w writer = "'w \<Rightarrow> byte list \<Rightarrow> 'w \<times> nat \<times> goerr option"

partial_function (option) write_all ::
  "'w writer \<Rightarrow> byte list \<Rightarrow> 'w \<Rightarrow> nat \<Rightarrow> ('w \<times> nat \<times> goerr option) option" where
  "write_all wr bs w n =
     (if n < length bs then
        (case wr w (drop n bs) of (w, m, err) \<Rightarrow>
           (case err of Some e \<Rightarrow> Some (w, n + m, Some e) | None \<Rightarrow> write_all wr bs w (n + m)))
      else Some (w, n, None))"

definition FrameData_WriteTo ::
  "'w writer \<Rightarrow> FrameData \<Rightarrow> 'w \<Rightarrow> ('w \<times> nat \<times> goerr option) go" where
  "FrameData_WriteTo wr fd w =
     (if length (fbytes fd) < FrameHeaderSize
      then Panics (PanicMsg ''FrameData.WriteTo(): frame has incomplete header'')
      else bnd (HasPayload (fbytes fd)) (\<lambda>pay.
        let payloadLength = length (fbytes fd) - FrameHeaderSize in
        if pay \<and> payloadLength > FrameMaxPayloadSize then Ret (w, 0, Some ErrFrameTooBig)
        else bnd (if pay then SetSizeValue (fbytes fd) (int payloadLength) else Ret (fbytes fd)) (\<lambda>bs.
          case write_all wr bs w 0 of Some r \<Rightarrow> Ret r | None \<Rightarrow> Blocks)))"

section \<open>Encodings\<close>

text \<open>
  The byte sequences of the RAP data types, independent of slices: \<open>uint64\<close>, \<open>int64\<close>, \<open>length\<close>,
  \<open>string\<close>, the null string and \<open>kvv\<close>.
\<close>

function enc_uint64 :: "u64 \<Rightarrow> byte list" where
  "enc_uint64 x = (if x < 0x80 then [ucast x] else (ucast x OR 0x80) # enc_uint64 (drop_bit 7 x))"
  by pat_completeness auto
termination
  by (relation "measure unat") (auto simp: shift_7_smaller not_less)

definition zigzag :: "i64 \<Rightarrow> u64" where
  "zigzag x = (if sint x < 0 then NOT (push_bit 1 x) else push_bit 1 x)"

definition enc_int64 :: "i64 \<Rightarrow> byte list" where
  "enc_int64 x = enc_uint64 (zigzag x)"

definition enc_len :: "nat \<Rightarrow> byte list" where
  "enc_len n = (if n < 128 then [of_nat n] else [of_nat (n div 256) OR 0x80, of_nat (n mod 256)])"

definition enc_string :: "string \<Rightarrow> byte list" where
  "enc_string s = (if s = [] then [0, 1] else enc_len (length s) @ str_bytes s)"

definition enc_null :: "byte list" where "enc_null = [0, 0]"

definition enc_strings :: "string list \<Rightarrow> byte list" where
  "enc_strings ss = concat (map enc_string ss) @ enc_null"

definition enc_entries :: "kvv \<Rightarrow> byte list" where
  "enc_entries m = concat (map (\<lambda>(k, vv). enc_string k @ enc_strings vv) m)"

definition enc_kvv :: "kvv \<Rightarrow> byte list" where
  "enc_kvv m = enc_entries m @ enc_null"

definition string_ok :: "string \<Rightarrow> bool" where
  "string_ok s \<longleftrightarrow> length s \<le> 0x7fff"

definition kvv_ok :: "kvv \<Rightarrow> bool" where
  "kvv_ok m \<longleftrightarrow> list_all (\<lambda>(k, vv). string_ok k \<and> list_all string_ok vv) m"

text \<open>
  What \<^verbatim>\<open>WriteTo\<close> puts on the wire, and the frames it is meant for: a header, a payload only when
  the header announces one, and no more than the largest frame.
\<close>

definition has_payload :: "header \<Rightarrow> bool" where
  "has_payload h \<longleftrightarrow> \<not> h_flow h \<and> (h_body h \<or> h_head h)"

definition frame_wire :: "byte list \<Rightarrow> byte list" where
  "frame_wire bs =
     (let h = hdr_view bs in
      if has_payload h then hdr_bytes (h\<lparr>h_size := length bs - 4\<rparr>) @ drop 4 bs else bs)"

definition frame_ok :: "byte list \<Rightarrow> bool" where
  "frame_ok bs \<longleftrightarrow> 4 \<le> length bs \<and> length bs \<le> FrameMaxSize
     \<and> (\<not> has_payload (hdr_view bs) \<longrightarrow> length bs = 4)"

section \<open>Slices: what appending and reslicing leave\<close>

lemma fbytes_append [simp]: "fbytes (append_bytes E fd bs) = fbytes fd @ bs"
  by (simp add: append_bytes_def Let_def)

lemma fcap_append: "length bs \<le> length (fspare fd) \<Longrightarrow> fcap (append_bytes E fd bs) = fcap fd"
  by (simp add: append_bytes_def fcap_def)

lemma fcap_append_mono: "fcap fd \<le> fcap (append_bytes E fd bs)"
  by (simp add: append_bytes_def fcap_def Let_def)

lemma Available_append:
  "length bs \<le> Available fd \<Longrightarrow> Available (append_bytes E fd bs) = Available fd - length bs"
  by (simp add: Available_def append_bytes_def fcap_def)

lemma reslice_0 [simp]: "reslice fd 0 = Ret \<lparr>fbytes = [], fspare = fbytes fd @ fspare fd\<rparr>"
  by (simp add: reslice_def)

lemma on_header_bytes:
  "f (hdr_bytes h @ p) = Ret (hdr_bytes h' @ p) \<Longrightarrow>
   on_header f \<lparr>fbytes = hdr_bytes h @ p, fspare = s\<rparr> = Ret \<lparr>fbytes = hdr_bytes h' @ p, fspare = s\<rparr>"
  by (simp add: on_header_def)

lemma on_header_upd:
  "fbytes fd = hdr_bytes h @ p \<Longrightarrow> f (hdr_bytes h @ p) = Ret (hdr_bytes h' @ p) \<Longrightarrow>
   on_header f fd = Ret (fd\<lparr>fbytes := hdr_bytes h' @ p\<rparr>)"
  by (simp add: on_header_def)

lemma reslice_header:
  assumes "4 \<le> fcap fd"
  obtains h s where "reslice fd FrameHeaderSize = Ret \<lparr>fbytes = hdr_bytes h, fspare = s\<rparr>"
    and "hdr_ok h" and "length s = fcap fd - 4"
proof -
  let ?all = "fbytes fd @ fspare fd"
  have len: "4 \<le> length (take 4 ?all)" "length ?all = fcap fd" using assms by (simp_all add: fcap_def)
  from len(1) obtain h p where "take 4 ?all = hdr_bytes h @ p" "hdr_ok h" by (rule frame_cases) blast
  moreover have "length (take 4 ?all) = 4" using len(2) assms by (simp only: length_take)
  ultimately have "p = []" "take 4 ?all = hdr_bytes h @ p" "hdr_ok h" by simp_all
  then show thesis
    using assms len(2) that [of h "drop 4 ?all"] by (simp add: reslice_def FrameHeaderSize_def)
qed

lemma ClearID_frame:
  assumes "4 \<le> fcap fd" and "i \<le> MaxConnID E" and "MaxConnID E \<le> MuxerConnID"
  obtains s where "FrameData_ClearID E fd i = Ret \<lparr>fbytes = hdr_bytes (id_hdr i), fspare = s\<rparr>"
    and "length s = fcap fd - 4"
proof -
  from assms(1) obtain h s where "reslice fd FrameHeaderSize = Ret \<lparr>fbytes = hdr_bytes h, fspare = s\<rparr>"
    and "length s = fcap fd - 4" by (rule reslice_header)
  with that ClearID_bytes [OF assms(2,3), of h "[]"] show thesis
    by (simp add: FrameData_ClearID_def on_header_def)
qed

lemma fcap_New [simp]: "fcap NewFrameData = FrameMaxSize"
  by (simp add: NewFrameData_def fcap_def)

lemma NewFrameDataID_frame:
  assumes "i \<le> MaxConnID E" and "MaxConnID E \<le> MuxerConnID"
  obtains s where "NewFrameDataID E i = Ret \<lparr>fbytes = hdr_bytes (id_hdr i), fspare = s\<rparr>"
    and "length s = FrameMaxSize - 4"
  using ClearID_frame [OF _ assms, of NewFrameData] that
  by (auto simp: NewFrameDataID_def WriteHeader_def FrameData_ClearID_def frame_sizes)

section \<open>The writers append the encodings\<close>

declare WriteUint64.simps [simp del] enc_uint64.simps [simp del]

lemma fbytes_WriteUint64 [simp]: "fbytes (WriteUint64 E fd x) = fbytes fd @ enc_uint64 x"
proof (induction E fd x rule: WriteUint64.induct)
  case (1 E fd x)
  then show ?case
    by (cases "0x80 \<le> x") (simp_all add: WriteUint64.simps [of E fd x] enc_uint64.simps [of x] not_le [symmetric])
qed

lemma fbytes_WriteInt64 [simp]: "fbytes (WriteInt64 E fd x) = fbytes fd @ enc_int64 x"
  by (simp add: WriteInt64_def enc_int64_def zigzag_def Let_def)

lemma WriteLen_cases:
  "0 \<le> x \<Longrightarrow> x \<le> 0x7fff \<Longrightarrow>
     snd (WriteLen E fd x) = None \<and> fbytes (fst (WriteLen E fd x)) = fbytes fd @ enc_len (nat x)"
  "x < 0 \<Longrightarrow> WriteLen E fd x = (fd, Some ErrLengthNegative)"
  "x > 0x7fff \<Longrightarrow> WriteLen E fd x = (fd, Some ErrLengthOverflow)"
proof -
  assume x: "0 \<le> x" "x \<le> 0x7fff"
  define n where "n = nat x"
  with x have n: "x = int n" "n \<le> 0x7fff" by simp_all
  have "drop_bit 8 (int n) = int (n div 256)" by (simp add: drop_bit_eq_div zdiv_int)
  then show "snd (WriteLen E fd x) = None \<and> fbytes (fst (WriteLen E fd x)) = fbytes fd @ enc_len (nat x)"
    using n by (simp add: WriteLen_def enc_len_def of_nat_mod_256)
qed (simp_all add: WriteLen_def)

lemma WriteString_ok:
  assumes "string_ok s"
  shows "snd (WriteString E fd s) = None \<and> fbytes (fst (WriteString E fd s)) = fbytes fd @ enc_string s"
proof (cases "s = []")
  case True
  then show ?thesis by (simp add: WriteString_def enc_string_def)
next
  case False
  with assms WriteLen_cases(1) [of "int (length s)" E fd] show ?thesis
    by (auto simp: WriteString_def enc_string_def string_ok_def split: prod.splits option.splits)
qed

lemma WriteString_too_long: "\<not> string_ok s \<Longrightarrow> WriteString E fd s = (fd, Some ErrLengthOverflow)"
  by (auto simp: WriteString_def string_ok_def WriteLen_cases(3))

lemma fbytes_WriteStringNull [simp]: "fbytes (WriteStringNull E fd) = fbytes fd @ enc_null"
  by (simp add: WriteStringNull_def enc_null_def)

lemma fbytes_write_values:
  "list_all string_ok vv \<Longrightarrow> fbytes (write_values E fd vv) = fbytes fd @ concat (map enc_string vv)"
  by (induction vv arbitrary: fd) (simp_all add: WriteString_ok)

lemma fbytes_write_entry:
  "string_ok k \<Longrightarrow> list_all string_ok vv \<Longrightarrow>
   fbytes (write_entry E fd k vv) = fbytes fd @ enc_string k @ enc_strings vv"
  by (simp add: write_entry_def fbytes_write_values WriteString_ok enc_strings_def)

lemma fbytes_write_entries:
  "kvv_ok m \<Longrightarrow> fbytes (write_entries E fd m) = fbytes fd @ enc_entries m"
  by (induction m arbitrary: fd) (auto simp: kvv_ok_def enc_entries_def fbytes_write_entry)

lemma WriteRecordType_frame:
  "fbytes fd = hdr_bytes h @ p \<Longrightarrow> hdr_ok h \<Longrightarrow>
   \<exists>fd'. WriteRecordType E fd rt = Ret fd' \<and> fbytes fd' = hdr_bytes (h\<lparr>h_head := True\<rparr>) @ p @ [rt]"
  by (simp add: WriteRecordType_def on_header_upd [of fd h p SetHead "h\<lparr>h_head := True\<rparr>"] hdr_write)

text \<open>
  Whatever the arguments, a writer only adds behind what the frame holds; the capacity changes only
  when what it then holds does not fit.
\<close>

definition grows :: "FrameData \<Rightarrow> FrameData \<Rightarrow> bool" where
  "grows fd fd' \<longleftrightarrow> (\<exists>q. fbytes fd' = fbytes fd @ q) \<and> fcap fd \<le> fcap fd'
     \<and> (length (fbytes fd') \<le> fcap fd \<longrightarrow> fcap fd' = fcap fd)"

lemma grows_refl [simp]: "grows fd fd"
  by (simp add: grows_def)

lemma grows_trans: "grows a b \<Longrightarrow> grows b c \<Longrightarrow> grows a c"
  by (force simp: grows_def)

lemma grows_append [simp]: "grows fd (append_bytes E fd bs)"
  by (auto simp: grows_def fcap_append_mono) (auto simp: append_bytes_def fcap_def Let_def)

lemma grows_WriteUint64: "grows fd (WriteUint64 E fd x)"
proof (induction E fd x rule: WriteUint64.induct)
  case (1 E fd x)
  then show ?case
    by (cases "0x80 \<le> x") (auto simp: WriteUint64.simps [of E fd x] intro: grows_trans [OF grows_append])
qed

lemma grows_WriteLen: "grows fd (fst (WriteLen E fd x))"
  by (simp add: WriteLen_def)

lemma grows_WriteString: "grows fd (fst (WriteString E fd s))"
  using grows_WriteLen [of fd E "int (length s)"]
  by (auto simp: WriteString_def split: prod.splits option.splits intro: grows_trans [OF _ grows_append])

lemma grows_write_values: "grows fd (write_values E fd vv)"
  by (induction vv arbitrary: fd) (auto intro: grows_trans [OF grows_WriteString])

lemma grows_write_entries: "grows fd (write_entries E fd m)"
proof (induction E fd m rule: write_entries.induct)
  case (2 E fd k vv m)
  have "grows fd (write_entry E fd k vv)"
    unfolding write_entry_def WriteStringNull_def
    by (rule grows_trans [OF grows_WriteString [of fd E k] grows_trans [OF grows_write_values grows_append]])
  with 2 show ?case by (auto intro: grows_trans)
qed simp

lemmas grows_writers = grows_WriteUint64 grows_WriteLen grows_WriteString grows_write_values grows_write_entries

text \<open>A response record as it lies in the payload, after its record type byte.\<close>

definition enc_response :: "nat \<Rightarrow> kvv \<Rightarrow> i64 \<Rightarrow> byte list" where
  "enc_response code hdr cl = enc_len code @ enc_kvv hdr @ enc_int64 cl"

lemma WriteResponse_frame:
  assumes "fbytes fd = hdr_bytes h @ p" and "hdr_ok h" and "kvv_ok hdr" and "code \<le> 0x7fff"
  shows "\<exists>fd' err. FrameData_WriteResponse E fd (int code) cl hdr = Ret (fd', err)
    \<and> fbytes fd' = hdr_bytes (h\<lparr>h_head := True\<rparr>) @ p @ RecordTypeHTTPResponse # enc_response code hdr cl
    \<and> (err = None \<longleftrightarrow> length (fbytes fd') \<le> FrameMaxSize)"
proof -
  from WriteRecordType_frame [OF assms(1,2)] obtain fd1 where
    "WriteRecordType E fd RecordTypeHTTPResponse = Ret fd1"
    "fbytes fd1 = hdr_bytes (h\<lparr>h_head := True\<rparr>) @ p @ [RecordTypeHTTPResponse]"
    by blast
  then show ?thesis
    using assms(3,4) WriteLen_cases(1) [of "int code" E fd1]
    by (simp add: FrameData_WriteResponse_def Let_def fbytes_write_entries enc_response_def enc_kvv_def)
qed

section \<open>Whole frames on a stream\<close>

lemma hdr_payload: "hdr_ok h \<Longrightarrow> HasPayload (hdr_bytes h @ p) = Ret (has_payload h)"
  by (simp add: hdr_classify has_payload_def)

lemma frame_wire_bytes:
  "hdr_ok h \<Longrightarrow> frame_wire (hdr_bytes h @ p) =
     hdr_bytes (if has_payload h then h\<lparr>h_size := length p\<rparr> else h) @ p"
  by (simp add: frame_wire_def Let_def)

lemma length_frame_wire: "4 \<le> length bs \<Longrightarrow> length (frame_wire bs) = length bs"
  by (simp add: frame_wire_def Let_def)

lemma WriteTo_wire:
  assumes "4 \<le> length (fbytes fd)" and "length (fbytes fd) \<le> FrameMaxSize"
  shows "FrameData_WriteTo wr fd w =
      (case write_all wr (frame_wire (fbytes fd)) w 0 of Some r \<Rightarrow> Ret r | None \<Rightarrow> Blocks)"
proof -
  from assms(1) obtain h p where fd: "fbytes fd = hdr_bytes h @ p" and ok: "hdr_ok h"
    by (rule frame_cases) blast
  have "length p < 65536" using assms(2) by (simp add: fd frame_sizes)
  then show ?thesis
    using assms ok
    by (cases "has_payload h")
      (simp_all add: FrameData_WriteTo_def fd hdr_payload hdr_write frame_wire_bytes frame_sizes)
qed

text \<open>
  The contract of \<^verbatim>\<open>io.Writer\<close>: a call takes a prefix of what it is given, and taking less than all
  of it comes with an error. \<open>out\<close> reads the bytes the writer has accepted off its state.
\<close>

locale io_writer =
  fixes wr :: "'w writer" and out :: "'w \<Rightarrow> byte list"
  assumes wr_count: "wr w bs = (w', m, err) \<Longrightarrow> m \<le> length bs"
    and wr_short: "wr w bs = (w', m, err) \<Longrightarrow> m < length bs \<Longrightarrow> err \<noteq> None"
    and wr_out: "wr w bs = (w', m, err) \<Longrightarrow> out w' = out w @ take m bs"
begin

lemma write_all_returns:
  "\<exists>w' m err. write_all wr bs w 0 = Some (w', m, err) \<and> m \<le> length bs
     \<and> out w' = out w @ take m bs \<and> (err = None \<longrightarrow> m = length bs)"
proof (cases "bs = []")
  case True
  then show ?thesis by (simp add: write_all.simps)
next
  case False
  obtain w' m err where step: "wr w bs = (w', m, err)" by (cases "wr w bs") auto
  note laws = wr_count [OF step] wr_short [OF step] wr_out [OF step]
  show ?thesis
  proof (cases err)
    case None
    with laws have "m = length bs" by force
    with None laws step False show ?thesis by (simp add: write_all.simps)
  next
    case (Some e)
    with laws step False show ?thesis by (simp add: write_all.simps)
  qed
qed

lemma WriteTo_returns:
  assumes "4 \<le> length (fbytes fd)" and "length (fbytes fd) \<le> FrameMaxSize"
  shows "\<exists>w' n err. FrameData_WriteTo wr fd w = Ret (w', n, err)
    \<and> n \<le> length (fbytes fd) \<and> out w' = out w @ take n (frame_wire (fbytes fd))
    \<and> (err = None \<longrightarrow> n = length (fbytes fd))"
  using write_all_returns [of "frame_wire (fbytes fd)" w] assms
  by (auto simp: WriteTo_wire length_frame_wire)

end

interpretation frame_sink: io_writer "FrameData_Write E" fbytes
  by unfold_locales (auto simp: FrameData_Write_def)

lemmas hdr_read0 = hdr_read [where p = "[]", simplified]
lemmas hdr_classify0 = hdr_classify [where p = "[]", simplified]
lemmas hdr_write0 = hdr_write [where p = "[]", simplified]
lemmas hdr_payload0 = hdr_payload [where p = "[]", simplified]

lemma read_into_full:
  assumes "n \<le> fcap fd" and "length (fbytes fd) + length bs = n"
  shows "read_into fd n \<lparr>rd_data = bs @ rest, rd_err = e\<rparr> =
     Ret (\<lparr>fbytes = fbytes fd @ bs, fspare = drop (length bs) (fspare fd)\<rparr>, length bs, None,
          \<lparr>rd_data = rest, rd_err = e\<rparr>)"
proof -
  have "n - length (fbytes fd) = length bs" using assms(2) by simp
  with assms(1) show ?thesis by (simp add: read_into_def ReadFull_def)
qed

lemma ReadFrom_wire:
  assumes "frame_ok bs" and "fbytes fd = []" and "FrameMaxSize \<le> fcap fd"
  shows "FrameData_ReadFrom fd \<lparr>rd_data = frame_wire bs @ rest, rd_err = e\<rparr> =
     Ret (\<lparr>fbytes = frame_wire bs, fspare = drop (length bs) (fspare fd)\<rparr>, length bs, None,
          \<lparr>rd_data = rest, rd_err = e\<rparr>)"
proof -
  from assms(1) have len: "4 \<le> length bs" "length bs \<le> FrameMaxSize" by (simp_all add: frame_ok_def)
  from len(1) obtain h p where bs: "bs = hdr_bytes h @ p" and ok: "hdr_ok h" by (rule frame_cases) blast
  define h' where "h' = (if has_payload h then h\<lparr>h_size := length p\<rparr> else h)"
  have p: "length p < 65536" "length p + 4 \<le> FrameMaxSize" using len(2) by (simp_all add: bs frame_sizes)
  then have ok': "hdr_ok h'" using ok by (simp add: h'_def)
  have pay: "has_payload h' \<longleftrightarrow> has_payload h" by (simp add: h'_def has_payload_def)
  have nopay: "\<not> has_payload h \<Longrightarrow> p = []" using assms(1) ok by (simp add: frame_ok_def bs)
  have sz: "has_payload h \<Longrightarrow> h_size h' = length p" by (simp add: h'_def)
  let ?fd1 = "\<lparr>fbytes = hdr_bytes h', fspare = drop 4 (fspare fd)\<rparr>"
  have first: "read_into fd 4 \<lparr>rd_data = hdr_bytes h' @ p @ rest, rd_err = e\<rparr> =
      Ret (?fd1, 4, None, \<lparr>rd_data = p @ rest, rd_err = e\<rparr>)"
    using read_into_full [of 4 fd "hdr_bytes h'" "p @ rest" e] assms(2,3) by (simp add: frame_sizes)
  have "length p + 4 \<le> fcap ?fd1" using p(2) assms(2,3) by (simp add: fcap_def frame_sizes)
  then have second: "read_into ?fd1 (length p + 4) \<lparr>rd_data = p @ rest, rd_err = e\<rparr> =
      Ret (\<lparr>fbytes = hdr_bytes h' @ p, fspare = drop (length p) (drop 4 (fspare fd))\<rparr>, length p, None,
           \<lparr>rd_data = rest, rd_err = e\<rparr>)"
    using read_into_full [of "length p + 4" ?fd1 p rest e] by simp
  have "frame_wire bs = hdr_bytes h' @ p" by (simp add: bs frame_wire_bytes [OF ok] h'_def)
  then show ?thesis
    using assms(2) p(2) nopay sz first second
    by (cases "has_payload h")
      (simp_all add: FrameData_ReadFrom_def FrameHeaderSize_def pay hdr_payload0 [OF ok']
        hdr_read0 [OF ok'] bs add.commute)
qed

lemma ReadFull_prefix:
  "ReadFull r n = (bs, err, r') \<Longrightarrow>
     rd_data r = bs @ rd_data r' \<and> length bs \<le> n \<and> (err = None \<longleftrightarrow> length bs = n) \<and> rd_err r' = rd_err r"
  by (auto simp: ReadFull_def split: if_splits)

lemma read_into_returns:
  assumes "n \<le> fcap fd" and "length (fbytes fd) \<le> n"
  obtains bs err r' s where
    "read_into fd n r = Ret (\<lparr>fbytes = fbytes fd @ bs, fspare = s\<rparr>, length bs, err, r')"
    "rd_data r = bs @ rd_data r'" "length (fbytes fd @ bs) \<le> n"
    "err = None \<longleftrightarrow> length (fbytes fd @ bs) = n" "length (fbytes fd @ bs) + length s = fcap fd"
proof -
  obtain bs err r' where full: "ReadFull r (n - length (fbytes fd)) = (bs, err, r')"
    by (cases "ReadFull r (n - length (fbytes fd))") auto
  from ReadFull_prefix [OF full] assms show thesis
    by (intro that [where bs = bs and err = err and r' = r' and s = "drop (length bs) (fspare fd)"])
      (auto simp: read_into_def fcap_def full)
qed

section \<open>Properties of frames\<close>

text \<open>
  C36. A frame written to a conforming \<^verbatim>\<open>io.Writer\<close> is read back from the stream it made: the bytes
  \<^verbatim>\<open>WriteTo\<close> puts out form exactly one frame, \<^verbatim>\<open>ReadFrom\<close> into any empty frame of full capacity
  consumes those bytes and nothing of what follows, and the frame it yields has the payload and
  the header of the one sent, with the size field set to the payload length.
\<close>

theorem frame_stream_roundtrip:
  assumes "io_writer wr out" and "frame_ok (fbytes fd)"
    and "FrameData_WriteTo wr fd w = Ret (w', n, None)"
    and "fbytes fd0 = []" and "FrameMaxSize \<le> fcap fd0"
  shows "\<exists>fd1. out w' = out w @ fbytes fd1 \<and> n = length (fbytes fd)
    \<and> FrameData_ReadFrom fd0 \<lparr>rd_data = fbytes fd1 @ rest, rd_err = e\<rparr>
        = Ret (fd1, n, None, \<lparr>rd_data = rest, rd_err = e\<rparr>)
    \<and> drop 4 (fbytes fd1) = drop 4 (fbytes fd)
    \<and> hdr_view (fbytes fd1) = (if has_payload (hdr_view (fbytes fd))
         then hdr_view (fbytes fd)\<lparr>h_size := length (fbytes fd) - 4\<rparr> else hdr_view (fbytes fd))"
proof -
  let ?bs = "fbytes fd"
  from assms(2) have len: "4 \<le> length ?bs" "length ?bs \<le> FrameMaxSize" by (simp_all add: frame_ok_def)
  from io_writer.WriteTo_returns [OF assms(1) len, of w] assms(3)
  have n: "n = length ?bs" and out: "out w' = out w @ frame_wire ?bs"
    by (auto simp: length_frame_wire len)
  have "hdr_ok (hdr_view ?bs\<lparr>h_size := length ?bs - 4\<rparr>)" using len(2) by (simp add: frame_sizes)
  then have "hdr_view (frame_wire ?bs) = (if has_payload (hdr_view ?bs)
      then hdr_view ?bs\<lparr>h_size := length ?bs - 4\<rparr> else hdr_view ?bs)"
    and "drop 4 (frame_wire ?bs) = drop 4 ?bs"
    by (simp_all add: frame_wire_def Let_def)
  with n out show ?thesis
    by (intro exI [of _ "\<lparr>fbytes = frame_wire ?bs, fspare = drop (length ?bs) (fspare fd0)\<rparr>"])
      (simp add: ReadFrom_wire [OF assms(2,4,5)])
qed

theorem frame_stream_roundtrip_witness:
  "\<exists>fd1. FrameData_ReadFrom NewFrameData \<lparr>rd_data = fbytes fd1 @ [9], rd_err = ErrEOF\<rparr>
     = Ret (fd1, 6, None, \<lparr>rd_data = [9], rd_err = ErrEOF\<rparr>) \<and> drop 4 (fbytes fd1) = [7, 8]"
proof -
  let ?E = "\<lparr>MaxConnID = 8190, SendWindowSize = 8, append_cap = \<lambda>_ n. n\<rparr>"
  let ?fd = "\<lparr>fbytes = [0, 0, 0x40, 1, 7, 8], fspare = []\<rparr>"
  let ?w = "\<lparr>fbytes = [], fspare = []\<rparr>"
  have ok: "frame_ok (fbytes ?fd)" by (simp add: frame_ok_def has_payload_def frame_sizes bit_simps)
  then have "4 \<le> length (fbytes ?fd)" "length (fbytes ?fd) \<le> FrameMaxSize" by (simp_all add: frame_sizes)
  from frame_sink.WriteTo_returns [OF this, of ?E ?w] obtain w' n err where
    wt: "FrameData_WriteTo (FrameData_Write ?E) ?fd ?w = Ret (w', n, err)" by blast
  have err: "err = None"
    using wt by (simp add: FrameData_WriteTo_def FrameData_Write_def write_all.simps HasPayload_def HasFlow_def
        HasBodyOrHead_def flag_defs frame_sizes SetSizeValue_def setLargeValue_def)
  have io: "io_writer (FrameData_Write ?E) fbytes" by unfold_locales (auto simp: FrameData_Write_def)
  have fresh: "fbytes NewFrameData = []" by (simp add: NewFrameData_def)
  from frame_stream_roundtrip [OF io ok wt [unfolded err] fresh, of "[9]" ErrEOF] obtain fd1 where
    "n = length (fbytes ?fd)" "drop 4 (fbytes fd1) = drop 4 (fbytes ?fd)"
    "FrameData_ReadFrom NewFrameData \<lparr>rd_data = fbytes fd1 @ [9], rd_err = ErrEOF\<rparr>
       = Ret (fd1, n, None, \<lparr>rd_data = [9], rd_err = ErrEOF\<rparr>)"
    by (metis fcap_New order_refl)
  moreover from this(1) have "n = 6" by simp
  ultimately show ?thesis by auto
qed

text \<open>
  C37. \<^verbatim>\<open>ReadFrom\<close> is safe on every stream: into an empty frame of full capacity it never panics,
  whatever bytes arrive; it keeps exactly the bytes it took off the stream, at most \<^verbatim>\<open>FrameMaxSize\<close>
  of them; and when it reports no error the frame is complete, its length being the header plus
  the payload size the header announces.
\<close>

theorem ReadFrom_sound:
  assumes "fbytes fd0 = []" and "FrameMaxSize \<le> fcap fd0"
  shows "\<exists>fd n err r'. FrameData_ReadFrom fd0 r = Ret (fd, n, err, r')
    \<and> rd_data r = fbytes fd @ rd_data r' \<and> n = length (fbytes fd) \<and> n \<le> FrameMaxSize
    \<and> fcap fd = fcap fd0
    \<and> (err = None \<longrightarrow> 4 \<le> n \<and> PayloadSize (fbytes fd) = Ret (int n - 4))"
proof -
  have "(4 :: nat) \<le> fcap fd0" using assms(2) by (simp add: frame_sizes)
  then obtain bs err r1 s where first: "read_into fd0 4 r = Ret (\<lparr>fbytes = bs, fspare = s\<rparr>, length bs, err, r1)"
    and bs: "rd_data r = bs @ rd_data r1" "length bs \<le> 4" "err = None \<longleftrightarrow> length bs = 4"
      "length bs + length s = fcap fd0"
    using assms(1) by (rule_tac read_into_returns [of 4 fd0 r]) auto
  let ?fd1 = "\<lparr>fbytes = bs, fspare = s\<rparr>"
  show ?thesis
  proof (cases err)
    case (Some e)
    then show ?thesis
      using first bs assms by (simp add: FrameData_ReadFrom_def frame_sizes fcap_def)
  next
    case None
    with bs have len: "length bs = 4" by simp
    then obtain h where h: "bs = hdr_bytes h" "hdr_ok h"
      using frame_cases [of bs] by (metis append_Nil2 drop_all order_refl)
    show ?thesis
    proof (cases "has_payload h \<and> h_size h + 4 \<le> FrameMaxSize")
      case False
      then show ?thesis
        using first None bs assms h
        by (auto simp: FrameData_ReadFrom_def hdr_payload0 hdr_read0 PayloadSize_def frame_sizes fcap_def)
    next
      case True
      then have "h_size h + 4 \<le> fcap ?fd1" using assms(2) bs(4) by (simp add: fcap_def)
      then obtain p err' r2 s' where second: "read_into ?fd1 (h_size h + 4) r1 =
          Ret (\<lparr>fbytes = bs @ p, fspare = s'\<rparr>, length p, err', r2)"
        and "rd_data r1 = p @ rd_data r2" "length (bs @ p) \<le> h_size h + 4"
        and "err' = None \<longleftrightarrow> length (bs @ p) = h_size h + 4" "length (bs @ p) + length s' = fcap ?fd1"
        using len by (rule_tac read_into_returns [of "h_size h + 4" ?fd1 r1]) auto
      then show ?thesis
        using first None bs assms h True
        by (simp add: FrameData_ReadFrom_def hdr_payload0 hdr_read0 hdr_payload hdr_read PayloadSize_def
            FrameHeaderSize_def fcap_def add.commute)
    qed
  qed
qed

theorem ReadFrom_sound_witness:
  "\<exists>fd n err r'. FrameData_ReadFrom NewFrameData \<lparr>rd_data = [0xff, 0xff, 0x20], rd_err = ErrEOF\<rparr>
     = Ret (fd, n, err, r') \<and> n = length (fbytes fd)"
  using ReadFrom_sound [of NewFrameData "\<lparr>rd_data = [0xff, 0xff, 0x20], rd_err = ErrEOF\<rparr>"]
  by (auto simp: NewFrameData_def fcap_def)

text \<open>
  \<^verbatim>\<open>WriteString\<close> encodes every string of at most 32767 bytes and appends nothing else; a longer
  one is refused with \<^verbatim>\<open>ErrLengthOverflow\<close> and leaves the frame as it was.
\<close>

theorem WriteString_behaviour:
  "snd (WriteString E fd s) = (if length s \<le> 32767 then None else Some ErrLengthOverflow)
   \<and> fbytes (fst (WriteString E fd s)) = fbytes fd @ (if length s \<le> 32767 then enc_string s else [])
   \<and> (length s > 32767 \<longleftrightarrow> fst (WriteString E fd s) = fd)"
proof (cases "string_ok s")
  case True
  moreover have "fst (WriteString E fd s) \<noteq> fd"
  proof
    assume "fst (WriteString E fd s) = fd"
    with WriteString_ok [OF True, of E fd] have "enc_string s = []" by (metis append_self_conv)
    then show False by (simp add: enc_string_def enc_len_def split: if_splits)
  qed
  ultimately show ?thesis using WriteString_ok [of s E fd] by (simp add: string_ok_def)
next
  case False
  then show ?thesis by (simp add: WriteString_too_long string_ok_def)
qed

lemma write_values_filter: "write_values E fd vv = write_values E fd (filter string_ok vv)"
  by (induction vv arbitrary: fd) (simp_all add: WriteString_too_long)

lemma write_entries_filter:
  "write_entries E fd m = write_entries E fd (map (\<lambda>(k, vv). (k, filter string_ok vv)) m)"
proof (induction m arbitrary: fd)
  case (Cons e m)
  obtain k vv where "e = (k, vv)" by (cases e)
  then show ?case using Cons write_values_filter [of E _ vv] by (simp add: write_entry_def)
qed simp

text \<open>
  \<^verbatim>\<open>FrameData.WriteResponse\<close> discards the errors of the \<^verbatim>\<open>WriteString\<close> calls it makes: a header
  value longer than 32767 bytes is left out of the record, and the call ends exactly (record and
  error) as if the header had never held that value.
\<close>

theorem WriteResponse_drops_long_values:
  "FrameData_WriteResponse E fd code cl hdr =
     FrameData_WriteResponse E fd code cl (map (\<lambda>(k, vv). (k, filter string_ok vv)) hdr)"
proof -
  have "write_entries E f hdr = write_entries E f (map (\<lambda>(k, vv). (k, filter string_ok vv)) hdr)" for f
    by (rule write_entries_filter)
  then show ?thesis by (simp only: FrameData_WriteResponse_def Let_def)
qed

end
