(* ===== verification/Frame_Pool.thy ===== *)
theory Frame_Pool
  imports Frame_Data
begin

text \<open>
  \<^verbatim>\<open>src/framepool.go\<close>: the buffered channel of unused frames that every other part allocates from
  and releases to. A frame comes out of it emptied, or with a fresh header for a Conn; what the
  frame was used for before cannot be seen in it.
\<close>

section \<open>The pool\<close>

text \<open>The channel \<^verbatim>\<open>frameDataPool\<close>: the frames in it, oldest first, and its capacity.\<close>

record frame_pool =
  pool_frames :: "FrameData list"
  pool_cap :: nat

definition pool_init :: "rap_config \<Rightarrow> frame_pool" where
  "pool_init E = \<lparr>pool_frames = [], pool_cap = unat (MaxConnID E)\<rparr>"

definition FrameDataAlloc :: "frame_pool \<Rightarrow> (FrameData \<times> frame_pool) go" where
  "FrameDataAlloc p =
     (case pool_frames p of
        fd # fds \<Rightarrow> bnd (FrameData_Clear fd) (\<lambda>fd. Ret (fd, p\<lparr>pool_frames := fds\<rparr>))
      | [] \<Rightarrow> Ret (NewFrameData, p))"

definition FrameDataAllocID :: "rap_config \<Rightarrow> ConnID \<Rightarrow> frame_pool \<Rightarrow> (FrameData \<times> frame_pool) go" where
  "FrameDataAllocID E i p =
     (case pool_frames p of
        fd # fds \<Rightarrow> bnd (FrameData_ClearID E fd i) (\<lambda>fd. Ret (fd, p\<lparr>pool_frames := fds\<rparr>))
      | [] \<Rightarrow> bnd (NewFrameDataID E i) (\<lambda>fd. Ret (fd, p)))"

text \<open>\<^verbatim>\<open>FrameDataFree\<close>: a nil frame (\<^const>\<open>None\<close>) is ignored, and so is any frame when the pool is full.\<close>

definition FrameDataFree :: "FrameData option \<Rightarrow> frame_pool \<Rightarrow> frame_pool" where
  "FrameDataFree fdo p =
     (case fdo of
        None \<Rightarrow> p
      | Some fd \<Rightarrow> if length (pool_frames p) < pool_cap p
                   then p\<lparr>pool_frames := pool_frames p @ [fd]\<rparr> else p)"

section \<open>Invariant\<close>

text \<open>Every pooled frame has the capacity of the largest frame, and the channel holds no more than it can.\<close>

definition frame_room :: "FrameData \<Rightarrow> bool" where
  "frame_room fd \<longleftrightarrow> fcap fd = FrameMaxSize"

definition pool_ok :: "frame_pool \<Rightarrow> bool" where
  "pool_ok p \<longleftrightarrow> list_all frame_room (pool_frames p) \<and> length (pool_frames p) \<le> pool_cap p"

lemma pool_init_ok [simp]: "pool_ok (pool_init E)"
  by (simp add: pool_ok_def pool_init_def)

lemma FrameDataFree_ok [simp]:
  "pool_ok p \<Longrightarrow> pred_option frame_room fdo \<Longrightarrow> pool_ok (FrameDataFree fdo p)"
  by (cases fdo) (auto simp: pool_ok_def FrameDataFree_def)

lemma FrameDataFree_None [simp]: "FrameDataFree None p = p"
  by (simp add: FrameDataFree_def)

lemma frame_room_New [simp]: "frame_room NewFrameData"
  by (simp add: frame_room_def)

lemma frame_room_upd [simp]: "length bs = length (fbytes fd) \<Longrightarrow> frame_room (fd\<lparr>fbytes := bs\<rparr>) = frame_room fd"
  by (simp add: frame_room_def fcap_def)

text \<open>A frame for Conn \<open>i\<close> as it comes out of the pool: its header alone, and room for a payload.\<close>

definition blank_frame :: "ConnID \<Rightarrow> FrameData \<Rightarrow> bool" where
  "blank_frame i fd \<longleftrightarrow> fbytes fd = hdr_bytes (id_hdr i) \<and> frame_room fd"

lemma AllocID_blank:
  assumes "pool_ok p" and "i \<le> MaxConnID E" and "MaxConnID E \<le> MuxerConnID"
  obtains fd p' where "FrameDataAllocID E i p = Ret (fd, p')" and "blank_frame i fd" and "pool_ok p'"
    and "pool_cap p' = pool_cap p"
proof (cases "pool_frames p")
  case Nil
  from NewFrameDataID_frame [OF assms(2,3)] obtain s where
    "NewFrameDataID E i = Ret \<lparr>fbytes = hdr_bytes (id_hdr i), fspare = s\<rparr>" "length s = FrameMaxSize - 4" .
  with Nil assms(1) that show thesis
    by (simp add: FrameDataAllocID_def blank_frame_def frame_room_def fcap_def frame_sizes)
next
  case (Cons f fs)
  then have f: "4 \<le> fcap f" "frame_room f" using assms(1) by (auto simp: pool_ok_def frame_room_def frame_sizes)
  from ClearID_frame [OF f(1) assms(2,3)] obtain s where
    "FrameData_ClearID E f i = Ret \<lparr>fbytes = hdr_bytes (id_hdr i), fspare = s\<rparr>" "length s = fcap f - 4" .
  with Cons f assms(1) that show thesis
    by (auto simp: FrameDataAllocID_def blank_frame_def frame_room_def fcap_def pool_ok_def)
qed

lemma Alloc_empty:
  assumes "pool_ok p"
  obtains fd p' where "FrameDataAlloc p = Ret (fd, p')" and "fbytes fd = []" and "frame_room fd"
    and "pool_ok p'" and "pool_cap p' = pool_cap p"
proof (cases "pool_frames p")
  case Nil
  with assms that show thesis by (simp add: FrameDataAlloc_def NewFrameData_def frame_room_def fcap_def)
next
  case (Cons f fs)
  with assms that show thesis
    by (auto simp: FrameDataAlloc_def FrameData_Clear_def pool_ok_def frame_room_def fcap_def)
qed

section \<open>Properties of the pool\<close>

text \<open>The calls a program makes on the pool, and the pool after a sequence of them.\<close>

datatype pool_call = CallAlloc | CallAllocID ConnID | CallFree "FrameData option"

fun pool_run :: "rap_config \<Rightarrow> pool_call list \<Rightarrow> frame_pool \<Rightarrow> frame_pool go" where
  "pool_run E [] p = Ret p"
| "pool_run E (CallAlloc # cs) p = bnd (FrameDataAlloc p) (\<lambda>(fd, p). pool_run E cs p)"
| "pool_run E (CallAllocID i # cs) p = bnd (FrameDataAllocID E i p) (\<lambda>(fd, p). pool_run E cs p)"
| "pool_run E (CallFree fdo # cs) p = pool_run E cs (FrameDataFree fdo p)"

fun pool_call_ok :: "rap_config \<Rightarrow> pool_call \<Rightarrow> bool" where
  "pool_call_ok E CallAlloc \<longleftrightarrow> True"
| "pool_call_ok E (CallAllocID i) \<longleftrightarrow> i \<le> MaxConnID E"
| "pool_call_ok E (CallFree fdo) \<longleftrightarrow> (case fdo of None \<Rightarrow> True | Some fd \<Rightarrow> frame_room fd)"

lemma pool_run_ok:
  "pool_ok p \<Longrightarrow> MaxConnID E \<le> MuxerConnID \<Longrightarrow> list_all (pool_call_ok E) cs \<Longrightarrow>
   \<exists>p'. pool_run E cs p = Ret p' \<and> pool_ok p'"
proof (induction E cs p rule: pool_run.induct)
  case (2 E cs p)
  from Alloc_empty [OF "2.prems"(1)] obtain fd p' where "FrameDataAlloc p = Ret (fd, p')" "pool_ok p'" .
  with 2 show ?case by simp
next
  case (3 E i cs p)
  then have "i \<le> MaxConnID E" by simp
  from AllocID_blank [OF "3.prems"(1) this "3.prems"(2)] obtain fd p' where
    "FrameDataAllocID E i p = Ret (fd, p')" "pool_ok p'" .
  with 3 show ?case by simp
next
  case (4 E fdo cs p)
  then have "pool_ok (FrameDataFree fdo p)" by (cases fdo) auto
  with 4 show ?case by simp
qed simp

text \<open>
  C35. Frames do not remember: after any sequence of allocations and releases of full-size frames,
  whatever those frames held, \<^verbatim>\<open>FrameDataAlloc\<close> gives an empty frame and \<^verbatim>\<open>FrameDataAllocID\<close> a frame
  that is nothing but the zeroed header of the Conn asked for, each with the capacity of the
  largest frame; and the pool never holds more than its capacity.
\<close>

theorem pool_frames_fresh:
  assumes "sanitycheck E" and "list_all (pool_call_ok E) cs" and "i \<le> MaxConnID E"
  shows "\<exists>p fd p1 fd' p2. pool_run E cs (pool_init E) = Ret p \<and> length (pool_frames p) \<le> unat (MaxConnID E)
    \<and> FrameDataAlloc p = Ret (fd, p1) \<and> fbytes fd = [] \<and> fcap fd = FrameMaxSize
    \<and> FrameDataAllocID E i p = Ret (fd', p2) \<and> fbytes fd' = hdr_bytes (id_hdr i) \<and> fcap fd' = FrameMaxSize"
proof -
  have lim: "MaxConnID E \<le> MuxerConnID" using assms(1) by (rule sanity_MaxConnID)
  from pool_run_ok [OF pool_init_ok lim assms(2)] obtain p where
    p: "pool_run E cs (pool_init E) = Ret p" "pool_ok p" by blast
  have "pool_run E cs q = Ret q' \<Longrightarrow> pool_cap q' = pool_cap q" for q q'
    by (induction E cs q rule: pool_run.induct)
      (auto simp: bnd_Ret_conv FrameDataAlloc_def FrameDataAllocID_def FrameDataFree_def split: list.splits option.splits if_splits)
  from this [OF p(1)] have "pool_cap p = unat (MaxConnID E)" by (simp add: pool_init_def)
  moreover from Alloc_empty [OF p(2)] obtain fd p1 where
    "FrameDataAlloc p = Ret (fd, p1)" "fbytes fd = []" "frame_room fd" .
  moreover from AllocID_blank [OF p(2) assms(3) lim] obtain fd' p2 where
    "FrameDataAllocID E i p = Ret (fd', p2)" "blank_frame i fd'" .
  ultimately show ?thesis using p by (simp add: pool_ok_def frame_room_def blank_frame_def)
qed

theorem pool_frames_fresh_witness:
  "\<exists>p fd' p2. pool_run rap_default [CallFree (Some NewFrameData), CallAlloc] (pool_init rap_default) = Ret p
     \<and> FrameDataAllocID rap_default 7 p = Ret (fd', p2) \<and> fbytes fd' = hdr_bytes (id_hdr 7)"
proof -
  have "list_all (pool_call_ok rap_default) [CallFree (Some NewFrameData), CallAlloc]" by simp
  moreover have "7 \<le> MaxConnID rap_default" by simp
  ultimately show ?thesis using pool_frames_fresh [OF rap_default_sane, of _ 7] by blast
qed

end
