(* ===== verification/Go_Http.thy ===== *)
theory Go_Http
  imports Frame_Data
begin

text \<open>
  What the sources use of Go's standard library around HTTP: decimal integers (\<^verbatim>\<open>strconv\<close>), the
  canonical form of header keys and \<^verbatim>\<open>Header.Add\<close> / \<^verbatim>\<open>Values.Add\<close> (\<^verbatim>\<open>net/textproto\<close>, \<^verbatim>\<open>net/http\<close>,
  \<^verbatim>\<open>net/url\<close>), and \<^verbatim>\<open>path.Clean\<close>. A header or query map is the list of its entries.
\<close>

section \<open>Integers as text\<close>

definition digit_char :: "nat \<Rightarrow> char" where
  "digit_char d = char_of (48 + d)"

fun dec_digits :: "nat \<Rightarrow> string" where
  "dec_digits n = (if n < 10 then [digit_char n] else dec_digits (n div 10) @ [digit_char (n mod 10)])"

declare dec_digits.simps [simp del]

definition FormatInt :: "int \<Rightarrow> string" where
  "FormatInt x = (if x < 0 then CHR ''-'' # dec_digits (nat (- x)) else dec_digits (nat x))"

definition is_digit :: "char \<Rightarrow> bool" where
  "is_digit c \<longleftrightarrow> 48 \<le> (of_char c :: nat) \<and> (of_char c :: nat) \<le> 57"

definition dec_value :: "string \<Rightarrow> nat" where
  "dec_value s = foldl (\<lambda>n c. 10 * n + (of_char c - 48)) 0 s"

text \<open>\<^verbatim>\<open>strconv.ParseInt(s, 10, 64)\<close>: an optional sign, one or more digits, a value of 64 bits.\<close>

definition ParseInt64 :: "string \<Rightarrow> int option" where
  "ParseInt64 s =
     (let (neg, ds) = (case s of c # cs \<Rightarrow> if c = CHR ''-'' then (True, cs)
                                 else if c = CHR ''+'' then (False, cs) else (False, s)
                       | [] \<Rightarrow> (False, []));
          v = (if neg then - int (dec_value ds) else int (dec_value ds))
      in if ds \<noteq> [] \<and> list_all is_digit ds \<and> - (2 ^ 63) \<le> v \<and> v < 2 ^ 63 then Some v else None)"

section \<open>Header keys and maps\<close>

definition is_lower :: "char \<Rightarrow> bool" where
  "is_lower c \<longleftrightarrow> 97 \<le> (of_char c :: nat) \<and> (of_char c :: nat) \<le> 122"

definition is_upper :: "char \<Rightarrow> bool" where
  "is_upper c \<longleftrightarrow> 65 \<le> (of_char c :: nat) \<and> (of_char c :: nat) \<le> 90"

definition to_lower :: "char \<Rightarrow> char" where
  "to_lower c = (if is_upper c then char_of (of_char c + 32 :: nat) else c)"

definition to_upper :: "char \<Rightarrow> char" where
  "to_upper c = (if is_lower c then char_of (of_char c - 32 :: nat) else c)"

definition valid_header_byte :: "char \<Rightarrow> bool" where
  "valid_header_byte c \<longleftrightarrow> is_digit c \<or> is_lower c \<or> is_upper c \<or> c \<in> set ''!#$%&*+-.^_|~'' \<or>
     (of_char c :: nat) = 39 \<or> (of_char c :: nat) = 96"

fun canon_chars :: "bool \<Rightarrow> string \<Rightarrow> string" where
  "canon_chars up [] = []"
| "canon_chars up (c # cs) =
     (let c' = (if up then to_upper c else to_lower c) in c' # canon_chars (c' = CHR ''-'') cs)"

definition CanonicalHeaderKey :: "string \<Rightarrow> string" where
  "CanonicalHeaderKey k = (if list_all valid_header_byte k then canon_chars True k else k)"

fun kv_add :: "string \<Rightarrow> string \<Rightarrow> kvv \<Rightarrow> kvv" where
  "kv_add k v [] = [(k, [v])]"
| "kv_add k v ((k', vv) # m) = (if k = k' then (k', vv @ [v]) # m else (k', vv) # kv_add k v m)"

fun kv_set :: "string \<Rightarrow> string list \<Rightarrow> kvv \<Rightarrow> kvv" where
  "kv_set k vv [] = [(k, vv)]"
| "kv_set k vv ((k', vv') # m) = (if k = k' then (k', vv) # m else (k', vv') # kv_set k vv m)"

definition kv_delete :: "string \<Rightarrow> kvv \<Rightarrow> kvv" where
  "kv_delete k m = filter (\<lambda>(k', _). k' \<noteq> k) m"

definition Header_Add :: "string \<Rightarrow> string \<Rightarrow> kvv \<Rightarrow> kvv" where
  "Header_Add k v m = kv_add (CanonicalHeaderKey k) v m"

definition Values_Add :: "string \<Rightarrow> string \<Rightarrow> kvv \<Rightarrow> kvv" where
  "Values_Add k v m = kv_add k v m"

section \<open>Paths\<close>

fun split_at :: "char \<Rightarrow> string \<Rightarrow> string list" where
  "split_at d [] = [[]]"
| "split_at d (c # cs) =
     (case split_at d cs of
        w # ws \<Rightarrow> if c = d then [] # w # ws else (c # w) # ws
      | [] \<Rightarrow> [])"

definition join_with :: "char \<Rightarrow> string list \<Rightarrow> string" where
  "join_with d ws = (case ws of [] \<Rightarrow> [] | w # ws \<Rightarrow> w @ concat (map (\<lambda>v. d # v) ws))"

text \<open>One path element against the elements kept so far (last one first).\<close>

definition clean_step :: "bool \<Rightarrow> string \<Rightarrow> string list \<Rightarrow> string list" where
  "clean_step rooted w st =
     (if w = [] \<or> w = ''.'' then st
      else if w = ''..'' then
        (case st of
           v # st' \<Rightarrow> if v = ''..'' then ''..'' # st else st'
         | [] \<Rightarrow> if rooted then [] else [''..''])
      else w # st)"

definition path_Clean :: "string \<Rightarrow> string" where
  "path_Clean p =
     (if p = [] then ''.''
      else let rooted = (hd p = CHR ''/'');
               ws = rev (fold (clean_step rooted) (split_at (CHR ''/'') p) [])
           in if rooted then CHR ''/'' # join_with (CHR ''/'') ws
              else if ws = [] then ''.'' else join_with (CHR ''/'') ws)"

section \<open>Facts about maps\<close>

lemma kv_add_new: "k \<notin> fst ` set m \<Longrightarrow> kv_add k v m = m @ [(k, [v])]"
  by (induction m) auto

lemma kv_add_last: "k \<notin> fst ` set m \<Longrightarrow> kv_add k v (m @ [(k, vv)]) = m @ [(k, vv @ [v])]"
  by (induction m) auto

lemma kv_add_values:
  assumes "k \<notin> fst ` set m" and "vv \<noteq> []"
  shows "fold (kv_add k) vv m = m @ [(k, vv)]"
proof -
  have more: "fold (kv_add k) ws (m @ [(k, us)]) = m @ [(k, us @ ws)]" for ws us
    using assms(1) by (induction ws arbitrary: us) (auto simp: kv_add_last)
  from assms(2) obtain v ws where "vv = v # ws" by (cases vv) auto
  then show ?thesis using assms(1) more [of ws "[v]"] by (simp add: kv_add_new)
qed

text \<open>Adding the entries of a map one value at a time rebuilds the map.\<close>

lemma kv_add_entries:
  assumes "distinct (map fst (m0 @ m))" and "\<forall>vv \<in> snd ` set m. vv \<noteq> []"
  shows "fold (\<lambda>(k, vv) h. fold (kv_add k) vv h) m m0 = m0 @ m"
  using assms
proof (induction m arbitrary: m0)
  case (Cons e m)
  obtain k vv where e: "e = (k, vv)" by (cases e)
  with Cons.prems have "fold (kv_add k) vv m0 = m0 @ [(k, vv)]" by (auto intro: kv_add_values)
  moreover have "fold (\<lambda>(k, vv) h. fold (kv_add k) vv h) m (m0 @ [(k, vv)]) = (m0 @ [(k, vv)]) @ m"
    using Cons.prems by (intro Cons.IH) (auto simp: e)
  ultimately show ?case by (simp add: e)
qed simp

end
