(* ===== verification/Frame_Parser.thy ===== *)
theory Frame_Parser
  imports Go_Http
begin

unbundle bit_operations_syntax

text \<open>
  \<^verbatim>\<open>src/frameparser.go\<close>. A \<^verbatim>\<open>FrameParser\<close> is the rest of a frame's payload; every reader takes bytes
  off its front and panics where the source panics (a \<^verbatim>\<open>panic\<close> call or a slice bound). The contract
  that each reader undoes its writer is the locale \<open>codec\<close>, interpreted once per RAP data type.
\<close>

section \<open>Readers\<close>

type_synonym FrameParser = "byte list"

definition NewFrameParser :: "FrameData \<Rightarrow> FrameParser go" where
  "NewFrameParser fd = Payload fd"

text \<open>\<^verbatim>\<open>Read\<close> copies into a buffer of \<open>n\<close> bytes.\<close>

definition FrameParser_Read :: "FrameParser \<Rightarrow> nat \<Rightarrow> byte list \<times> FrameParser" where
  "FrameParser_Read fp n = (take n fp, drop n fp)"

fun ReadUint64_loop :: "FrameParser \<Rightarrow> nat \<Rightarrow> u64 \<Rightarrow> nat \<Rightarrow> (u64 \<times> FrameParser) go" where
  "ReadUint64_loop [] i x s = Panics (PanicMsg ''ReadUint64(): unterminated uint64'')"
| "ReadUint64_loop (b # fp) i x s =
     (if b < 0x80 then
        (if i > 9 \<or> i = 9 \<and> b > 1 then Panics (PanicMsg ''ReadUint64(): uint64 overflow'')
         else Ret (x OR push_bit s (ucast b), fp))
      else ReadUint64_loop fp (i + 1) (x OR push_bit s (ucast (b AND 0x7f))) (s + 7))"

definition ReadUint64 :: "FrameParser \<Rightarrow> (u64 \<times> FrameParser) go" where
  "ReadUint64 fp = ReadUint64_loop fp 0 0 0"

definition ReadRecordType :: "FrameParser \<Rightarrow> (RecordType \<times> FrameParser) go" where
  "ReadRecordType fp = bnd (idx fp 0) (\<lambda>rt. bnd (slice_from fp 1) (\<lambda>fp. Ret (rt, fp)))"

definition ReadInt64 :: "FrameParser \<Rightarrow> (i64 \<times> FrameParser) go" where
  "ReadInt64 fp = bnd (ReadUint64 fp) (\<lambda>(ux, fp).
     let ix = drop_bit 1 ux in Ret (if ux AND 1 \<noteq> 0 then NOT ix else ix, fp))"

definition ReadLen :: "FrameParser \<Rightarrow> (nat \<times> FrameParser) go" where
  "ReadLen fp = bnd (idx fp 0) (\<lambda>b.
     let n = unat b in
     if n < 0x80 then bnd (slice_from fp 1) (\<lambda>fp. Ret (n, fp))
     else bnd (idx fp 1) (\<lambda>b1. bnd (slice_from fp 2) (\<lambda>fp'.
       Ret (push_bit 8 (n AND 0x7f) OR unat b1, fp'))))"

text \<open>
  \<^verbatim>\<open>ReadString\<close>: the string and whether it was the null string. \<^verbatim>\<open>(*fp)[n:]\<close> panics when fewer than
  \<open>n\<close> bytes are left (\<^verbatim>\<open>(*fp)[:n]\<close> alone would reach into the array behind the payload).
\<close>

definition ReadString :: "FrameParser \<Rightarrow> (string \<times> bool \<times> FrameParser) go" where
  "ReadString fp = bnd (ReadLen fp) (\<lambda>(n, fp).
     if n < 1 then bnd (ReadLen fp) (\<lambda>(code, fp).
       if code > 1 then Panics (PanicMsg ''unmapped string index'')
       else Ret ([], code < 1, fp))
     else bnd (slice_from fp n) (\<lambda>fp'. Ret (bytes_str (take n fp), False, fp')))"

definition ReadRoute :: "FrameParser \<Rightarrow> (string \<times> bool \<times> FrameParser) go" where
  "ReadRoute fp = bnd (ReadLen fp) (\<lambda>(routeIndex, fp).
     if routeIndex = 0 then ReadString fp else Panics (PanicMsg ''routes not implemented''))"

text \<open>\<^verbatim>\<open>ProxyBody\<close>: one write of everything that is left; what the writer took is consumed.\<close>

definition ProxyBody :: "'w writer \<Rightarrow> FrameParser \<Rightarrow> 'w \<Rightarrow> ('w \<times> goerr option \<times> FrameParser) go" where
  "ProxyBody wr fp w = (case wr w fp of (w, n, err) \<Rightarrow> bnd (slice_from fp n) (\<lambda>fp. Ret (w, err, fp)))"

section \<open>Progress\<close>

lemma bnd_cong [fundef_cong]:
  "m = m' \<Longrightarrow> (\<And>x. m' = Ret x \<Longrightarrow> f x = g x) \<Longrightarrow> bnd m f = bnd m' g"
  by (cases m') auto

lemma ReadLen_shorter: "ReadLen fp = Ret (n, fp') \<Longrightarrow> length fp' < length fp"
  by (auto simp: ReadLen_def Let_def bnd_Ret_conv idx_def slice_from_def split: if_splits)

lemma ReadString_shorter: "ReadString fp = Ret (v, isNull, fp') \<Longrightarrow> length fp' < length fp"
  by (auto simp: ReadString_def bnd_Ret_conv slice_from_def split: if_splits dest!: ReadLen_shorter)

section \<open>Records\<close>

text \<open>
  The loops that read the values of one key and the entries of a map. \<open>onkey\<close> is what the loop
  does with a key, \<open>add\<close> what it does with a key and a value.
\<close>

function read_values ::
  "(string \<Rightarrow> 'h \<Rightarrow> 'h) \<Rightarrow> FrameParser \<Rightarrow> 'h \<Rightarrow> ('h \<times> FrameParser) go" where
  "read_values add fp h = bnd (ReadString fp) (\<lambda>(v, isNull, fp).
     if isNull then Ret (h, fp) else read_values add fp (add v h))"
  by pat_completeness auto
termination
  by (relation "measure (\<lambda>(add, fp, h). length fp)") (auto dest: ReadString_shorter)

declare read_values.simps [simp del]

lemma read_values_shorter: "read_values add fp h = Ret (h', fp') \<Longrightarrow> length fp' < length fp"
proof (induction add fp h rule: read_values.induct)
  case (1 add fp h)
  from "1.prems" obtain v isNull fp1 where r: "ReadString fp = Ret (v, isNull, fp1)"
    and rest: "(if isNull then Ret (h, fp1) else read_values add fp1 (add v h)) = Ret (h', fp')"
    by (auto simp: read_values.simps [of add fp h] bnd_Ret_conv)
  show ?case
  proof (cases isNull)
    case True
    with rest ReadString_shorter [OF r] show ?thesis by simp
  next
    case False
    with rest have "length fp' < length fp1" by (intro "1.IH" [OF r]) auto
    with ReadString_shorter [OF r] show ?thesis by simp
  qed
qed

function read_entries ::
  "(string \<Rightarrow> 'h \<Rightarrow> 'h) \<Rightarrow> (string \<Rightarrow> string \<Rightarrow> 'h \<Rightarrow> 'h) \<Rightarrow> FrameParser \<Rightarrow> 'h \<Rightarrow> ('h \<times> FrameParser) go" where
  "read_entries onkey add fp h = bnd (ReadString fp) (\<lambda>(k, isNull, fp).
     if isNull then Ret (h, fp)
     else bnd (read_values (add k) fp (onkey k h)) (\<lambda>(h, fp). read_entries onkey add fp h))"
  by pat_completeness auto
termination
  by (relation "measure (\<lambda>(onkey, add, fp, h). length fp)")
    (auto dest!: ReadString_shorter read_values_shorter)

declare read_entries.simps [simp del]

text \<open>
  \<^verbatim>\<open>ProxyResponse\<close> against an \<^verbatim>\<open>http.ResponseWriter\<close>: the header map it holds and the status codes
  its \<^verbatim>\<open>WriteHeader\<close> has been called with.
\<close>

record response_writer =
  rw_header :: kvv
  rw_status :: "nat list"

definition FrameParser_ProxyResponse ::
  "FrameParser \<Rightarrow> response_writer \<Rightarrow> (nat \<times> response_writer \<times> FrameParser) go" where
  "FrameParser_ProxyResponse fp w = bnd (ReadLen fp) (\<lambda>(statusCode, fp).
     bnd (read_entries (\<lambda>k (hdr, hasCL). (hdr, hasCL \<or> k = ''Content-Length''))
            (\<lambda>k v (hdr, hasCL). (Header_Add k v hdr, hasCL)) fp (rw_header w, False))
       (\<lambda>((hdr, hasCL), fp). bnd (ReadInt64 fp) (\<lambda>(contentLength, fp).
          let hdr = (if sint contentLength \<ge> 0 \<and> \<not> hasCL
                     then kv_set ''Content-Length'' [FormatInt (sint contentLength)] hdr else hdr)
          in Ret (statusCode, w\<lparr>rw_header := hdr, rw_status := rw_status w @ [statusCode]\<rparr>, fp))))"

section \<open>Each reader undoes its writer\<close>

lemma unzigzag_zigzag: "(if zigzag x AND 1 \<noteq> 0 then NOT (drop_bit 1 (zigzag x)) else drop_bit 1 (zigzag x)) = x"
proof -
  define w where "w = push_bit 1 x"
  have w: "bit w (Suc n) = bit x n" if "n < 63" for n
    using that unfolding w_def by (simp only: bit_push_bit_iff) (simp)
  have w0: "\<not> bit w 0" unfolding w_def by (simp only: bit_push_bit_iff) simp
  have msb: "sint x < 0 \<longleftrightarrow> bit x 63" using bit_last_iff[of x] by simp
  have b0: "zigzag x AND 1 \<noteq> 0 \<longleftrightarrow> bit (zigzag x) 0"
    by (simp add: and_one_eq odd_iff_mod_2_eq_one bit_0 even_iff_mod_2_eq_zero)
  show ?thesis
  proof (cases "bit x 63")
    case True
    then have z: "zigzag x = NOT w" by (simp add: zigzag_def msb w_def)
    have "NOT (drop_bit 1 (zigzag x)) = x"
    proof (rule bit_word_eqI)
      fix n assume "n < LENGTH(64)"
      then show "bit (NOT (drop_bit 1 (zigzag x))) n = bit x n" using True w[of n]
        by (cases "n = 63") (auto simp: z bit_simps)
    qed
    moreover have "bit (zigzag x) 0" using w0 by (simp add: z bit_simps)
    ultimately show ?thesis unfolding b0 by simp
  next
    case False
    then have z: "zigzag x = w" by (simp add: zigzag_def msb w_def)
    have "drop_bit 1 (zigzag x) = x"
    proof (rule bit_word_eqI)
      fix n assume "n < LENGTH(64)"
      then show "bit (drop_bit 1 (zigzag x)) n = bit x n" using False w[of n]
        by (cases "n = 63") (auto simp: z bit_simps dest: bit_imp_le_length)
    qed
    moreover have "\<not> bit (zigzag x) 0" using w0 by (simp add: z)
    ultimately show ?thesis unfolding b0 by simp
  qed
qed

lemma ReadLen_enc:
  assumes "n \<le> 0x7fff"
  shows "ReadLen (enc_len n @ rest) = Ret (n, rest)"
proof (cases "n < 128")
  case True
  then have "unat (of_nat n :: byte) = n" by (simp add: unsigned_of_nat take_bit_eq_mod)
  with True show ?thesis by (simp add: ReadLen_def enc_len_def slice_from_def)
next
  case False
  let ?q = "n div 256" and ?r = "n mod 256"
  have q: "?q < 128" using assms by (simp add: less_mult_imp_div_less)
  have "(?q + 128) AND 0x7f = take_bit 7 (?q + 128)" by (simp add: take_bit_eq_mask mask_eq_exp_minus_1)
  also have "\<dots> = ?q" using q by (simp add: take_bit_eq_mod mod_add_right_eq)
  finally have "(?q + 128) AND 0x7f = ?q" .
  moreover have "unat (of_nat ?r :: byte) = ?r" by (simp add: unsigned_of_nat take_bit_eq_mod)
  ultimately show ?thesis using False 
    by (simp add: ReadLen_def enc_len_def slice_from_def unat_len_high [OF q] two_bytes_nat)
qed

lemma ReadUint64_loop_enc:
  assumes "unat y < 2 ^ (64 - 7 * i)" and "i \<le> 9" and "s = 7 * i"
  shows "ReadUint64_loop (enc_uint64 y @ rest) i x s = Ret (x OR push_bit s y, rest)"
  using assms
proof (induction y arbitrary: i x s rule: enc_uint64.induct)
  case (1 y)
  show ?case
  proof (cases "y < 0x80")
    case True
    then have y: "unat y < 128" by (simp add: word_less_nat_alt)
    then have b: "unat (ucast y :: byte) = unat y" by (simp add: unsigned_ucast_eq take_bit_eq_mod)
    then have "(ucast y :: byte) < 0x80" using y by (simp add: word_less_nat_alt)
    moreover have "\<not> (i = 9 \<and> (ucast y :: byte) > 1)"
      using "1.prems"(1) b by (auto simp: word_less_nat_alt)
    moreover have "(ucast (ucast y :: byte) :: u64) = y"
      using b by (metis of_nat_unat ucast_id)
    ultimately show ?thesis
      using True "1.prems"(2) by (simp add: enc_uint64.simps [of y])
  next
    case False
    then have y: "128 \<le> unat y" by (simp add: word_less_nat_alt)
    have "(2 :: nat) ^ 7 < 2 ^ (64 - 7 * i)" using y "1.prems"(1) by simp
    then have i: "7 < 64 - 7 * i" by (simp only: power_strict_increasing_iff)
    then have "64 - 7 * i = 7 + (64 - 7 * Suc i)" by simp
    then have "(2 :: nat) ^ (64 - 7 * i) = 2 ^ 7 * 2 ^ (64 - 7 * Suc i)" by (metis power_add)
    then have "unat (drop_bit 7 y) < 2 ^ (64 - 7 * Suc i)"
      using "1.prems"(1) by (simp add: unat_shift_7 less_mult_imp_div_less mult.commute)
    then have "ReadUint64_loop (enc_uint64 (drop_bit 7 y) @ rest) (Suc i) (x OR push_bit s (take_bit 7 y)) (s + 7)
        = Ret ((x OR push_bit s (take_bit 7 y)) OR push_bit (s + 7) (drop_bit 7 y), rest)"
      using i "1.prems"(3) by (intro "1.IH" [OF False]) auto
    then have "ReadUint64_loop (enc_uint64 (drop_bit 7 y) @ rest) (Suc i) (x OR push_bit s (take_bit 7 y)) (s + 7)
        = Ret (x OR push_bit s y, rest)"
      by (simp only: join_7_bits)
    then show ?thesis
      using False by (simp add: enc_uint64.simps [of y] byte_less_128 bit_simps low_7_bits)
  qed
qed

lemma ReadUint64_enc [codec_simps]: "ReadUint64 (enc_uint64 x @ rest) = Ret (x, rest)"
proof -
  have "unat x < 2 ^ LENGTH(64)" by (rule unsigned_less)
  then show ?thesis by (simp add: ReadUint64_def ReadUint64_loop_enc)
qed

lemma ReadInt64_enc [codec_simps]: "ReadInt64 (enc_int64 x @ rest) = Ret (x, rest)"
  using unzigzag_zigzag [of x] by (auto simp: ReadInt64_def enc_int64_def ReadUint64_enc Let_def split: if_splits)

declare ReadLen_enc [codec_simps]

lemma ReadLen_0 [simp]: "ReadLen (0 # fp) = Ret (0, fp)"
  by (simp add: ReadLen_def slice_from_def)

lemma ReadLen_1 [simp]: "ReadLen (1 # fp) = Ret (1, fp)"
  by (simp add: ReadLen_def slice_from_def)

lemma ReadString_null [codec_simps]: "ReadString (enc_null @ rest) = Ret ([], True, rest)"
  by (simp add: ReadString_def enc_null_def)

lemma ReadString_enc [codec_simps]:
  assumes "string_ok s"
  shows "ReadString (enc_string s @ rest) = Ret (s, False, rest)"
proof (cases "s = []")
  case True
  then show ?thesis by (simp add: ReadString_def enc_string_def)
next
  case False
  with assms show ?thesis
    using slice_from_append [of "str_bytes s" rest]
    by (simp add: ReadString_def enc_string_def string_ok_def ReadLen_enc Suc_le_eq)
qed

lemma read_values_enc [codec_simps]:
  "list_all string_ok vv \<Longrightarrow> read_values add (enc_strings vv @ rest) h = Ret (fold add vv h, rest)"
proof (induction vv arbitrary: h)
  case Nil
  then show ?case by (simp add: read_values.simps [of add _ h] enc_strings_def codec_simps)
next
  case (Cons v vv)
  then show ?case
    by (simp add: read_values.simps [of add _ h] enc_strings_def codec_simps)
qed

lemma read_entries_enc [codec_simps]:
  "kvv_ok m \<Longrightarrow> read_entries onkey add (enc_kvv m @ rest) h =
     Ret (fold (\<lambda>(k, vv) h. fold (add k) vv (onkey k h)) m h, rest)"
proof (induction m arbitrary: h)
  case Nil
  then show ?case
    by (simp add: read_entries.simps [of onkey add _ h] enc_kvv_def enc_entries_def codec_simps)
next
  case (Cons e m)
  obtain k vv where e: "e = (k, vv)" by (cases e)
  with Cons show ?case
    by (simp add: read_entries.simps [of onkey add _ h] enc_kvv_def enc_entries_def kvv_ok_def codec_simps)
qed

section \<open>The codec contract\<close>

text \<open>
  What a reader owes its writer: on the encoding of an admissible value, with anything behind it,
  it returns that value and leaves what was behind it. Every codec is then free of ambiguity (no
  encoding is a proper prefix of another), and two codecs compose to one for pairs.
\<close>

locale codec =
  fixes enc :: "'a \<Rightarrow> byte list" and dec :: "byte list \<Rightarrow> ('a \<times> byte list) go" and ok :: "'a \<Rightarrow> bool"
  assumes dec_enc: "ok x \<Longrightarrow> dec (enc x @ rest) = Ret (x, rest)"
begin

lemma enc_prefix_free: "ok x \<Longrightarrow> ok y \<Longrightarrow> enc x @ r = enc y @ s \<Longrightarrow> x = y \<and> r = s"
  by (metis dec_enc go.inject(1) prod.inject)

lemma enc_inj: "ok x \<Longrightarrow> ok y \<Longrightarrow> enc x = enc y \<Longrightarrow> x = y"
  using enc_prefix_free [of x y "[]" "[]"] by simp

lemma enc_concat_inj:
  "list_all ok xs \<Longrightarrow> list_all ok ys \<Longrightarrow> length xs = length ys \<Longrightarrow>
   concat (map enc xs) @ r = concat (map enc ys) @ s \<Longrightarrow> xs = ys \<and> r = s"
proof (induction xs arbitrary: ys)
  case (Cons x xs)
  then obtain y ys' where ys: "ys = y # ys'" by (cases ys) auto
  with Cons.prems enc_prefix_free [of x y "concat (map enc xs) @ r" "concat (map enc ys') @ s"]
  have "x = y" "concat (map enc xs) @ r = concat (map enc ys') @ s" by auto
  with Cons ys show ?case by auto
qed simp

end

definition dec_strnull :: "byte list \<Rightarrow> ((string \<times> bool) \<times> byte list) go" where
  "dec_strnull fp = map_go (\<lambda>(s, isNull, fp). ((s, isNull), fp)) (ReadString fp)"

definition enc_strnull :: "string \<times> bool \<Rightarrow> byte list" where
  "enc_strnull = (\<lambda>(s, isNull). if isNull then enc_null else enc_string s)"

definition strnull_ok :: "string \<times> bool \<Rightarrow> bool" where
  "strnull_ok = (\<lambda>(s, isNull). if isNull then s = [] else string_ok s)"

interpretation uint64_codec: codec enc_uint64 ReadUint64 "\<lambda>_. True"
  by unfold_locales (rule ReadUint64_enc)

interpretation int64_codec: codec enc_int64 ReadInt64 "\<lambda>_. True"
  by unfold_locales (rule ReadInt64_enc)

interpretation len_codec: codec enc_len ReadLen "\<lambda>n. n \<le> 0x7fff"
  by unfold_locales (rule ReadLen_enc)

interpretation string_codec: codec enc_strnull dec_strnull strnull_ok
  by unfold_locales
    (auto simp: dec_strnull_def enc_strnull_def strnull_ok_def codec_simps split: if_splits)

section \<open>Properties of the parser\<close>

lemma length_enc_uint64: "unat y < 2 ^ (7 * k) \<Longrightarrow> 0 < k \<Longrightarrow> length (enc_uint64 y) \<le> k"
proof (induction y arbitrary: k rule: enc_uint64.induct)
  case (1 y)
  show ?case
  proof (cases "y < 0x80")
    case True
    then show ?thesis using "1.prems"(2) by (simp add: enc_uint64.simps [of y])
  next
    case False
    then have y: "128 \<le> unat y" by (simp add: word_less_nat_alt)
    obtain k' where k: "k = Suc k'" using "1.prems"(2) by (cases k) auto
    have lt: "unat (drop_bit 7 y) < 2 ^ (7 * k')"
      using "1.prems"(1) by (simp add: unat_shift_7 k power_add less_mult_imp_div_less mult.commute)
    have "0 < k'" using y "1.prems"(1) by (cases k') (auto simp: k)
    with "1.IH" [OF False lt] False show ?thesis by (simp add: enc_uint64.simps [of y] k)
  qed
qed

text \<open>
  Every 64-bit value survives the wire: whatever \<^verbatim>\<open>WriteInt64\<close> and \<^verbatim>\<open>WriteUint64\<close> append for any
  of the \<open>2 ^ 64\<close> values of their argument, \<^verbatim>\<open>ReadInt64\<close> and \<^verbatim>\<open>ReadUint64\<close> read back as that value,
  without a panic, and leave what followed untouched; the encoding takes one to ten bytes.
\<close>

theorem int64_wire_roundtrip:
  "\<exists>e. fbytes (WriteInt64 E fd x) = fbytes fd @ e \<and> ReadInt64 (e @ rest) = Ret (x, rest)
       \<and> 1 \<le> length e \<and> length e \<le> 10
   \<and> (\<exists>u. fbytes (WriteUint64 E fd x) = fbytes fd @ u \<and> ReadUint64 (u @ rest) = Ret (x, rest)
       \<and> 1 \<le> length u \<and> length u \<le> 10)"
proof -
  have len: "1 \<le> length (enc_uint64 y) \<and> length (enc_uint64 y) \<le> 10" for y
  proof -
    have "unat y < 2 ^ LENGTH(64)" by (rule unsigned_less)
    then have "unat y < 2 ^ (7 * 10)" by simp
    then show ?thesis using length_enc_uint64 [of y 10] by (simp add: enc_uint64.simps [of y] Suc_le_eq)
  qed
  show ?thesis
    using len [of x] len [of "zigzag x"] by (auto simp: codec_simps) (auto simp: enc_int64_def)
qed

text \<open>
  How \<^verbatim>\<open>ProxyResponse\<close> leaves a header map it built from the entries \<open>hdr\<close> of a record: the entries
  themselves, and a \<^verbatim>\<open>Content-Length\<close> made of the record's length field when it is not negative and
  no entry named it.
\<close>

definition with_length :: "kvv \<Rightarrow> i64 \<Rightarrow> kvv" where
  "with_length hdr cl =
     (if sint cl \<ge> 0 \<and> ''Content-Length'' \<notin> fst ` set hdr
      then hdr @ [(''Content-Length'', [FormatInt (sint cl)])] else hdr)"

text \<open>A header map as \<^verbatim>\<open>http.Header\<close> keeps it: canonical keys, each once, with at least one value.\<close>

definition http_header :: "kvv \<Rightarrow> bool" where
  "http_header m \<longleftrightarrow> distinct (map fst m) \<and> list_all (\<lambda>(k, vv). CanonicalHeaderKey k = k \<and> vv \<noteq> []) m"

lemma kv_set_new: "k \<notin> fst ` set m \<Longrightarrow> kv_set k vv m = m @ [(k, vv)]"
  by (induction m) auto

lemma fold_response_entries:
  assumes "list_all (\<lambda>(k, vv). CanonicalHeaderKey k = k) m"
  shows "fold (\<lambda>(k, vv) h. fold (\<lambda>v (hdr, hasCL). (Header_Add k v hdr, hasCL)) vv
             (case h of (hdr, hasCL) \<Rightarrow> (hdr, hasCL \<or> k = ''Content-Length''))) m (h0, b)
      = (fold (\<lambda>(k, vv) h. fold (kv_add k) vv h) m h0, b \<or> ''Content-Length'' \<in> fst ` set m)"
  using assms
proof (induction m arbitrary: h0 b)
  case (Cons e m)
  obtain k vv where e: "e = (k, vv)" by (cases e)
  have "fold (\<lambda>v (hdr, hasCL). (Header_Add k v hdr, hasCL)) vv (h, c) = (fold (kv_add k) vv h, c)" for h and c :: bool
    using Cons.prems by (induction vv arbitrary: h) (simp_all add: e Header_Add_def)
  with Cons show ?case by (auto simp: e)
qed simp

lemma ProxyResponse_enc:
  assumes "code \<le> 0x7fff" and "kvv_ok hdr" and "http_header hdr" and "rw_header w = []"
  shows "FrameParser_ProxyResponse (enc_response code hdr cl @ rest) w =
     Ret (code, w\<lparr>rw_header := with_length hdr cl, rw_status := rw_status w @ [code]\<rparr>, rest)"
proof -
  have "fold (\<lambda>(k, vv) h. fold (kv_add k) vv h) hdr [] = [] @ hdr"
    using assms(3) by (intro kv_add_entries) (auto simp: http_header_def list_all_iff)
  moreover have "list_all (\<lambda>(k, vv). CanonicalHeaderKey k = k) hdr"
    using assms(3) by (auto simp: http_header_def list_all_iff)
  ultimately show ?thesis
    using assms(1,2,4)
    by (simp add: FrameParser_ProxyResponse_def enc_response_def codec_simps fold_response_entries Let_def
        with_length_def kv_set_new)
qed

text \<open>
  C38. A response record survives the wire: what \<^verbatim>\<open>WriteResponse\<close> appends to a fresh frame of the
  Conn fits or is reported as \<^verbatim>\<open>io.ErrShortBuffer\<close>; when it fits, the receiver's parser reads back the
  record type, and \<^verbatim>\<open>ProxyResponse\<close> gives the response writer the same status, the same header map
  (canonical keys, each with its values in order) and a \<^verbatim>\<open>Content-Length\<close> made from the length field
  exactly when that is known and the header did not carry one; nothing of the payload is left.
\<close>

theorem response_roundtrip:
  assumes "i \<le> MaxConnID E" and "sanitycheck E" and "NewFrameDataID E i = Ret fd"
    and "code \<le> 0x7fff" and "kvv_ok hdr" and "http_header hdr"
  shows "\<exists>fd' err. FrameData_WriteResponse E fd (int code) cl hdr = Ret (fd', err)
    \<and> err = (if length (fbytes fd') \<le> FrameMaxSize then None else Some ErrShortBuffer)
    \<and> bnd (NewFrameParser fd') ReadRecordType = Ret (RecordTypeHTTPResponse, enc_response code hdr cl)
    \<and> FrameParser_ProxyResponse (enc_response code hdr cl) \<lparr>rw_header = [], rw_status = []\<rparr>
        = Ret (code, \<lparr>rw_header = with_length hdr cl, rw_status = [code]\<rparr>, [])"
proof -
  have lim: "MaxConnID E \<le> MuxerConnID"
    using assms(2) by (rule sanity_MaxConnID)
  from NewFrameDataID_frame [OF assms(1) lim] assms(3) have fd: "fbytes fd = hdr_bytes (id_hdr i) @ []"
    by (metis FrameData.select_convs(1) append_Nil2 go.inject(1))
  have ok: "hdr_ok (id_hdr i)" using order_trans [OF assms(1) lim] by (simp add: unat_le_MuxerConnID)
  from WriteResponse_frame [OF fd ok assms(5,4), of E cl] obtain fd' err where
    w: "FrameData_WriteResponse E fd (int code) cl hdr = Ret (fd', err)"
    and bytes: "fbytes fd' = hdr_bytes (id_hdr i\<lparr>h_head := True\<rparr>) @ RecordTypeHTTPResponse # enc_response code hdr cl"
    by auto
  have "err = (if length (fbytes fd') \<le> FrameMaxSize then None else Some ErrShortBuffer)"
    using w by (auto simp: FrameData_WriteResponse_def bnd_Ret_conv Let_def)
  moreover have "bnd (NewFrameParser fd') ReadRecordType = Ret (RecordTypeHTTPResponse, enc_response code hdr cl)"
    by (simp add: NewFrameParser_def Payload_def FrameHeaderSize_def bytes slice_from_def ReadRecordType_def)
  ultimately show ?thesis
    using w ProxyResponse_enc [OF assms(4,5,6), of "\<lparr>rw_header = [], rw_status = []\<rparr>" cl "[]"] by simp
qed

theorem response_roundtrip_witness:
  "FrameParser_ProxyResponse (enc_response 200 [(''Etag'', [''a'', ''b''])] 7) \<lparr>rw_header = [], rw_status = []\<rparr>
     = Ret (200, \<lparr>rw_header = [(''Etag'', [''a'', ''b'']), (''Content-Length'', [''7''])], rw_status = [200]\<rparr>, [])"
proof -
  let ?h = "[(''Etag'', [''a'', ''b''])]"
  obtain fd where fd: "NewFrameDataID rap_default 1 = Ret fd"
    using NewFrameDataID_frame [of 1 rap_default] by (auto simp: MuxerConnID_eq)
  have "kvv_ok ?h" by (simp add: kvv_ok_def string_ok_def)
  moreover have "http_header ?h"
    by (simp add: http_header_def CanonicalHeaderKey_def valid_header_byte_def is_digit_def is_lower_def
        is_upper_def Let_def to_upper_def to_lower_def)
  moreover have "with_length ?h 7 = ?h @ [(''Content-Length'', [''7''])]"
    by (simp add: with_length_def FormatInt_def dec_digits.simps digit_char_def
        char_of_def bit_simps)
  ultimately show ?thesis
    using response_roundtrip [OF _ rap_default_sane fd, of 200 ?h 7] by auto
qed

end
