(* ===== verification/Conn.thy ===== *)
theory Conn
  imports Frame_Pool Frame_Parser
begin

text \<open>
  \<^verbatim>\<open>src/conn.go\<close>. A Conn is one logical connection of a Muxer: a pipe with a window of frames in
  flight, acknowledgements, deadlines and a close handshake (final frames) after which it is
  recycled. Its operations run on the state \<open>'m sys\<close>: the fields of the Go struct, the state \<open>'m\<close> of
  the \<^verbatim>\<open>ConnMuxer\<close> behind it, the global frame pool, the clock and the choices \<^verbatim>\<open>select\<close> makes. A call
  that has to wait (a mutex that is held, a \<^verbatim>\<open>select\<close> with no case ready) is \<^const>\<open>Blocks\<close>: it is
  no step until something else has changed the state. This theory holds the definitions; their
  laws are in \<open>Conn_Laws\<close>.
\<close>

section \<open>Deadlines\<close>

text \<open>
  A timer is set for a point in time, or its callback has run. \<open>cancel\<close> says whether the channel
  is closed. \<^verbatim>\<open>set\<close> takes the present time and the deadline, the zero time being \<^const>\<open>None\<close>; a
  timer that could not be stopped has run its callback, so the wait on \<^verbatim>\<open>cancel\<close> is over at once.
\<close>

datatype timer_state = NoTimer | Armed int | Fired

record connDeadline =
  timer :: timer_state
  cancel :: bool

definition makeConnDeadline :: connDeadline where
  "makeConnDeadline = \<lparr>timer = NoTimer, cancel = False\<rparr>"

definition deadline_set :: "int \<Rightarrow> connDeadline \<Rightarrow> int option \<Rightarrow> connDeadline" where
  "deadline_set now d t =
     (let d = d\<lparr>timer := NoTimer\<rparr>; closed = cancel d in
      case t of
        None \<Rightarrow> if closed then d\<lparr>cancel := False\<rparr> else d
      | Some t \<Rightarrow>
          if t - now > 0 then (if closed then d\<lparr>cancel := False\<rparr> else d)\<lparr>timer := Armed t\<rparr>
          else if \<not> closed then d\<lparr>cancel := True\<rparr> else d)"

text \<open>The callback of the timer, when its time has come: it closes \<^verbatim>\<open>cancel\<close>.\<close>

definition deadline_fire :: "int \<Rightarrow> connDeadline \<Rightarrow> connDeadline go" where
  "deadline_fire now d =
     (case timer d of
        Armed t \<Rightarrow>
          if t \<le> now
          then (if cancel d then Panics (PanicMsg ''close of closed channel'')
                else Ret (d\<lparr>timer := Fired, cancel := True\<rparr>))
          else Ret d
      | _ \<Rightarrow> Ret d)"

section \<open>State\<close>

datatype runState = runStateUnused | runStateActive | runStateWaitFin | runStateRecycle

text \<open>
  The struct \<^verbatim>\<open>Conn\<close>. The buffered channel \<^verbatim>\<open>ackCh\<close> carries no values and is the number of its
  entries; \<^verbatim>\<open>readCh\<close> is its queue and whether it is closed; the atomically accessed flags are
  Booleans; a mutex is whether it is held. \<open>onRecycle\<close> is the callback, applied to this Conn.
\<close>

record 'm conn =
  connID :: ConnID
  onRecycle :: "('m \<Rightarrow> 'm go) option"
  ackCh :: nat
  readCh :: "FrameData list"
  readChClosed :: bool
  cmu :: bool
  localClosed :: bool
  localSentFinal :: bool
  remoteSentFinal :: bool
  sendWindow :: int
  runstate :: runState
  hijacked :: bool
  wmu :: bool
  fdw :: "FrameData option"
  rmu :: bool
  fdr :: "FrameData option"
  cfp :: FrameParser
  readDeadline :: connDeadline
  writeDeadline :: connDeadline
  serialNumber :: u32

record 'm sys = "'m conn" +
  mux :: 'm
  pool :: frame_pool
  clock :: int
  choices :: "nat \<Rightarrow> nat"
  tick :: nat

text \<open>
  The interface \<^verbatim>\<open>ConnMuxer\<close> over a muxer state \<open>'m\<close>: \<^verbatim>\<open>ConnWrite\<close> (its first argument is the choice of a
  \<^verbatim>\<open>select\<close> inside it) and whether the abort channel is closed.
\<close>

record 'm ConnMuxer =
  ConnWrite :: "nat \<Rightarrow> FrameData \<Rightarrow> 'm \<Rightarrow> (goerr option \<times> 'm) go"
  ConnAborted :: "'m \<Rightarrow> bool"

text \<open>
  A \<^verbatim>\<open>select\<close> picks any of the cases that are ready: the \<open>k\<close>-th choice made is the \<open>k\<close>-th entry of
  \<open>choices\<close>, about which nothing is known.
\<close>

definition select :: "'c list \<Rightarrow> 'm sys \<Rightarrow> ('c \<times> 'm sys) go" where
  "select ready s =
     (if ready = [] then Blocks
      else Ret (ready ! (choices s (tick s) mod length ready), s\<lparr>tick := Suc (tick s)\<rparr>))"

text \<open>\<^verbatim>\<open>mu.Lock(); defer mu.Unlock()\<close> around a body, for each of the three mutexes.\<close>

definition lock_wmu :: "('m sys \<Rightarrow> ('a \<times> 'm sys) go) \<Rightarrow> 'm sys \<Rightarrow> ('a \<times> 'm sys) go" where
  "lock_wmu f s = (if wmu s then Blocks else bnd (f (s\<lparr>wmu := True\<rparr>)) (\<lambda>(x, s). Ret (x, s\<lparr>wmu := False\<rparr>)))"

definition lock_rmu :: "('m sys \<Rightarrow> ('a \<times> 'm sys) go) \<Rightarrow> 'm sys \<Rightarrow> ('a \<times> 'm sys) go" where
  "lock_rmu f s = (if rmu s then Blocks else bnd (f (s\<lparr>rmu := True\<rparr>)) (\<lambda>(x, s). Ret (x, s\<lparr>rmu := False\<rparr>)))"

definition lock_cmu :: "('m sys \<Rightarrow> ('a \<times> 'm sys) go) \<Rightarrow> 'm sys \<Rightarrow> ('a \<times> 'm sys) go" where
  "lock_cmu f s = (if cmu s then Blocks else bnd (f (s\<lparr>cmu := True\<rparr>)) (\<lambda>(x, s). Ret (x, s\<lparr>cmu := False\<rparr>)))"

text \<open>Calls into the frame pool and the muxer.\<close>

definition free_frame :: "FrameData option \<Rightarrow> 'm sys \<Rightarrow> 'm sys" where
  "free_frame fdo s = s\<lparr>pool := FrameDataFree fdo (pool s)\<rparr>"

definition alloc_frame :: "rap_config \<Rightarrow> 'm sys \<Rightarrow> (FrameData \<times> 'm sys) go" where
  "alloc_frame E s = bnd (FrameDataAllocID E (connID s) (pool s)) (\<lambda>(fd, p). Ret (fd, s\<lparr>pool := p\<rparr>))"

definition conn_write :: "'m ConnMuxer \<Rightarrow> FrameData \<Rightarrow> 'm sys \<Rightarrow> (goerr option \<times> 'm sys) go" where
  "conn_write M fd s =
     bnd (ConnWrite M (choices s (tick s)) fd (mux s)) (\<lambda>(err, m). Ret (err, s\<lparr>mux := m, tick := Suc (tick s)\<rparr>))"

section \<open>Atomic flags\<close>

definition hijacking :: "'m sys \<Rightarrow> bool \<times> 'm sys" where
  "hijacking s = (\<not> hijacked s, s\<lparr>hijacked := True\<rparr>)"

definition starting :: "'m sys \<Rightarrow> bool \<times> 'm sys" where
  "starting s =
     (if runstate s = runStateUnused then (True, s\<lparr>runstate := runStateActive\<rparr>) else (False, s))"

definition remoteSendingFinal :: "'m sys \<Rightarrow> bool \<times> 'm sys" where
  "remoteSendingFinal s =
     (if \<not> remoteSentFinal s then (True, s\<lparr>remoteSentFinal := True, readChClosed := True\<rparr>) else (False, s))"

definition localSendingFinal :: "'m sys \<Rightarrow> bool \<times> 'm sys" where
  "localSendingFinal s = (\<not> localSentFinal s, s\<lparr>localSentFinal := True\<rparr>)"

text \<open>
  \<^verbatim>\<open>NewConn\<close>: the Conn for muxer state, pool, clock and choices as they are, with the next serial
  number.
\<close>

definition NewConn :: "rap_config \<Rightarrow> ConnID \<Rightarrow> u32 \<Rightarrow> 'm \<Rightarrow> frame_pool \<Rightarrow> int \<Rightarrow> (nat \<Rightarrow> nat) \<Rightarrow> 'm sys go" where
  "NewConn E i serial m p now orc =
     (if i \<ge> MuxerConnID then Panics (PanicMsg ''illegal Conn ID'')
      else Ret \<lparr>connID = i, onRecycle = None, ackCh = 0, readCh = [], readChClosed = False, cmu = False,
        localClosed = False, localSentFinal = False, remoteSentFinal = False,
        sendWindow = SendWindowSize E, runstate = runStateUnused, hijacked = False,
        wmu = False, fdw = None, rmu = False, fdr = None, cfp = [],
        readDeadline = makeConnDeadline, writeDeadline = makeConnDeadline, serialNumber = serial,
        mux = m, pool = p, clock = now, choices = orc, tick = 0\<rparr>)"

section \<open>Recycling\<close>

definition canRecycleLocked :: "'m sys \<Rightarrow> string option" where
  "canRecycleLocked s =
     (if \<not> localClosed s then Some ''recycle(): local not closed''
      else if (case fdw s of None \<Rightarrow> False | Some fd \<Rightarrow> length (fbytes fd) > 0)
      then Some ''recycle(): still data left in fdw''
      else if \<not> localSentFinal s then Some ''recycle(): local has not sent final''
      else if \<not> remoteSentFinal s then Some ''recycle(): remote has not sent final''
      else None)"

definition forceRecycleLocked :: "rap_config \<Rightarrow> 'm sys \<Rightarrow> 'm sys go" where
  "forceRecycleLocked E s =
     (let s = s\<lparr>ackCh := 0\<rparr>;
          s = fold (\<lambda>fd. free_frame (Some fd)) (readCh s) s;
          s = s\<lparr>readCh := [], readChClosed := False, localClosed := False,
                localSentFinal := False, remoteSentFinal := False, sendWindow := SendWindowSize E,
                hijacked := False, fdw := None, fdr := None, cfp := [],
                writeDeadline := deadline_set (clock s) (writeDeadline s) None,
                readDeadline := deadline_set (clock s) (readDeadline s) None,
                runstate := runStateUnused\<rparr>
      in case onRecycle s of
           None \<Rightarrow> Ret s
         | Some f \<Rightarrow> bnd (f (mux s)) (\<lambda>m. Ret (s\<lparr>mux := m\<rparr>)))"

definition recycleLocked :: "rap_config \<Rightarrow> 'm sys \<Rightarrow> 'm sys go" where
  "recycleLocked E s =
     (let s = s\<lparr>runstate := runStateRecycle\<rparr> in
      case canRecycleLocked s of
        Some msg \<Rightarrow> Panics (PanicMsg msg)
      | None \<Rightarrow> forceRecycleLocked E s)"

definition recycle :: "rap_config \<Rightarrow> 'm sys \<Rightarrow> (unit \<times> 'm sys) go" where
  "recycle E = lock_wmu (lock_rmu (\<lambda>s. map_go (Pair ()) (recycleLocked E s)))"

section \<open>Incoming frames\<close>

text \<open>A nil \<^verbatim>\<open>FrameData\<close> has no bytes, so every header accessor panics on it.\<close>

definition hdr_of :: "FrameData option \<Rightarrow> FrameHeader" where
  "hdr_of fdo = (case fdo of None \<Rightarrow> [] | Some fd \<Rightarrow> fbytes fd)"

definition receivedFinal :: "rap_config \<Rightarrow> FrameData option \<Rightarrow> 'm sys \<Rightarrow> (unit \<times> 'm sys) go" where
  "receivedFinal E fdo = lock_cmu (\<lambda>s.
     bnd (if fdo \<noteq> None then
            bnd (SizeValue (hdr_of fdo)) (\<lambda>sz.
              if sz \<noteq> 0 then Panics (PanicMsg ''final frame has size value set'')
              else Ret (free_frame fdo s))
          else Ret s) (\<lambda>s.
     case remoteSendingFinal s of (first, s) \<Rightarrow>
       if \<not> first then Panics (PanicMsg ''received multiple final frames'')
       else if localSentFinal s then recycle E s else Ret ((), s)))"

definition SubmitFrame :: "rap_config \<Rightarrow> FrameData option \<Rightarrow> 'm sys \<Rightarrow> 'm sys go" where
  "SubmitFrame E fdo s = bnd (HasFlow (hdr_of fdo)) (\<lambda>flow.
     if flow then
       bnd (IsAck (hdr_of fdo)) (\<lambda>ack.
         if ack then
           let s = free_frame fdo s in
           if ackCh s < MaxSendWindowSize then Ret (s\<lparr>ackCh := Suc (ackCh s)\<rparr>)
           else Panics (PanicMsg ''ACK would block'')
         else bnd (IsFinal (hdr_of fdo)) (\<lambda>fin.
           if fin then map_go snd (receivedFinal E fdo s) else Ret s))
     else if remoteSentFinal s then Panics (PanicMsg ''received frame after final'')
     else if readChClosed s then Panics (PanicMsg ''send on closed channel'')
     else if length (readCh s) < MaxSendWindowSize
     then Ret (s\<lparr>readCh := readCh s @ (case fdo of None \<Rightarrow> [] | Some fd \<Rightarrow> [fd])\<rparr>)
     else Panics (PanicMsg ''DATA would block''))"

section \<open>Reading\<close>

datatype conn_case = CaseRead | CaseAck | CaseDeadline | CaseAbort | CaseLocalClosed

definition writeAckFrame :: "rap_config \<Rightarrow> 'm ConnMuxer \<Rightarrow> 'm sys \<Rightarrow> 'm sys go" where
  "writeAckFrame E M s =
     bnd (alloc_frame E s) (\<lambda>(fd, s).
     bnd (on_header SetFlow fd) (\<lambda>fd.
     bnd (conn_write M fd s) (\<lambda>(_, s). Ret s)))"

definition read_ready :: "'m ConnMuxer \<Rightarrow> 'm sys \<Rightarrow> conn_case list" where
  "read_ready M s =
     (if readCh s \<noteq> [] \<or> readChClosed s then [CaseRead] else []) @
     (if cancel (readDeadline s) then [CaseDeadline] else []) @
     (if ConnAborted M (mux s) then [CaseAbort] else []) @
     (if localClosed s then [CaseLocalClosed] else [])"

definition readFrame :: "rap_config \<Rightarrow> 'm ConnMuxer \<Rightarrow> 'm sys \<Rightarrow> (goerr option \<times> 'm sys) go" where
  "readFrame E M s =
     (let s = (if fdr s \<noteq> None then (free_frame (fdr s) s)\<lparr>fdr := None, cfp := []\<rparr> else s) in
      bnd (select (read_ready M s) s) (\<lambda>(c, s).
        case c of
          CaseRead \<Rightarrow>
            (case readCh s of
               fd # fds \<Rightarrow>
                 bnd (NewFrameParser fd) (\<lambda>p.
                 bnd (writeAckFrame E M (s\<lparr>readCh := fds, fdr := Some fd, cfp := p\<rparr>)) (\<lambda>s. Ret (None, s)))
             | [] \<Rightarrow> Ret (Some ErrEOF, s\<lparr>fdr := None\<rparr>))
        | CaseDeadline \<Rightarrow> Ret (Some TimeoutError, s)
        | CaseAbort \<Rightarrow> Ret (Some ServerClosedError, s)
        | _ \<Rightarrow> Ret (Some ErrClosedPipe, s)))"

text \<open>
  The loop of \<^verbatim>\<open>loadFrameReader\<close>: every round that goes on has taken a frame off \<^verbatim>\<open>readCh\<close>. These
  facts say what the parts of a round leave alone.
\<close>

lemma select_Ret:
  "select ready s = Ret (c, s') \<longleftrightarrow>
     ready \<noteq> [] \<and> c = ready ! (choices s (tick s) mod length ready) \<and> s' = s\<lparr>tick := Suc (tick s)\<rparr>"
  by (auto simp: select_def)

lemma select_mem: "select ready s = Ret (c, s') \<Longrightarrow> c \<in> set ready"
  by (auto simp: select_Ret)

lemma conn_write_Ret:
  "conn_write M fd s = Ret (err, s') \<longleftrightarrow>
     (\<exists>m. ConnWrite M (choices s (tick s)) fd (mux s) = Ret (err, m) \<and> s' = s\<lparr>mux := m, tick := Suc (tick s)\<rparr>)"
  by (auto simp: conn_write_def bnd_Ret_conv)

lemma alloc_frame_Ret:
  "alloc_frame E s = Ret (fd, s') \<longleftrightarrow>
     (\<exists>p. FrameDataAllocID E (connID s) (pool s) = Ret (fd, p) \<and> s' = s\<lparr>pool := p\<rparr>)"
  by (auto simp: alloc_frame_def bnd_Ret_conv)

lemma free_frame_sel [simp]:
  "readCh (free_frame fdo s) = readCh s" "cfp (free_frame fdo s) = cfp s" "fdr (free_frame fdo s) = fdr s"
  "ackCh (free_frame fdo s) = ackCh s" "readChClosed (free_frame fdo s) = readChClosed s"
  by (simp_all add: free_frame_def)

lemma readFrame_shorter:
  assumes "readFrame E M s = Ret (None, s')"
  shows "length (readCh s') < length (readCh s)"
  using assms
  by (auto simp: readFrame_def Let_def bnd_Ret_conv select_Ret writeAckFrame_def conn_write_Ret alloc_frame_Ret
      split: conn_case.splits list.splits if_splits)

function loadFrameReader :: "rap_config \<Rightarrow> 'm ConnMuxer \<Rightarrow> 'm sys \<Rightarrow> (goerr option \<times> 'm sys) go" where
  "loadFrameReader E M s =
     (if cfp s = [] then
        bnd (readFrame E M s) (\<lambda>(err, s). if err = None then loadFrameReader E M s else Ret (err, s))
      else Ret (None, s))"
  by pat_completeness auto
termination
  by (relation "measure (\<lambda>(E, M, s). length (readCh s))") (auto dest: readFrame_shorter)

declare loadFrameReader.simps [simp del]

definition LoadFrameReader :: "rap_config \<Rightarrow> 'm ConnMuxer \<Rightarrow> 'm sys \<Rightarrow> (goerr option \<times> 'm sys) go" where
  "LoadFrameReader E M = lock_rmu (loadFrameReader E M)"

text \<open>\<^verbatim>\<open>read\<close> into a buffer of \<open>n\<close> bytes: the bytes put there and the error.\<close>

definition conn_read :: "rap_config \<Rightarrow> 'm ConnMuxer \<Rightarrow> nat \<Rightarrow> 'm sys \<Rightarrow> ((byte list \<times> goerr option) \<times> 'm sys) go" where
  "conn_read E M n s = bnd (loadFrameReader E M s) (\<lambda>(err, s).
     if err = None then
       (case FrameParser_Read (cfp s) n of (bs, fp) \<Rightarrow> Ret ((bs, None), s\<lparr>cfp := fp\<rparr>))
     else Ret (([], err), s))"

definition Conn_Read :: "rap_config \<Rightarrow> 'm ConnMuxer \<Rightarrow> nat \<Rightarrow> 'm sys \<Rightarrow> ((byte list \<times> goerr option) \<times> 'm sys) go" where
  "Conn_Read E M n = lock_rmu (conn_read E M n)"

text \<open>
  \<^verbatim>\<open>writeToHelper\<close> hands what is left of the current frame to an \<^verbatim>\<open>io.Writer\<close> until it is gone or an
  error other than \<^verbatim>\<open>io.ErrShortWrite\<close> comes; \<open>None\<close> is a writer that makes no progress for ever.
\<close>

partial_function (option) drain_fp ::
  "'w writer \<Rightarrow> FrameParser \<Rightarrow> 'w \<Rightarrow> nat \<Rightarrow> goerr option \<Rightarrow> ('w \<times> nat \<times> goerr option \<times> FrameParser) go option" where
  "drain_fp wr fp w n err =
     (if fp \<noteq> [] then
        (case wr w fp of (w, count, err) \<Rightarrow>
           (case slice_from fp count of
              Ret fp \<Rightarrow>
                if err \<noteq> None \<and> err \<noteq> Some ErrShortWrite then Some (Ret (w, n + count, err, fp))
                else drain_fp wr fp w (n + count) err
            | Panics p \<Rightarrow> Some (Panics p)
            | Blocks \<Rightarrow> Some Blocks))
      else Some (Ret (w, n, err, fp)))"

definition run_loop :: "'a go option \<Rightarrow> 'a go" where
  "run_loop r = (case r of None \<Rightarrow> Blocks | Some g \<Rightarrow> g)"

definition writeToHelper ::
  "rap_config \<Rightarrow> 'm ConnMuxer \<Rightarrow> 'w writer \<Rightarrow> 'w \<Rightarrow> 'm sys \<Rightarrow> (('w \<times> nat \<times> goerr option) \<times> 'm sys) go" where
  "writeToHelper E M wr w = lock_rmu (\<lambda>s.
     bnd (loadFrameReader E M s) (\<lambda>(err, s).
       if err \<noteq> None then Ret ((w, 0, err), s)
       else bnd (run_loop (drain_fp wr (cfp s) w 0 None)) (\<lambda>(w, n, err, fp).
         Ret ((w, n, err), s\<lparr>cfp := fp\<rparr>))))"

partial_function (option) writeTo_loop ::
  "rap_config \<Rightarrow> 'm ConnMuxer \<Rightarrow> 'w writer \<Rightarrow> 'w \<Rightarrow> nat \<Rightarrow> 'm sys
     \<Rightarrow> (('w \<times> nat \<times> goerr option) \<times> 'm sys) go option" where
  "writeTo_loop E M wr w n s =
     (case writeToHelper E M wr w s of
        Ret ((w, m, err), s) \<Rightarrow>
          (case err of
             None \<Rightarrow> writeTo_loop E M wr w (n + m) s
           | Some e \<Rightarrow> Some (Ret ((w, n + m, if e = ErrEOF then None else Some e), s)))
      | Panics p \<Rightarrow> Some (Panics p)
      | Blocks \<Rightarrow> Some Blocks)"

definition Conn_WriteTo ::
  "rap_config \<Rightarrow> 'm ConnMuxer \<Rightarrow> 'w writer \<Rightarrow> 'w \<Rightarrow> 'm sys \<Rightarrow> (('w \<times> nat \<times> goerr option) \<times> 'm sys) go" where
  "Conn_WriteTo E M wr w s = run_loop (writeTo_loop E M wr w 0 s)"

section \<open>Sending a frame\<close>

definition consumeAck :: "rap_config \<Rightarrow> 'm sys \<Rightarrow> 'm sys go" where
  "consumeAck E s =
     (let s = s\<lparr>sendWindow := sendWindow s + 1\<rparr> in
      if sendWindow s > SendWindowSize E then Panics (PanicMsg ''sendWindow > SendWindowSize'') else Ret s)"

definition write_ready :: "'m ConnMuxer \<Rightarrow> 'm sys \<Rightarrow> conn_case list" where
  "write_ready M s =
     (if ackCh s > 0 then [CaseAck] else []) @
     (if localClosed s then [CaseLocalClosed] else []) @
     (if ConnAborted M (mux s) then [CaseAbort] else []) @
     (if cancel (writeDeadline s) then [CaseDeadline] else [])"

text \<open>
  The loop of \<^verbatim>\<open>writeFrame\<close>. Its first \<^verbatim>\<open>select\<close> falls through to the default branch when no case is
  ready; there the frame is sent if the window allows, and otherwise a second \<^verbatim>\<open>select\<close> waits for
  the same four cases, none of which is ready.
\<close>

function write_loop :: "rap_config \<Rightarrow> 'm ConnMuxer \<Rightarrow> FrameData \<Rightarrow> 'm sys \<Rightarrow> (goerr option \<times> 'm sys) go" where
  "write_loop E M fd s =
     (if write_ready M s = [] then
        if remoteSentFinal s then Ret (Some ErrEOF, free_frame (Some fd) s)
        else if sendWindow s > 0 then
          let s = s\<lparr>sendWindow := sendWindow s - 1\<rparr> in
          if sendWindow s < 0 then Panics (PanicMsg ''sendWindow went negative'')
          else conn_write M fd (snd (starting s))
        else Blocks
      else bnd (select (write_ready M s) s) (\<lambda>(c, s).
        case c of
          CaseAck \<Rightarrow> bnd (consumeAck E (s\<lparr>ackCh := ackCh s - 1\<rparr>)) (\<lambda>s. write_loop E M fd s)
        | CaseAbort \<Rightarrow> Ret (Some ServerClosedError, free_frame (Some fd) s)
        | CaseDeadline \<Rightarrow> Ret (Some TimeoutError, free_frame (Some fd) s)
        | _ \<Rightarrow> Ret (Some ErrClosedPipe, free_frame (Some fd) s)))"
  by pat_completeness auto
termination
proof (relation "measure (\<lambda>(E, M, fd, s). ackCh s)", goal_cases)
  case (2 E M fd s x c s1 s2)
  then have "CaseAck \<in> set (write_ready M s)" by (auto dest: select_mem)
  then have "ackCh s > 0" by (auto simp: write_ready_def split: if_splits)
  with 2 show ?case by (auto simp: select_Ret consumeAck_def Let_def split: if_splits)
qed simp

declare write_loop.simps [simp del]

definition writeFrame :: "rap_config \<Rightarrow> 'm ConnMuxer \<Rightarrow> FrameData \<Rightarrow> 'm sys \<Rightarrow> (goerr option \<times> 'm sys) go" where
  "writeFrame E M fd s =
     bnd (HasFlow (fbytes fd)) (\<lambda>flow.
     if flow then Panics (PanicMsg ''attempt to send flow control frame'')
     else bnd (HasBodyOrHead (fbytes fd)) (\<lambda>bh.
       if \<not> bh then
         if length (fbytes fd) > FrameHeaderSize then Panics (PanicMsg ''missing head or body flag'')
         else Ret (None, free_frame (Some fd) s)
       else if length (fbytes fd) > FrameMaxSize then Ret (Some ErrFrameTooBig, s)
       else bnd (on_header (\<lambda>fh. SetSizeValue fh (int (length (fbytes fd)) - int FrameHeaderSize)) fd) (\<lambda>fd.
         write_loop E M fd s)))"

definition flushLocked :: "rap_config \<Rightarrow> 'm ConnMuxer \<Rightarrow> 'm sys \<Rightarrow> (goerr option \<times> 'm sys) go" where
  "flushLocked E M s =
     (case fdw s of None \<Rightarrow> Ret (None, s) | Some fd \<Rightarrow> writeFrame E M fd (s\<lparr>fdw := None\<rparr>))"

definition Flush :: "rap_config \<Rightarrow> 'm ConnMuxer \<Rightarrow> 'm sys \<Rightarrow> (goerr option \<times> 'm sys) go" where
  "Flush E M = lock_wmu (flushLocked E M)"

section \<open>Writing\<close>

definition start_ready :: "'m sys \<Rightarrow> conn_case list" where
  "start_ready s =
     (if localClosed s then [CaseLocalClosed] else []) @
     (if cancel (writeDeadline s) then [CaseDeadline] else [])"

definition writeStart :: "rap_config \<Rightarrow> 'm sys \<Rightarrow> (goerr option \<times> 'm sys) go" where
  "writeStart E s =
     (if remoteSentFinal s then Ret (Some ErrEOF, s)
      else if start_ready s = [] then
        (case fdw s of
           None \<Rightarrow> bnd (alloc_frame E s) (\<lambda>(fd, s). Ret (None, s\<lparr>fdw := Some fd\<rparr>))
         | Some fd \<Rightarrow> Ret (None, s))
      else bnd (select (start_ready s) s) (\<lambda>(c, s).
        case c of CaseDeadline \<Rightarrow> Ret (Some TimeoutError, s) | _ \<Rightarrow> Ret (Some ErrClosedPipe, s)))"

definition WriteStart :: "rap_config \<Rightarrow> 'm sys \<Rightarrow> (goerr option \<times> 'm sys) go" where
  "WriteStart E = lock_wmu (writeStart E)"

text \<open>A nil \<^verbatim>\<open>fdw\<close> is an empty slice without capacity; appending to it makes a new one.\<close>

definition fdw_val :: "'m sys \<Rightarrow> FrameData" where
  "fdw_val s = (case fdw s of None \<Rightarrow> \<lparr>fbytes = [], fspare = []\<rparr> | Some fd \<Rightarrow> fd)"

definition Conn_Available :: "'m sys \<Rightarrow> nat" where
  "Conn_Available s = Available (fdw_val s)"

definition Conn_Buffered :: "'m sys \<Rightarrow> nat" where
  "Conn_Buffered s = Buffered (fdw_val s)"

text \<open>\<^verbatim>\<open>conn.fdw.Header().SetBody()\<close> and then \<^verbatim>\<open>append\<close> to the frame.\<close>

definition fdw_append :: "rap_config \<Rightarrow> byte list \<Rightarrow> 'm sys \<Rightarrow> 'm sys go" where
  "fdw_append E p s =
     bnd (on_header SetBody (fdw_val s)) (\<lambda>fd. Ret (s\<lparr>fdw := Some (append_bytes E fd p)\<rparr>))"

text \<open>
  The loop of \<^verbatim>\<open>write\<close>: fill the frame, send it, start the next. It does not end (\<open>None\<close>) if the
  frames it gets have no room beyond their header.
\<close>

partial_function (option) write_chunks ::
  "rap_config \<Rightarrow> 'm ConnMuxer \<Rightarrow> byte list \<Rightarrow> nat \<Rightarrow> goerr option \<Rightarrow> 'm sys
     \<Rightarrow> ((nat \<times> goerr option) \<times> 'm sys) go option" where
  "write_chunks E M p n err s =
     (if err = None \<and> length p > Conn_Available s then
        (let m = Conn_Available s in
         case bnd (if m > 0 then fdw_append E (take m p) s else Ret s) (flushLocked E M) of
           Ret (err, s) \<Rightarrow>
             if err = None then
               (case writeStart E s of
                  Ret (err, s) \<Rightarrow> write_chunks E M (drop m p) (n + m) err s
                | Panics x \<Rightarrow> Some (Panics x)
                | Blocks \<Rightarrow> Some Blocks)
             else Some (Ret ((n, err), s))
         | Panics x \<Rightarrow> Some (Panics x)
         | Blocks \<Rightarrow> Some Blocks)
      else if err = None then Some (bnd (fdw_append E p s) (\<lambda>s. Ret ((n + length p, None), s)))
      else Some (Ret ((n, err), s)))"

definition conn_write_bytes ::
  "rap_config \<Rightarrow> 'm ConnMuxer \<Rightarrow> byte list \<Rightarrow> 'm sys \<Rightarrow> ((nat \<times> goerr option) \<times> 'm sys) go" where
  "conn_write_bytes E M p s =
     bnd (writeStart E s) (\<lambda>(err, s). run_loop (write_chunks E M p 0 err s))"

definition Conn_Write ::
  "rap_config \<Rightarrow> 'm ConnMuxer \<Rightarrow> byte list \<Rightarrow> 'm sys \<Rightarrow> ((nat \<times> goerr option) \<times> 'm sys) go" where
  "Conn_Write E M p = lock_wmu (\<lambda>s.
     bnd (conn_write_bytes E M p s) (\<lambda>((n, err), s).
       if err = None then
         bnd (flushLocked E M s) (\<lambda>(err, s). Ret ((if err \<noteq> None then 0 else n, err), s))
       else Ret ((n, err), s)))"

definition conn_writeByte :: "rap_config \<Rightarrow> 'm ConnMuxer \<Rightarrow> byte \<Rightarrow> 'm sys \<Rightarrow> (goerr option \<times> 'm sys) go" where
  "conn_writeByte E M c s =
     bnd (writeStart E s) (\<lambda>(err, s).
     bnd (if err = None \<and> Conn_Available s \<le> 0 then
            bnd (flushLocked E M s) (\<lambda>(err, s). if err = None then writeStart E s else Ret (err, s))
          else Ret (err, s)) (\<lambda>(err, s).
     if err = None then bnd (fdw_append E [c] s) (\<lambda>s. Ret (None, s)) else Ret (err, s)))"

definition Conn_WriteByte :: "rap_config \<Rightarrow> 'm ConnMuxer \<Rightarrow> byte \<Rightarrow> 'm sys \<Rightarrow> (goerr option \<times> 'm sys) go" where
  "Conn_WriteByte E M c = lock_wmu (\<lambda>s.
     bnd (conn_writeByte E M c s) (\<lambda>(err, s). if err = None then flushLocked E M s else Ret (err, s)))"

text \<open>
  The body an \<^verbatim>\<open>io.Reader\<close> delivers: what its successive reads return (bytes and error), the error
  of every read after those, and the bound of an \<^verbatim>\<open>io.LimitedReader\<close> around it.
\<close>

record body =
  b_reads :: "(byte list \<times> goerr option) list"
  b_err :: goerr
  b_limit :: "nat option"

definition Body_Read :: "body \<Rightarrow> nat \<Rightarrow> byte list \<times> goerr option \<times> body" where
  "Body_Read r n =
     (if b_limit r = Some 0 then ([], Some ErrEOF, r)
      else let n = (case b_limit r of None \<Rightarrow> n | Some k \<Rightarrow> min n k) in
        case b_reads r of
          [] \<Rightarrow> ([], Some (b_err r), r)
        | (c, e) # cs \<Rightarrow>
            let k = min n (length c);
                r = r\<lparr>b_limit := map_option (\<lambda>l. l - k) (b_limit r)\<rparr>
            in if length c \<le> n then (c, e, r\<lparr>b_reads := cs\<rparr>)
               else (take n c, None, r\<lparr>b_reads := (drop n c, e) # cs\<rparr>))"

definition readFromHelperLocked ::
  "rap_config \<Rightarrow> 'm ConnMuxer \<Rightarrow> body \<Rightarrow> 'm sys \<Rightarrow> ((nat \<times> goerr option \<times> body) \<times> 'm sys) go" where
  "readFromHelperLocked E M r s =
     bnd (writeStart E s) (\<lambda>(err, s).
       if err = None then
         (case Body_Read r (Conn_Available s) of (bs, err, r) \<Rightarrow>
            if bs \<noteq> [] then
              bnd (fdw_append E bs s) (\<lambda>s.
              bnd (flushLocked E M s) (\<lambda>(flushErr, s).
                Ret ((length bs, if err = None then flushErr else err, r), s)))
            else Ret ((0, err, r), s))
       else Ret ((0, err, r), s))"

definition readFromHelper ::
  "rap_config \<Rightarrow> 'm ConnMuxer \<Rightarrow> body \<Rightarrow> 'm sys \<Rightarrow> ((nat \<times> goerr option \<times> body) \<times> 'm sys) go" where
  "readFromHelper E M r = lock_wmu (readFromHelperLocked E M r)"

partial_function (option) readFrom_loop ::
  "(body \<Rightarrow> 'm sys \<Rightarrow> ((nat \<times> goerr option \<times> body) \<times> 'm sys) go) \<Rightarrow> body \<Rightarrow> nat \<Rightarrow> 'm sys
     \<Rightarrow> ((nat \<times> goerr option) \<times> 'm sys) go option" where
  "readFrom_loop helper r n s =
     (case helper r s of
        Ret ((m, err, r), s) \<Rightarrow>
          (case err of
             None \<Rightarrow> readFrom_loop helper r (n + m) s
           | Some e \<Rightarrow> Some (Ret ((n + m, if e = ErrEOF then None else Some e), s)))
      | Panics p \<Rightarrow> Some (Panics p)
      | Blocks \<Rightarrow> Some Blocks)"

definition Conn_ReadFrom ::
  "rap_config \<Rightarrow> 'm ConnMuxer \<Rightarrow> body option \<Rightarrow> 'm sys \<Rightarrow> ((nat \<times> goerr option) \<times> 'm sys) go" where
  "Conn_ReadFrom E M ro s =
     (case ro of
        None \<Rightarrow> Ret ((0, Some ErrEOF), s)
      | Some r \<Rightarrow> run_loop (readFrom_loop (readFromHelper E M) r 0 s))"

definition conn_readFrom ::
  "rap_config \<Rightarrow> 'm ConnMuxer \<Rightarrow> body \<Rightarrow> 'm sys \<Rightarrow> ((nat \<times> goerr option) \<times> 'm sys) go" where
  "conn_readFrom E M r s = run_loop (readFrom_loop (readFromHelperLocked E M) r 0 s)"

section \<open>Closing\<close>

definition makeFinalFrame :: "rap_config \<Rightarrow> bool \<Rightarrow> 'm sys \<Rightarrow> (FrameData \<times> 'm sys) go" where
  "makeFinalFrame E isAck s =
     bnd (alloc_frame E s) (\<lambda>(fd, s).
     bnd (on_header SetFlow fd) (\<lambda>fd.
     bnd (on_header SetBody fd) (\<lambda>fd.
     bnd (if isAck then on_header SetHead fd else Ret fd) (\<lambda>fd. Ret (fd, s)))))"

definition writeFinalLocked ::
  "rap_config \<Rightarrow> 'm ConnMuxer \<Rightarrow> bool \<Rightarrow> 'm sys \<Rightarrow> (goerr option \<times> 'm sys) go" where
  "writeFinalLocked E M isAck s =
     (case localSendingFinal s of (first, s) \<Rightarrow>
        if first then
          bnd (flushLocked E M s) (\<lambda>(err, s).
            if err = None then bnd (makeFinalFrame E isAck s) (\<lambda>(fd, s). conn_write M fd s)
            else Ret (err, s))
        else Ret (None, s))"

definition Close :: "rap_config \<Rightarrow> 'm ConnMuxer \<Rightarrow> 'm sys \<Rightarrow> (goerr option \<times> 'm sys) go" where
  "Close E M = lock_cmu (\<lambda>s.
     if localClosed s then Ret (Some ErrClosedPipe, s)
     else lock_wmu (lock_rmu (\<lambda>s.
       if \<not> remoteSentFinal s then
         bnd (writeFinalLocked E M False s) (\<lambda>(_, s). Ret (None, s\<lparr>runstate := runStateWaitFin\<rparr>))
       else
         bnd (writeFinalLocked E M True s) (\<lambda>(_, s).
         bnd (recycleLocked E s) (\<lambda>s. Ret (None, s))))) (s\<lparr>localClosed := True\<rparr>))"

definition closeIfNotHijacked :: "rap_config \<Rightarrow> 'm ConnMuxer \<Rightarrow> 'm sys \<Rightarrow> (goerr option \<times> 'm sys) go" where
  "closeIfNotHijacked E M s = (if hijacked s then Ret (None, s) else Close E M s)"

definition OnRecycle :: "('m \<Rightarrow> 'm go) option \<Rightarrow> 'm sys \<Rightarrow> (unit \<times> 'm sys) go" where
  "OnRecycle f = lock_cmu (\<lambda>s. Ret ((), s\<lparr>onRecycle := f\<rparr>))"

section \<open>Records and takeover\<close>

definition WriteUserRecordType :: "rap_config \<Rightarrow> byte \<Rightarrow> 'm sys \<Rightarrow> (goerr option \<times> 'm sys) go" where
  "WriteUserRecordType E c s =
     (if c < 0x80 then Ret (Some (ErrUnhandledRecordType c), s)
      else bnd (WriteStart E s) (\<lambda>(err, s).
        if err = None then
          bnd (WriteRecordType E (fdw_val s) c) (\<lambda>fd. Ret (None, s\<lparr>fdw := Some fd\<rparr>))
        else Ret (err, s)))"

definition writeResponseDataLocked ::
  "rap_config \<Rightarrow> int \<Rightarrow> i64 \<Rightarrow> kvv \<Rightarrow> 'm sys \<Rightarrow> (goerr option \<times> 'm sys) go" where
  "writeResponseDataLocked E code contentLength hdr s =
     bnd (writeStart E s) (\<lambda>(err, s).
       if err = None then
         bnd (FrameData_WriteResponse E (fdw_val s) code contentLength hdr) (\<lambda>(fd, err).
           Ret (err, s\<lparr>fdw := Some fd\<rparr>))
       else Ret (err, s))"

definition WriteResponseData ::
  "rap_config \<Rightarrow> int \<Rightarrow> i64 \<Rightarrow> kvv \<Rightarrow> 'm sys \<Rightarrow> (goerr option \<times> 'm sys) go" where
  "WriteResponseData E code contentLength hdr = lock_wmu (writeResponseDataLocked E code contentLength hdr)"

text \<open>\<^verbatim>\<open>Hijack\<close>: the error, the \<^verbatim>\<open>net.Conn\<close> returned being the Conn itself.\<close>

definition Hijack :: "rap_config \<Rightarrow> 'm ConnMuxer \<Rightarrow> 'm sys \<Rightarrow> (goerr option \<times> 'm sys) go" where
  "Hijack E M = lock_wmu (\<lambda>s.
     case hijacking s of (first, s) \<Rightarrow>
       if first then
         let s = snd (starting s) in
         bnd (NewFrameDataID E (connID s)) (\<lambda>fd.
         bnd (WriteRecordType E fd RecordTypeHijacked) (\<lambda>fd. writeFrame E M fd s))
       else Ret (Some ErrAlreadyHijacked, s))"

section \<open>Setting deadlines\<close>

definition SetReadDeadline :: "int option \<Rightarrow> 'm sys \<Rightarrow> goerr option \<times> 'm sys" where
  "SetReadDeadline t s =
     (if localSentFinal s then (Some ErrClosedPipe, s)
      else (None, s\<lparr>readDeadline := deadline_set (clock s) (readDeadline s) t\<rparr>))"

definition SetWriteDeadline :: "int option \<Rightarrow> 'm sys \<Rightarrow> goerr option \<times> 'm sys" where
  "SetWriteDeadline t s =
     (if localSentFinal s then (Some ErrClosedPipe, s)
      else (None, s\<lparr>writeDeadline := deadline_set (clock s) (writeDeadline s) t\<rparr>))"

definition SetDeadline :: "int option \<Rightarrow> 'm sys \<Rightarrow> goerr option \<times> 'm sys" where
  "SetDeadline t s =
     (if localSentFinal s then (Some ErrClosedPipe, s)
      else (None, s\<lparr>readDeadline := deadline_set (clock s) (readDeadline s) t,
                    writeDeadline := deadline_set (clock s) (writeDeadline s) t\<rparr>))"

end
