(* ===== verification/Conn_Laws.thy ===== *)
theory Conn_Laws
  imports Conn
begin

text \<open>
  The laws of a Conn. Outcomes are reasoned about with \<open>safe\<close> (no panic, and a postcondition when
  the call returns), which composes along \<^const>\<open>bnd\<close>. What a Conn needs from the muxer behind it is
  the locale \<open>conn_muxer\<close>; under that contract every operation keeps the invariant of a Conn and
  none panics, and what each of them sends is stated frame by frame.
\<close>

section \<open>Outcomes without a panic\<close>

definition safe :: "'a go \<Rightarrow> ('a \<Rightarrow> bool) \<Rightarrow> bool" where
  "safe r Q \<longleftrightarrow> (case r of Ret x \<Rightarrow> Q x | Panics _ \<Rightarrow> False | Blocks \<Rightarrow> True)"

lemma safe_simps [simp]:
  "safe (Ret x) Q \<longleftrightarrow> Q x" "\<not> safe (Panics p) Q" "safe Blocks Q"
  by (simp_all add: safe_def)

lemma safe_bnd: "safe r (\<lambda>x. safe (f x) Q) \<Longrightarrow> safe (bnd r f) Q"
  by (cases r) auto

lemma safe_bndI: "safe r P \<Longrightarrow> (\<And>x. P x \<Longrightarrow> safe (f x) Q) \<Longrightarrow> safe (bnd r f) Q"
  by (cases r) auto

lemma safe_bnd_iff [simp]: "safe (bnd r f) Q \<longleftrightarrow> safe r (\<lambda>x. safe (f x) Q)"
  by (cases r) auto

lemma safe_map_go [simp]: "safe (map_go f r) Q \<longleftrightarrow> safe r (\<lambda>x. Q (f x))"
  by (cases r) auto

lemma safe_mono: "safe r P \<Longrightarrow> (\<And>x. r = Ret x \<Longrightarrow> P x \<Longrightarrow> Q x) \<Longrightarrow> safe r Q"
  by (cases r) auto

lemma safeD: "safe r Q \<Longrightarrow> r = Ret x \<Longrightarrow> Q x"
  by simp

lemma safe_not_Panics: "safe r Q \<Longrightarrow> r \<noteq> Panics p"
  by auto

lemma safe_cases:
  assumes "safe r Q"
  obtains x where "r = Ret x" "Q x" | "r = Blocks"
  using assms by (cases r) auto

section \<open>Kinds of frames\<close>

abbreviation fhdr :: "FrameData \<Rightarrow> header" where
  "fhdr fd \<equiv> hdr_view (fbytes fd)"

definition is_data :: "FrameData \<Rightarrow> bool" where
  "is_data fd \<longleftrightarrow> has_payload (fhdr fd)"

definition is_ack :: "FrameData \<Rightarrow> bool" where
  "is_ack fd \<longleftrightarrow> h_flow (fhdr fd) \<and> \<not> h_body (fhdr fd) \<and> \<not> h_head (fhdr fd)"

definition is_final :: "FrameData \<Rightarrow> bool" where
  "is_final fd \<longleftrightarrow> h_flow (fhdr fd) \<and> h_body (fhdr fd)"

lemma frame_kinds_disjoint:
  "is_data fd \<Longrightarrow> \<not> is_ack fd" "is_data fd \<Longrightarrow> \<not> is_final fd" "is_ack fd \<Longrightarrow> \<not> is_final fd"
  by (auto simp: is_data_def is_ack_def is_final_def has_payload_def)

text \<open>A frame a Conn may put on the wire: well formed, with its ID, and of one of the three kinds.\<close>

definition wire_frame :: "ConnID \<Rightarrow> FrameData \<Rightarrow> bool" where
  "wire_frame i fd \<longleftrightarrow> frame_ok (fbytes fd) \<and> h_id (fhdr fd) = unat i \<and> frame_room fd
     \<and> (is_data fd \<or> is_ack fd \<or> is_final fd) \<and> h_size (fhdr fd) = length (fbytes fd) - 4"

text \<open>The frame being written: not a control frame, and never a payload without a flag for it.\<close>

definition open_room :: "FrameData \<Rightarrow> bool" where
  "open_room fd \<longleftrightarrow> FrameMaxSize \<le> fcap fd \<and> (length (fbytes fd) \<le> FrameMaxSize \<longrightarrow> frame_room fd)"

definition open_frame :: "ConnID \<Rightarrow> FrameData \<Rightarrow> bool" where
  "open_frame i fd \<longleftrightarrow> 4 \<le> length (fbytes fd) \<and> \<not> h_flow (fhdr fd) \<and> h_id (fhdr fd) = unat i \<and> open_room fd
     \<and> (length (fbytes fd) > 4 \<longrightarrow> h_body (fhdr fd) \<or> h_head (fhdr fd))"

text \<open>A frame in the read queue: the muxer only passes on frames with a complete header.\<close>

definition in_frame :: "FrameData \<Rightarrow> bool" where
  "in_frame fd \<longleftrightarrow> 4 \<le> length (fbytes fd) \<and> frame_room fd"

lemma frame_view:
  assumes "4 \<le> length (fbytes fd)"
  shows "fbytes fd = hdr_bytes (fhdr fd) @ drop 4 (fbytes fd)" "hdr_ok (fhdr fd)"
  using hdr_bytes_view [OF assms] by simp_all

lemma view_read:
  assumes "4 \<le> length (fbytes fd)"
  shows "HasFlow (fbytes fd) = Ret (h_flow (fhdr fd))"
    and "HasBodyOrHead (fbytes fd) = Ret (h_body (fhdr fd) \<or> h_head (fhdr fd))"
    and "HasHead (fbytes fd) = Ret (h_head (fhdr fd))"
    and "IsAck (fbytes fd) = Ret (is_ack fd)"
    and "IsFinal (fbytes fd) = Ret (is_final fd)"
    and "HasPayload (fbytes fd) = Ret (is_data fd)"
    and "SizeValue (fbytes fd) = Ret (int (h_size (fhdr fd)))"
    and "NewFrameParser fd = Ret (drop 4 (fbytes fd))"
proof -
  obtain h p where fd: "fbytes fd = hdr_bytes h @ p" and ok: "hdr_ok h" and h: "h = fhdr fd" and p: "p = drop 4 (fbytes fd)"
    using frame_cases [OF assms] by metis
  show "HasFlow (fbytes fd) = Ret (h_flow (fhdr fd))"
    "HasBodyOrHead (fbytes fd) = Ret (h_body (fhdr fd) \<or> h_head (fhdr fd))"
    "HasHead (fbytes fd) = Ret (h_head (fhdr fd))"
    "IsAck (fbytes fd) = Ret (is_ack fd)"
    "IsFinal (fbytes fd) = Ret (is_final fd)"
    "HasPayload (fbytes fd) = Ret (is_data fd)"
    "SizeValue (fbytes fd) = Ret (int (h_size (fhdr fd)))"
    "NewFrameParser fd = Ret (drop 4 (fbytes fd))"
    unfolding is_ack_def is_final_def is_data_def has_payload_def fd using ok
    by (simp_all add: hdr_read hdr_classify NewFrameParser_def Payload_def FrameHeaderSize_def fd slice_from_def)
qed

text \<open>Setting a field of a frame's header in place.\<close>

definition upd_hdr :: "(header \<Rightarrow> header) \<Rightarrow> FrameData \<Rightarrow> FrameData" where
  "upd_hdr f fd = fd\<lparr>fbytes := hdr_bytes (f (fhdr fd)) @ drop 4 (fbytes fd)\<rparr>"

lemma view_write:
  assumes "4 \<le> length (fbytes fd)"
  shows "on_header SetFlow fd = Ret (upd_hdr (\<lambda>h. h\<lparr>h_flow := True\<rparr>) fd)"
    and "on_header SetBody fd = Ret (upd_hdr (\<lambda>h. h\<lparr>h_body := True\<rparr>) fd)"
    and "on_header SetHead fd = Ret (upd_hdr (\<lambda>h. h\<lparr>h_head := True\<rparr>) fd)"
    and "on_header (\<lambda>fh. SetSizeValue fh n) fd = Ret (upd_hdr (\<lambda>h. h\<lparr>h_size := nat (n mod 65536)\<rparr>) fd)"
  using frame_view(1) [OF assms, symmetric] hdr_write [OF frame_view(2) [OF assms], of "drop 4 (fbytes fd)"]
  by (simp_all add: on_header_def upd_hdr_def)

lemma upd_hdr_simps [simp]:
  "fspare (upd_hdr f fd) = fspare fd"
  "4 \<le> length (fbytes fd) \<Longrightarrow> length (fbytes (upd_hdr f fd)) = length (fbytes fd)"
  "4 \<le> length (fbytes fd) \<Longrightarrow> frame_room (upd_hdr f fd) = frame_room fd"
  "hdr_ok (f (fhdr fd)) \<Longrightarrow> fhdr (upd_hdr f fd) = f (fhdr fd)"
  "drop 4 (fbytes (upd_hdr f fd)) = drop 4 (fbytes fd)"
  "4 \<le> length (fbytes fd) \<Longrightarrow> Available (upd_hdr f fd) = Available fd"
  by (auto simp: upd_hdr_def frame_room_def fcap_def Available_def)

lemma open_roomI: "frame_room fd \<Longrightarrow> open_room fd"
  by (simp add: open_room_def frame_room_def)

lemma open_room_exact: "open_room fd \<Longrightarrow> length (fbytes fd) \<le> FrameMaxSize \<Longrightarrow> frame_room fd"
  by (simp add: open_room_def)

lemma open_room_grows: "open_room fd \<Longrightarrow> grows fd fd' \<Longrightarrow> open_room fd'"
  by (auto simp: open_room_def grows_def frame_room_def)

lemma open_room_upd [simp]: "4 \<le> length (fbytes fd) \<Longrightarrow> open_room (upd_hdr f fd) = open_room fd"
  by (simp add: open_room_def) (simp add: upd_hdr_def fcap_def)

lemma hdr_append [simp]: "4 \<le> length (fbytes fd) \<Longrightarrow> fhdr (append_bytes E fd bs) = fhdr fd"
  by (simp, metis append.assoc frame_view hdr_view_bytes)

section \<open>The invariant of a Conn\<close>

definition deadline_ok :: "connDeadline \<Rightarrow> bool" where
  "deadline_ok d \<longleftrightarrow> (case timer d of NoTimer \<Rightarrow> True | Armed _ \<Rightarrow> \<not> cancel d | Fired \<Rightarrow> cancel d)"

text \<open>What holds at every moment, and what holds between the operations.\<close>

definition conn_core :: "rap_config \<Rightarrow> 'm sys \<Rightarrow> bool" where
  "conn_core E s \<longleftrightarrow>
     connID s \<le> MaxConnID E \<and> MaxConnID E \<le> ProtocolMaxConnID \<and> pool_ok (pool s)
     \<and> list_all in_frame (readCh s) \<and> readChClosed s = remoteSentFinal s
     \<and> 0 \<le> sendWindow s \<and> sendWindow s + int (ackCh s) \<le> SendWindowSize E
     \<and> pred_option (open_frame (connID s)) (fdw s) \<and> pred_option frame_room (fdr s)
     \<and> deadline_ok (readDeadline s) \<and> deadline_ok (writeDeadline s)"

definition conn_inv :: "rap_config \<Rightarrow> 'm sys \<Rightarrow> bool" where
  "conn_inv E s \<longleftrightarrow> conn_core E s \<and> localSentFinal s = localClosed s \<and> (localClosed s \<longrightarrow> fdw s = None)
     \<and> \<not> wmu s \<and> \<not> rmu s \<and> \<not> cmu s"

section \<open>The contract of the muxer\<close>

text \<open>
  What a Conn relies on: \<open>sent\<close> is the log of frames the muxer has accepted from it. \<^verbatim>\<open>ConnWrite\<close>
  accepts a well-formed frame or reports that the muxer is closed, and does not panic; \<open>minv\<close> is the
  muxer's own invariant, which is also what the recycle callback needs in order not to panic.
\<close>

locale conn_muxer =
  fixes M :: "'m ConnMuxer" and minv :: "'m \<Rightarrow> bool" and sent :: "'m \<Rightarrow> FrameData list"
  assumes ConnWrite_safe: "minv m \<Longrightarrow> frame_ok (fbytes fd) \<Longrightarrow>
    safe (ConnWrite M k fd m) (\<lambda>(err, m'). minv m' \<and>
      (if err = None then sent m' = sent m @ [fd]
       else sent m' = sent m \<and> err = Some ServerClosedError \<and> ConnAborted M m))"
begin

definition recycle_ok :: "'m sys \<Rightarrow> bool" where
  "recycle_ok s \<longleftrightarrow>
     (\<forall>f. onRecycle s = Some f \<longrightarrow> (\<forall>m. minv m \<longrightarrow> safe (f m) (\<lambda>m'. sent m' = sent m)))"

lemma conn_write_cases:
  assumes "minv (mux s)" and "frame_ok (fbytes fd)"
  obtains (wait) "conn_write M fd s = Blocks"
  | (ok) m t where "conn_write M fd s = Ret (None, s\<lparr>mux := m, tick := t\<rparr>)" "minv m"
      "sent m = sent (mux s) @ [fd]"
  | (closed) m t where "conn_write M fd s = Ret (Some ServerClosedError, s\<lparr>mux := m, tick := t\<rparr>)" "minv m"
      "sent m = sent (mux s)" "ConnAborted M (mux s)"
proof (cases "ConnWrite M (choices s (tick s)) fd (mux s)")
  case (Ret r)
  obtain err m where r: "r = (err, m)" by (cases r)
  have "conn_write M fd s = Ret (err, s\<lparr>mux := m, tick := Suc (tick s)\<rparr>)" by (simp add: conn_write_def Ret r)
  moreover from ConnWrite_safe [OF assms, of "choices s (tick s)"] Ret r
  have "minv m \<and> (if err = None then sent m = sent (mux s) @ [fd]
      else sent m = sent (mux s) \<and> err = Some ServerClosedError \<and> ConnAborted M (mux s))" by simp
  ultimately show thesis
    by (cases err)
      (simp_all add: ok [where m = m and t = "Suc (tick s)"] closed [where m = m and t = "Suc (tick s)"])
next
  case (Panics p)
  with ConnWrite_safe [OF assms, of "choices s (tick s)"] show thesis by simp
next
  case Blocks
  then show thesis using wait by (simp add: conn_write_def)
qed

end

section \<open>Sending one frame\<close>

lemma select_safe: "safe (select ready s) (\<lambda>(c, s'). c \<in> set ready \<and> s' = s\<lparr>tick := Suc (tick s)\<rparr>)"
  by (auto simp: select_def)

lemma free_frame_core:
  "conn_core E s \<Longrightarrow> frame_room fd \<Longrightarrow> conn_core E (free_frame (Some fd) s)"
  by (auto simp: conn_core_def free_frame_def)

lemma free_frame_eq: "free_frame fdo s = s\<lparr>pool := FrameDataFree fdo (pool s)\<rparr>"
  by (simp add: free_frame_def)

lemma starting_eq: "\<exists>r. snd (starting s) = s\<lparr>runstate := r\<rparr>"
proof (cases "runstate s = runStateUnused")
  case True
  then show ?thesis by (auto simp: starting_def)
next
  case False
  then have "snd (starting s) = s\<lparr>runstate := runstate s\<rparr>" by (simp add: starting_def)
  then show ?thesis ..
qed

lemma write_ready_cases:
  "c \<in> set (write_ready M s) \<Longrightarrow>
     c = CaseAck \<and> ackCh s > 0 \<or> c = CaseLocalClosed \<and> localClosed s
     \<or> c = CaseAbort \<and> ConnAborted M (mux s) \<or> c = CaseDeadline \<and> cancel (writeDeadline s)"
  by (auto simp: write_ready_def split: if_splits)

text \<open>
  The fields the send loop touches. The number of frames it may still send (\<open>credit\<close>: the window and
  the acknowledgements waiting to be counted) goes down by one exactly when it hands the frame on.
\<close>

definition credit :: "'m sys \<Rightarrow> int" where
  "credit s = sendWindow s + int (ackCh s)"

definition write_changes :: "'m sys \<Rightarrow> 'm sys \<Rightarrow> bool" where
  "write_changes s s' \<longleftrightarrow>
     connID s' = connID s \<and> onRecycle s' = onRecycle s \<and> readCh s' = readCh s
     \<and> readChClosed s' = readChClosed s \<and> cmu s' = cmu s \<and> localClosed s' = localClosed s
     \<and> localSentFinal s' = localSentFinal s \<and> remoteSentFinal s' = remoteSentFinal s
     \<and> hijacked s' = hijacked s \<and> wmu s' = wmu s \<and> rmu s' = rmu s \<and> fdr s' = fdr s
     \<and> cfp s' = cfp s \<and> readDeadline s' = readDeadline s \<and> writeDeadline s' = writeDeadline s
     \<and> serialNumber s' = serialNumber s \<and> clock s' = clock s \<and> choices s' = choices s"

definition send_changes :: "'m sys \<Rightarrow> 'm sys \<Rightarrow> bool" where
  "send_changes s s' \<longleftrightarrow> write_changes s s' \<and> fdw s' = fdw s"

lemma write_changes_refl [simp]: "write_changes s s" and send_changes_refl [simp]: "send_changes s s"
  by (simp_all add: write_changes_def send_changes_def)

lemma write_changes_trans: "write_changes s s1 \<Longrightarrow> write_changes s1 s2 \<Longrightarrow> write_changes s s2"
  by (simp add: write_changes_def)

lemma send_changes_trans: "send_changes s s1 \<Longrightarrow> send_changes s1 s2 \<Longrightarrow> send_changes s s2"
  by (simp add: send_changes_def write_changes_def)

lemma write_changes_upd [simp]:
  "write_changes s (s'\<lparr>sendWindow := w\<rparr>) = write_changes s s'" "write_changes s (s'\<lparr>ackCh := a\<rparr>) = write_changes s s'"
  "write_changes s (s'\<lparr>tick := t\<rparr>) = write_changes s s'" "write_changes s (s'\<lparr>mux := m\<rparr>) = write_changes s s'"
  "write_changes s (s'\<lparr>pool := p\<rparr>) = write_changes s s'" "write_changes s (s'\<lparr>runstate := r\<rparr>) = write_changes s s'"
  "write_changes s (s'\<lparr>fdw := f\<rparr>) = write_changes s s'" "write_changes (s\<lparr>fdw := f\<rparr>) s' = write_changes s s'"
  "write_changes s (free_frame fdo s') = write_changes s s'"
  by (simp_all add: write_changes_def free_frame_def)

lemma send_changes_upd [simp]:
  "send_changes s (s'\<lparr>sendWindow := w\<rparr>) = send_changes s s'" "send_changes s (s'\<lparr>ackCh := a\<rparr>) = send_changes s s'"
  "send_changes s (s'\<lparr>tick := t\<rparr>) = send_changes s s'" "send_changes s (s'\<lparr>mux := m\<rparr>) = send_changes s s'"
  "send_changes s (s'\<lparr>pool := p\<rparr>) = send_changes s s'" "send_changes s (s'\<lparr>runstate := r\<rparr>) = send_changes s s'"
  "send_changes s (free_frame fdo s') = send_changes s s'"
  by (simp_all add: send_changes_def) (simp_all add: free_frame_def)

lemma core_upd [simp]:
  "conn_core E (s\<lparr>tick := t\<rparr>) = conn_core E s" "conn_core E (s\<lparr>runstate := r\<rparr>) = conn_core E s"
  "conn_core E (s\<lparr>mux := m\<rparr>) = conn_core E s" "conn_core E (s\<lparr>wmu := b\<rparr>) = conn_core E s"
  "conn_core E (s\<lparr>rmu := b\<rparr>) = conn_core E s" "conn_core E (s\<lparr>cmu := b\<rparr>) = conn_core E s"
  "conn_core E (s\<lparr>localClosed := b\<rparr>) = conn_core E s" "conn_core E (s\<lparr>localSentFinal := b\<rparr>) = conn_core E s"
  "conn_core E (s\<lparr>hijacked := b\<rparr>) = conn_core E s" "conn_core E (s\<lparr>onRecycle := f\<rparr>) = conn_core E s"
  "conn_core E (s\<lparr>cfp := fp\<rparr>) = conn_core E s"
  by (simp_all add: conn_core_def)

lemma consumeAck_core:
  assumes "conn_core E s" and "ackCh s > 0"
  shows "\<exists>w. consumeAck E (s\<lparr>ackCh := ackCh s - 1\<rparr>) = Ret (s\<lparr>ackCh := ackCh s - 1, sendWindow := w\<rparr>)
    \<and> conn_core E (s\<lparr>ackCh := ackCh s - 1, sendWindow := w\<rparr>) \<and> w = sendWindow s + 1"
  using assms by (auto simp: consumeAck_def Let_def conn_core_def)

text \<open>The exits of the send loop, one by one.\<close>

lemma write_loop_send:
  assumes "write_ready M s = []" and "\<not> remoteSentFinal s" and "sendWindow s > 0"
  shows "write_loop E M fd s = conn_write M fd (snd (starting (s\<lparr>sendWindow := sendWindow s - 1\<rparr>)))"
  using assms by (simp add: write_loop.simps [of E M fd s])

lemma write_loop_wait:
  assumes "write_ready M s = []" and "\<not> remoteSentFinal s" and "sendWindow s \<le> 0"
  shows "write_loop E M fd s = Blocks"
  using assms by (simp add: write_loop.simps [of E M fd s])

lemma write_loop_eof:
  assumes "write_ready M s = []" and "remoteSentFinal s"
  shows "write_loop E M fd s = Ret (Some ErrEOF, free_frame (Some fd) s)"
  using assms by (simp add: write_loop.simps [of E M fd s])

definition fail_code :: "conn_case \<Rightarrow> goerr" where
  "fail_code c = (case c of CaseAbort \<Rightarrow> ServerClosedError | CaseDeadline \<Rightarrow> TimeoutError | _ \<Rightarrow> ErrClosedPipe)"

lemma write_loop_pick:
  assumes "select (write_ready M s) s = Ret (c, s1)"
  shows "write_loop E M fd s =
    (if c = CaseAck then bnd (consumeAck E (s1\<lparr>ackCh := ackCh s1 - 1\<rparr>)) (write_loop E M fd)
     else Ret (Some (fail_code c), free_frame (Some fd) s1))"
proof -
  have "write_ready M s \<noteq> []" using assms by (simp add: select_Ret)
  then show ?thesis
    using assms by (cases c) (simp_all add: write_loop.simps [of E M fd s] fail_code_def)
qed

lemma core_windows:
  "conn_core E s \<Longrightarrow> sendWindow s > 0 \<Longrightarrow> conn_core E (s\<lparr>sendWindow := sendWindow s - 1\<rparr>)"
  by (auto simp: conn_core_def)

context conn_muxer
begin

definition send_post :: "rap_config \<Rightarrow> FrameData \<Rightarrow> 'm sys \<Rightarrow> goerr option \<times> 'm sys \<Rightarrow> bool" where
  "send_post E fd s = (\<lambda>(err, s'). conn_core E s' \<and> send_changes s s' \<and> minv (mux s') \<and>
     (if err = None then sent (mux s') = sent (mux s) @ [fd] \<and> credit s' = credit s - 1
        \<and> \<not> localClosed s \<and> \<not> remoteSentFinal s
      else sent (mux s') = sent (mux s) \<and> credit s' \<le> credit s
        \<and> (credit s' = credit s \<or> (\<exists>m. minv m \<and> ConnAborted M m))))"

lemma write_loop_safe:
  assumes "conn_core E s" and "minv (mux s)" and "frame_ok (fbytes fd)" and "frame_room fd"
  shows "safe (write_loop E M fd s) (send_post E fd s)"
  using assms(1,2)
proof (induction "ackCh s" arbitrary: s rule: less_induct)
  case less
  show ?case
  proof (cases "write_ready M s = []")
    case True
    have nc: "\<not> localClosed s" using True by (auto simp: write_ready_def split: if_splits)
    consider "remoteSentFinal s" | "\<not> remoteSentFinal s" "sendWindow s > 0" | "\<not> remoteSentFinal s" "sendWindow s \<le> 0"
      by linarith
    then show ?thesis
    proof cases
      case 1
      then show ?thesis
        using less.prems assms(4) free_frame_core [OF less.prems(1) assms(4)]
        by (simp add: write_loop_eof [OF True] send_post_def credit_def) (simp add: free_frame_def)
    next
      case 2
      let ?s = "s\<lparr>sendWindow := sendWindow s - 1\<rparr>"
      obtain r where r: "snd (starting ?s) = ?s\<lparr>runstate := r\<rparr>" using starting_eq by blast
      have core: "conn_core E ?s" by (rule core_windows [OF less.prems(1) 2(2)])
      have ch: "send_changes s ?s" by simp
      let ?u = "?s\<lparr>runstate := r\<rparr>"
      have pre: "minv (mux ?u)" using less.prems(2) by simp
      show ?thesis
        unfolding write_loop_send [OF True 2] r
        by (rule conn_write_cases [OF pre assms(3)])
          (use core ch nc 2 less.prems(2) in \<open>auto simp add: send_post_def credit_def\<close>)
    next
      case 3
      then show ?thesis by (simp add: write_loop_wait [OF True])
    qed
  next
    case False
    then obtain c where sel: "select (write_ready M s) s = Ret (c, s\<lparr>tick := Suc (tick s)\<rparr>)"
      by (auto simp: select_def)
    let ?t = "s\<lparr>tick := Suc (tick s)\<rparr>"
    show ?thesis
    proof (cases "c = CaseAck")
      case True
      with select_mem [OF sel] have ack: "ackCh s > 0" by (auto dest: write_ready_cases)
      obtain w where w: "consumeAck E (?t\<lparr>ackCh := ackCh ?t - 1\<rparr>) = Ret (?t\<lparr>ackCh := ackCh ?t - 1, sendWindow := w\<rparr>)"
        "conn_core E (?t\<lparr>ackCh := ackCh ?t - 1, sendWindow := w\<rparr>)" "w = sendWindow s + 1"
        using consumeAck_core [of E ?t] less.prems(1) ack by auto
      let ?u = "?t\<lparr>ackCh := ackCh ?t - 1, sendWindow := w\<rparr>"
      have "safe (write_loop E M fd ?u) (send_post E fd ?u)"
        using less.prems(2) ack w(2) by (intro less.hyps) auto
      moreover have "credit ?u = credit s" using ack w(3) by (simp add: credit_def)
      moreover have "send_changes s ?u" by simp
      ultimately have "safe (write_loop E M fd ?u) (send_post E fd s)"
        by (elim safe_mono) (auto simp: send_post_def elim: send_changes_trans [rotated])
      then show ?thesis unfolding write_loop_pick [OF sel] using True w(1) by simp
    next
      case False
      then show ?thesis
        using less.prems assms(4) free_frame_core [of E ?t fd]
        by (simp add: write_loop_pick [OF sel] send_post_def credit_def) (simp add: free_frame_def)
    qed
  qed
qed

end

text \<open>What a frame looks like once \<^verbatim>\<open>writeFrame\<close> has set its size.\<close>

definition sized :: "FrameData \<Rightarrow> FrameData" where
  "sized fd = upd_hdr (\<lambda>h. h\<lparr>h_size := length (fbytes fd) - 4\<rparr>) fd"

lemma frame_ok_view:
  "is_data fd \<Longrightarrow> 4 \<le> length (fbytes fd) \<Longrightarrow> length (fbytes fd) \<le> FrameMaxSize \<Longrightarrow> frame_ok (fbytes fd)"
  by (simp add: frame_ok_def is_data_def)

lemma sized_wire:
  assumes "open_frame i fd" and "h_body (fhdr fd) \<or> h_head (fhdr fd)" and "length (fbytes fd) \<le> FrameMaxSize"
  shows "wire_frame i (sized fd)" and "is_data (sized fd)" and "drop 4 (fbytes (sized fd)) = drop 4 (fbytes fd)"
    and "h_head (fhdr (sized fd)) = h_head (fhdr fd)"
proof -
  have len: "4 \<le> length (fbytes fd)" using assms(1) by (simp add: open_frame_def)
  have "length (fbytes fd) - 4 < 65536" using assms(3) by (simp add: frame_sizes)
  then have h: "fhdr (sized fd) = fhdr fd\<lparr>h_size := length (fbytes fd) - 4\<rparr>"
    unfolding sized_def by (subst upd_hdr_simps(4)) simp_all
  show "drop 4 (fbytes (sized fd)) = drop 4 (fbytes fd)" by (simp add: sized_def)
  show "h_head (fhdr (sized fd)) = h_head (fhdr fd)" by (simp add: h)
  show d: "is_data (sized fd)" using assms(1,2) by (simp add: is_data_def h has_payload_def open_frame_def)
  have "length (fbytes (sized fd)) = length (fbytes fd)" "frame_room (sized fd)"
    using assms(1,3) len by (simp_all add: sized_def open_frame_def open_room_exact)
  then show "wire_frame i (sized fd)"
    using assms d len frame_ok_view [OF d] by (simp add: wire_frame_def h open_frame_def)
qed

lemma writeFrame_eq:
  assumes "open_frame i fd"
  shows "writeFrame E M fd s =
    (if \<not> (h_body (fhdr fd) \<or> h_head (fhdr fd)) then Ret (None, free_frame (Some fd) s)
     else if length (fbytes fd) > FrameMaxSize then Ret (Some ErrFrameTooBig, s)
     else write_loop E M (sized fd) s)"
proof -
  have len: "4 \<le> length (fbytes fd)" "\<not> h_flow (fhdr fd)" using assms by (simp_all add: open_frame_def)
  have blank: "\<not> (h_body (fhdr fd) \<or> h_head (fhdr fd)) \<Longrightarrow> length (fbytes fd) = 4"
    using assms by (auto simp: open_frame_def)
  have "length (fbytes fd) \<le> FrameMaxSize \<Longrightarrow>
      on_header (\<lambda>fh. SetSizeValue fh (int (length (fbytes fd)) - int FrameHeaderSize)) fd = Ret (sized fd)"
  proof -
    assume le: "length (fbytes fd) \<le> FrameMaxSize"
    then have "nat ((int (length (fbytes fd)) - int FrameHeaderSize) mod 65536) = length (fbytes fd) - 4"
      using len(1) by (simp add: frame_sizes nat_diff_distrib)
    then show ?thesis by (simp only: view_write(4) [OF len(1)] sized_def)
  qed
  then show ?thesis
    using len blank by (auto simp: writeFrame_def view_read FrameHeaderSize_def not_less)
qed

section \<open>The write side\<close>

lemma core_fdw:
  "conn_core E s \<Longrightarrow> pred_option (open_frame (connID s)) f \<Longrightarrow> conn_core E (s\<lparr>fdw := f\<rparr>)"
  by (simp add: conn_core_def)

lemma core_fdwD: "conn_core E s \<Longrightarrow> fdw s = Some fd \<Longrightarrow> open_frame (connID s) fd"
  by (simp add: conn_core_def)

lemma core_id: "conn_core E s \<Longrightarrow> connID s \<le> MaxConnID E \<and> MaxConnID E \<le> MuxerConnID"
  by (auto simp: conn_core_def ProtocolMaxConnID_eq MuxerConnID_eq elim: order_trans)

lemma blank_open:
  assumes "blank_frame i fd" and "i \<le> MuxerConnID"
  shows "open_frame i fd" and "4 \<le> length (fbytes fd)" and "fhdr fd = id_hdr i" and "drop 4 (fbytes fd) = []"
proof -
  have "hdr_ok (id_hdr i)" using assms(2) by (simp add: unat_le_MuxerConnID)
  then have v: "hdr_view (hdr_bytes (id_hdr i) @ []) = id_hdr i" by (rule hdr_view_bytes)
  then show "open_frame i fd" "4 \<le> length (fbytes fd)" "fhdr fd = id_hdr i" "drop 4 (fbytes fd) = []"
    using assms(1) by (simp_all add: blank_frame_def open_frame_def open_roomI)
qed

lemma alloc_frame_cases:
  assumes "conn_core E s"
  obtains fd p where "alloc_frame E s = Ret (fd, s\<lparr>pool := p\<rparr>)" "blank_frame (connID s) fd"
    "conn_core E (s\<lparr>pool := p\<rparr>)"
proof -
  have "pool_ok (pool s)" using assms by (simp add: conn_core_def)
  from AllocID_blank [OF this] core_id [OF assms] obtain fd p where
    "FrameDataAllocID E (connID s) (pool s) = Ret (fd, p)" "blank_frame (connID s) fd" "pool_ok p" by metis
  with assms show thesis by (intro that [of fd p]) (simp_all add: alloc_frame_def conn_core_def)
qed

lemma append_open:
  assumes "open_frame i fd"
  shows "open_frame i (append_bytes E (upd_hdr (\<lambda>h. h\<lparr>h_body := True\<rparr>) fd) p)"
proof -
  have len: "4 \<le> length (fbytes fd)" using assms by (simp add: open_frame_def)
  then have "open_room (append_bytes E (upd_hdr (\<lambda>h. h\<lparr>h_body := True\<rparr>) fd) p)"
    using assms by (intro open_room_grows [OF _ grows_append]) (simp add: open_frame_def)
  with len assms show ?thesis by (simp add: open_frame_def del: fbytes_append) (simp add: open_frame_def)
qed

lemma fdw_append_eq:
  assumes "fdw s = Some fd" and "open_frame (connID s) fd"
  shows "fdw_append E p s = Ret (s\<lparr>fdw := Some (append_bytes E (upd_hdr (\<lambda>h. h\<lparr>h_body := True\<rparr>) fd) p)\<rparr>)"
  using assms by (simp add: fdw_append_def fdw_val_def view_write open_frame_def)

lemma writeStart_cases:
  assumes "conn_core E s"
  obtains (fail) e t where "writeStart E s = Ret (Some e, s\<lparr>tick := t\<rparr>)"
    "remoteSentFinal s \<or> localClosed s \<or> cancel (writeDeadline s)"
  | (ok) fd p where "writeStart E s = Ret (None, s\<lparr>pool := p, fdw := Some fd\<rparr>)"
    "conn_core E (s\<lparr>pool := p, fdw := Some fd\<rparr>)" "open_frame (connID s) fd"
    "\<not> remoteSentFinal s" "\<not> localClosed s" "\<not> cancel (writeDeadline s)"
    "fdw s = Some fd \<or> fdw s = None \<and> blank_frame (connID s) fd"
proof (cases "remoteSentFinal s")
  case True
  then have "writeStart E s = Ret (Some ErrEOF, s\<lparr>tick := tick s\<rparr>)" by (simp add: writeStart_def)
  with True fail show thesis by blast
next
  case False
  show thesis
  proof (cases "start_ready s = []")
    case True
    then have op: "\<not> localClosed s" "\<not> cancel (writeDeadline s)" by (auto simp: start_ready_def split: if_splits)
    show thesis
    proof (cases "fdw s")
      case None
      from alloc_frame_cases [OF assms] obtain fd p where
        a: "alloc_frame E s = Ret (fd, s\<lparr>pool := p\<rparr>)" "blank_frame (connID s) fd" "conn_core E (s\<lparr>pool := p\<rparr>)" .
      have o: "open_frame (connID s) fd" using blank_open(1) [OF a(2)] core_id [OF assms] by (auto intro: order_trans)
      then have "conn_core E (s\<lparr>pool := p, fdw := Some fd\<rparr>)" using core_fdw [OF a(3), of "Some fd"] by simp
      moreover have "writeStart E s = Ret (None, s\<lparr>pool := p, fdw := Some fd\<rparr>)"
        using True False None a(1) by (simp add: writeStart_def)
      ultimately show thesis using ok [where fd = fd and p = p] o False op None a(2) by simp
    next
      case (Some fd)
      then have e: "s\<lparr>pool := pool s, fdw := Some fd\<rparr> = s" by simp
      then have "writeStart E s = Ret (None, s\<lparr>pool := pool s, fdw := Some fd\<rparr>)"
        using True False Some by (simp add: writeStart_def)
      then show thesis
        using ok [where fd = fd and p = "pool s"] core_fdwD [OF assms Some] core_fdw [OF assms, of "Some fd"] False op Some
        by simp
    qed
  next
    case ne: False
    then obtain c where "select (start_ready s) s = Ret (c, s\<lparr>tick := Suc (tick s)\<rparr>)" by (auto simp: select_def)
    then have "\<exists>e. writeStart E s = Ret (Some e, s\<lparr>tick := Suc (tick s)\<rparr>)"
      using False ne by (cases c) (simp_all add: writeStart_def)
    moreover have "localClosed s \<or> cancel (writeDeadline s)" using ne by (auto simp: start_ready_def split: if_splits)
    ultimately show thesis using fail by blast
  qed
qed

text \<open>The payload of the frame being written, and the payloads of a sequence of frames.\<close>

definition pend :: "'m sys \<Rightarrow> byte list" where
  "pend s = (case fdw s of None \<Rightarrow> [] | Some fd \<Rightarrow> drop 4 (fbytes fd))"

definition payloads :: "FrameData list \<Rightarrow> byte list" where
  "payloads fs = concat (map (\<lambda>fd. drop 4 (fbytes fd)) fs)"

lemma payloads_simps [simp]:
  "payloads [] = []" "payloads (fd # fs) = drop 4 (fbytes fd) @ payloads fs"
  "payloads (fs @ gs) = payloads fs @ payloads gs"
  by (simp_all add: payloads_def)

lemma pend_upd [simp]:
  "pend (s\<lparr>fdw := None\<rparr>) = []" "pend (s\<lparr>fdw := Some fd\<rparr>) = drop 4 (fbytes fd)"
  "pend (s\<lparr>tick := t\<rparr>) = pend s" "pend (s\<lparr>pool := p\<rparr>) = pend s" "pend (s\<lparr>wmu := b\<rparr>) = pend s"
  "fdw s = None \<Longrightarrow> pend s = []" "fdw s = Some fd \<Longrightarrow> pend s = drop 4 (fbytes fd)"
  by (simp_all add: pend_def)

context conn_muxer
begin

text \<open>
  What a write-side operation leaves behind: the invariant, and on the wire a sequence of
  well-formed data frames of this Conn, each paid for with one credit.
\<close>

definition data_sent :: "'m sys \<Rightarrow> 'm sys \<Rightarrow> FrameData list \<Rightarrow> bool" where
  "data_sent s s' fs \<longleftrightarrow> sent (mux s') = sent (mux s) @ fs
     \<and> list_all (\<lambda>fd. wire_frame (connID s) fd \<and> is_data fd) fs
     \<and> int (length fs) \<le> credit s - credit s'
     \<and> (int (length fs) = credit s - credit s' \<or> (\<exists>m. minv m \<and> ConnAborted M m))
     \<and> (fs \<noteq> [] \<longrightarrow> \<not> localClosed s \<and> \<not> remoteSentFinal s)"

lemma data_sent_trans:
  assumes d: "data_sent s s1 fs" "data_sent s1 s2 gs" and c: "write_changes s s1"
  shows "data_sent s s2 (fs @ gs)"
proof -
  from c have eq: "connID s1 = connID s" "localClosed s1 = localClosed s" "remoteSentFinal s1 = remoteSentFinal s"
    by (simp_all add: write_changes_def)
  from d have "int (length (fs @ gs)) \<le> credit s - credit s2"
    unfolding data_sent_def length_append by linarith
  moreover from d have "int (length (fs @ gs)) = credit s - credit s2 \<or> (\<exists>m. minv m \<and> ConnAborted M m)"
    unfolding data_sent_def length_append by force
  ultimately show ?thesis using d by (simp add: data_sent_def eq) blast
qed

lemma data_sent_upd [simp]:
  "data_sent s (s'\<lparr>fdw := f\<rparr>) fs = data_sent s s' fs" "data_sent (s\<lparr>fdw := f\<rparr>) s' fs = data_sent s s' fs"
  "data_sent s (s'\<lparr>pool := p\<rparr>) fs = data_sent s s' fs" "data_sent s (s'\<lparr>tick := t\<rparr>) fs = data_sent s s' fs"
  "data_sent s (s'\<lparr>wmu := b\<rparr>) fs = data_sent s s' fs" "data_sent (s\<lparr>wmu := b\<rparr>) s' fs = data_sent s s' fs"
  "data_sent s s []"
  by (simp_all add: data_sent_def credit_def)

text \<open>
  \<open>write_post E s s' ok bs\<close>: a write-side operation went from \<open>s\<close> to \<open>s'\<close>, and if it reported success
  (\<open>ok\<close>) then what was waiting in the frame and \<open>bs\<close> after it are now on the wire or in the frame.
\<close>

definition write_post :: "rap_config \<Rightarrow> 'm sys \<Rightarrow> 'm sys \<Rightarrow> bool \<Rightarrow> byte list \<Rightarrow> bool" where
  "write_post E s s' ok bs \<longleftrightarrow> conn_core E s' \<and> write_changes s s' \<and> minv (mux s')
     \<and> (localClosed s \<and> fdw s = None \<longrightarrow> fdw s' = None)
     \<and> (\<exists>fs. data_sent s s' fs \<and> (ok \<longrightarrow> payloads fs @ pend s' = pend s @ bs))"

lemma write_postI:
  "conn_core E s' \<Longrightarrow> write_changes s s' \<Longrightarrow> minv (mux s') \<Longrightarrow> data_sent s s' fs \<Longrightarrow>
   (localClosed s \<and> fdw s = None \<longrightarrow> fdw s' = None) \<Longrightarrow>
   (ok \<Longrightarrow> payloads fs @ pend s' = pend s @ bs) \<Longrightarrow> write_post E s s' ok bs"
  unfolding write_post_def by blast

lemma write_post_refl: "conn_core E s \<Longrightarrow> minv (mux s) \<Longrightarrow> write_post E s s ok []"
  by (rule write_postI [where fs = "[]"]) simp_all

lemma write_post_trans:
  assumes "write_post E s s1 ok1 bs" and "write_post E s1 s2 ok2 cs"
  shows "write_post E s s2 (ok1 \<and> ok2) (bs @ cs)"
proof -
  from assms obtain fs gs where d: "data_sent s s1 fs" "data_sent s1 s2 gs"
    and b: "ok1 \<longrightarrow> payloads fs @ pend s1 = pend s @ bs" "ok2 \<longrightarrow> payloads gs @ pend s2 = pend s1 @ cs"
    unfolding write_post_def by blast
  have c: "write_changes s s1" using assms(1) by (simp add: write_post_def)
  have "payloads (fs @ gs) @ pend s2 = pend s @ bs @ cs" if "ok1 \<and> ok2"
    using that b by (metis append.assoc payloads_simps(3))
  moreover have "localClosed s1 = localClosed s" using c by (simp add: write_changes_def)
  ultimately show ?thesis
    using data_sent_trans [OF d c] write_changes_trans [OF c] assms
    by (intro write_postI [where fs = "fs @ gs"]) (simp_all add: write_post_def)
qed

lemma write_post_weaken: "write_post E s s' ok bs \<Longrightarrow> (ok' \<Longrightarrow> ok) \<Longrightarrow> (ok' \<Longrightarrow> bs' = bs) \<Longrightarrow> write_post E s s' ok' bs'"
  unfolding write_post_def by blast

lemma writeFrame_safe:
  assumes "conn_core E s" and "minv (mux s)" and "open_frame (connID s) fd"
  shows "safe (writeFrame E M fd s) (\<lambda>(err, s'). conn_core E s' \<and> write_changes s s' \<and> minv (mux s') \<and> fdw s' = fdw s
    \<and> (\<exists>fs. data_sent s s' fs \<and> (err = None \<longrightarrow> payloads fs = drop 4 (fbytes fd))))"
proof -
  have room: "length (fbytes fd) \<le> FrameMaxSize \<Longrightarrow> frame_room fd"
    using assms(3) by (simp add: open_frame_def open_room_exact)
  consider "\<not> (h_body (fhdr fd) \<or> h_head (fhdr fd))" | "length (fbytes fd) > FrameMaxSize" "h_body (fhdr fd) \<or> h_head (fhdr fd)"
    | "h_body (fhdr fd) \<or> h_head (fhdr fd)" "length (fbytes fd) \<le> FrameMaxSize" by linarith
  then show ?thesis
  proof cases
    case 1
    then have "drop 4 (fbytes fd) = []" "length (fbytes fd) \<le> FrameMaxSize"
      using assms(3) by (auto simp: open_frame_def frame_sizes)
    with 1 assms free_frame_core [OF assms(1) room] show ?thesis
      unfolding writeFrame_eq [OF assms(3)] by (simp add: exI [of _ "[]"]) (simp add: free_frame_def exI [of _ "[]"])
  next
    case 2
    with assms show ?thesis unfolding writeFrame_eq [OF assms(3)] by (simp add: exI [of _ "[]"])
  next
    case 3
    note w = sized_wire [OF assms(3) 3]
    have "safe (write_loop E M (sized fd) s) (send_post E (sized fd) s)"
      using w(1) by (intro write_loop_safe assms) (simp_all add: wire_frame_def)
    then have "safe (write_loop E M (sized fd) s) (\<lambda>(err, s'). conn_core E s' \<and> write_changes s s' \<and> minv (mux s') \<and> fdw s' = fdw s
      \<and> (\<exists>fs. data_sent s s' fs \<and> (err = None \<longrightarrow> payloads fs = drop 4 (fbytes fd))))"
    proof (rule safe_mono)
      fix x assume "send_post E (sized fd) s x"
      moreover obtain err s' where x: "x = (err, s')" by (cases x)
      ultimately have p: "conn_core E s'" "send_changes s s'" "minv (mux s')"
        "data_sent s s' (if err = None then [sized fd] else [])"
        using w by (auto simp: send_post_def data_sent_def)
      show "case x of (err, s') \<Rightarrow> conn_core E s' \<and> write_changes s s' \<and> minv (mux s') \<and> fdw s' = fdw s
        \<and> (\<exists>fs. data_sent s s' fs \<and> (err = None \<longrightarrow> payloads fs = drop 4 (fbytes fd)))"
        unfolding x case_prod_conv
        by (intro conjI exI [of _ "if err = None then [sized fd] else []"]) (use p w(3) in \<open>simp_all add: send_changes_def\<close>)
    qed
    with 3 show ?thesis unfolding writeFrame_eq [OF assms(3)] by simp
  qed
qed

lemma flushLocked_safe:
  assumes "conn_core E s" and "minv (mux s)"
  shows "safe (flushLocked E M s) (\<lambda>(err, s'). write_post E s s' (err = None) [] \<and> fdw s' = None)"
proof (cases "fdw s")
  case None
  with assms show ?thesis by (simp add: flushLocked_def write_post_refl)
next
  case (Some fd)
  let ?s = "s\<lparr>fdw := None\<rparr>"
  have "safe (writeFrame E M fd ?s) (\<lambda>(err, s'). conn_core E s' \<and> write_changes ?s s' \<and> minv (mux s') \<and> fdw s' = fdw ?s
    \<and> (\<exists>fs. data_sent ?s s' fs \<and> (err = None \<longrightarrow> payloads fs = drop 4 (fbytes fd))))"
    using assms core_fdwD [OF assms(1) Some] by (intro writeFrame_safe) (auto simp: core_fdw)
  then show ?thesis
    unfolding flushLocked_def Some option.case
    by (rule safe_mono) (simp add: write_post_def Some split: prod.splits)
qed

lemma writeStart_safe:
  assumes "conn_core E s" and "minv (mux s)"
  shows "safe (writeStart E s) (\<lambda>(err, s'). write_post E s s' True [] \<and>
     (if err = None then fdw s' \<noteq> None \<and> \<not> localClosed s else fdw s' = fdw s))"
proof (rule writeStart_cases [OF assms(1)])
  fix fd p assume w: "writeStart E s = Ret (None, s\<lparr>pool := p, fdw := Some fd\<rparr>)"
    and c: "conn_core E (s\<lparr>pool := p, fdw := Some fd\<rparr>)" and l: "\<not> localClosed s"
    and f: "fdw s = Some fd \<or> fdw s = None \<and> blank_frame (connID s) fd"
  have "pend s = drop 4 (fbytes fd)"
    using f by (auto simp: blank_frame_def)
  with w c l assms(2) show ?thesis by (simp add: write_postI [where fs = "[]"])
qed (use assms in \<open>simp add: write_postI [where fs = "[]"]\<close>)

lemma fdw_append_safe:
  assumes "conn_core E s" and "minv (mux s)" and "fdw s = Some fd"
  shows "safe (fdw_append E p s) (\<lambda>s'. write_post E s s' True p)"
proof -
  note o = core_fdwD [OF assms(1,3)]
  have "4 \<le> length (fbytes fd)" using o by (simp add: open_frame_def)
  then show ?thesis
    using fdw_append_eq [OF assms(3) o, of E p] assms append_open [OF o, of E p]
    by (simp add: core_fdw write_postI [where fs = "[]"])
qed

end

section \<open>Whole writes\<close>

lemma blank_room: "blank_frame i fd \<Longrightarrow> Available fd > 0"
  by (auto simp: blank_frame_def frame_room_def Available_def frame_sizes)

lemma write_chunks_done:
  "write_chunks E M p n (Some e) s = Some (Ret ((n, Some e), s))"
  "length p \<le> Conn_Available s \<Longrightarrow>
   write_chunks E M p n None s = Some (bnd (fdw_append E p s) (\<lambda>s. Ret ((n + length p, None), s)))"
  by (simp_all add: write_chunks.simps not_less)

context conn_muxer
begin

lemma write_post_then:
  "write_post E s s1 True bs \<Longrightarrow> write_post E s1 s2 ok cs \<Longrightarrow> ds = bs @ cs \<Longrightarrow> write_post E s s2 ok ds"
  using write_post_trans [of E s s1 True bs s2 ok cs] by simp

text \<open>One round of the loop: fill the frame and send it.\<close>

lemma fill_and_flush_safe:
  assumes "conn_core E s" and "minv (mux s)" and "fdw s = Some fd"
  shows "safe (bnd (if m > 0 then fdw_append E (take m p) s else Ret s) (flushLocked E M))
    (\<lambda>(err, s'). write_post E s s' (err = None) (take m p) \<and> fdw s' = None)"
proof -
  have "safe (if m > 0 then fdw_append E (take m p) s else Ret s) (\<lambda>s1. write_post E s s1 True (take m p))"
    using fdw_append_safe [OF assms, of "take m p"] assms(1,2) by (simp add: write_post_refl)
  then have "safe (if m > 0 then fdw_append E (take m p) s else Ret s) (\<lambda>s1. safe (flushLocked E M s1)
      (\<lambda>(err, s'). write_post E s s' (err = None) (take m p) \<and> fdw s' = None))"
  proof (rule safe_mono)
    fix s1 assume w: "write_post E s s1 True (take m p)"
    then have "conn_core E s1" "minv (mux s1)" by (simp_all add: write_post_def)
    from flushLocked_safe [OF this]
    show "safe (flushLocked E M s1) (\<lambda>(err, s'). write_post E s s' (err = None) (take m p) \<and> fdw s' = None)"
      by (rule safe_mono) (auto intro: write_post_then [OF w])
  qed
  then show ?thesis by (rule safe_bnd)
qed

lemma write_chunks_safe:
  assumes "conn_core E s" and "minv (mux s)" and "err = None \<longrightarrow> fdw s \<noteq> None"
  shows "\<exists>g. write_chunks E M p n err s = Some g \<and> safe g (\<lambda>((k, err'), s').
    write_post E s s' (err' = None) p \<and> (err' = None \<longrightarrow> k = n + length p))"
  using assms
proof (induction "2 * length p + (if Conn_Available s = 0 then 1 else 0)" arbitrary: p n err s rule: less_induct)
  case less
  show ?case
  proof (cases err)
    case (Some e)
    have "write_post E s s False p" using write_post_refl [OF less.prems(1,2)] by (rule write_post_weaken) simp_all
    with Some show ?thesis by (simp add: write_chunks_done)
  next
    case None
    then obtain fd where fd: "fdw s = Some fd" using less.prems(3) by auto
    show ?thesis
    proof (cases "length p \<le> Conn_Available s")
      case True
      show ?thesis
        using fdw_append_safe [OF less.prems(1,2) fd, of p] None True
        by (simp add: write_chunks_done)
    next
      case False
      define m where "m = Conn_Available s"
      define r where "r = bnd (if m > 0 then fdw_append E (take m p) s else Ret s) (flushLocked E M)"
      have r: "safe r (\<lambda>(err, s'). write_post E s s' (err = None) (take m p) \<and> fdw s' = None)"
        unfolding r_def by (rule fill_and_flush_safe [OF less.prems(1,2) fd])
      have unf: "write_chunks E M p n None s = (case r of
           Ret (err, s) \<Rightarrow>
             if err = None then
               (case writeStart E s of
                  Ret (err, s) \<Rightarrow> write_chunks E M (drop m p) (n + m) err s
                | Panics x \<Rightarrow> Some (Panics x)
                | Blocks \<Rightarrow> Some Blocks)
             else Some (Ret ((n, err), s))
         | Panics x \<Rightarrow> Some (Panics x)
         | Blocks \<Rightarrow> Some Blocks)"
        using False unfolding r_def m_def not_le
        by (subst write_chunks.simps) (simp only: simp_thms if_True Let_def)
      from r show ?thesis
      proof (cases rule: safe_cases)
        case (1 x)
        obtain err1 s1 where x: "x = (err1, s1)" by (cases x)
        with 1 have w: "write_post E s s1 (err1 = None) (take m p)" and f: "fdw s1 = None" by simp_all
        then have c1: "conn_core E s1" "minv (mux s1)" by (simp_all add: write_post_def)
        show ?thesis
        proof (cases err1)
          case (Some e)
          then have "write_post E s s1 False p" using w by (rule_tac write_post_weaken) auto
          with None Some unf 1 x show ?thesis by simp
        next
          case N1: None
          show ?thesis
          proof (rule writeStart_cases [OF c1(1)])
            fix e t assume ws: "writeStart E s1 = Ret (Some e, s1\<lparr>tick := t\<rparr>)"
            have "write_post E s1 (s1\<lparr>tick := t\<rparr>) True []" using c1 by (simp add: write_postI [where fs = "[]"])
            from write_post_trans [OF w this] have "write_post E s (s1\<lparr>tick := t\<rparr>) False p"
              by (rule write_post_weaken) simp_all
            with None N1 unf 1 x ws show ?thesis by (simp add: write_chunks_done)
          next
            fix fd' q assume ws: "writeStart E s1 = Ret (None, s1\<lparr>pool := q, fdw := Some fd'\<rparr>)"
              and lc: "\<not> localClosed s1" and core: "conn_core E (s1\<lparr>pool := q, fdw := Some fd'\<rparr>)"
              and b: "fdw s1 = Some fd' \<or> fdw s1 = None \<and> blank_frame (connID s1) fd'"
            let ?s2 = "s1\<lparr>pool := q, fdw := Some fd'\<rparr>"
            have av: "Conn_Available ?s2 > 0" "drop 4 (fbytes fd') = []"
              using b f blank_room [of "connID s1" fd'] by (auto simp: Conn_Available_def fdw_val_def blank_frame_def)
            have dec: "2 * length (drop m p) + (if Conn_Available ?s2 = 0 then 1 else 0)
                < 2 * length p + (if Conn_Available s = 0 then 1 else 0)"
              using av(1) False by (auto simp: m_def)
            have "write_post E s1 ?s2 True []" using core c1 f lc av(2) by (simp add: write_postI [where fs = "[]"])
            from write_post_trans [OF w this] have w2: "write_post E s ?s2 True (take m p)" using N1 by simp
            have "\<exists>g. write_chunks E M (drop m p) (n + m) None ?s2 = Some g \<and> safe g (\<lambda>((k, err'), s').
                write_post E ?s2 s' (err' = None) (drop m p) \<and> (err' = None \<longrightarrow> k = n + m + length (drop m p)))"
              using core c1(2) by (intro less.hyps [OF dec]) simp_all
            then obtain g where g: "write_chunks E M (drop m p) (n + m) None ?s2 = Some g"
              and sg: "safe g (\<lambda>((k, err'), s').
                write_post E ?s2 s' (err' = None) (drop m p) \<and> (err' = None \<longrightarrow> k = n + m + length (drop m p)))"
              by blast
            have "safe g (\<lambda>((k, err'), s'). write_post E s s' (err' = None) p \<and> (err' = None \<longrightarrow> k = n + length p))"
              using sg by (rule safe_mono)
                (use False in \<open>auto simp: not_le m_def intro: write_post_then [OF w2]\<close>)
            with None N1 unf 1 x ws g show ?thesis by simp
          qed
        qed
      next
        case 2
        with None unf show ?thesis by simp
      qed
    qed
  qed
qed

end

section \<open>Under the locks\<close>

lemma lock_wmu_safe:
  "\<not> wmu s \<Longrightarrow> safe (f (s\<lparr>wmu := True\<rparr>)) (\<lambda>(x, s'). Q x (s'\<lparr>wmu := False\<rparr>)) \<Longrightarrow>
   safe (lock_wmu f s) (\<lambda>(x, s'). Q x s')"
  unfolding lock_wmu_def by simp (erule safe_mono, simp split: prod.splits)

lemma lock_rmu_safe:
  "\<not> rmu s \<Longrightarrow> safe (f (s\<lparr>rmu := True\<rparr>)) (\<lambda>(x, s'). Q x (s'\<lparr>rmu := False\<rparr>)) \<Longrightarrow>
   safe (lock_rmu f s) (\<lambda>(x, s'). Q x s')"
  unfolding lock_rmu_def by simp (erule safe_mono, simp split: prod.splits)

lemma lock_cmu_safe:
  "\<not> cmu s \<Longrightarrow> safe (f (s\<lparr>cmu := True\<rparr>)) (\<lambda>(x, s'). Q x (s'\<lparr>cmu := False\<rparr>)) \<Longrightarrow>
   safe (lock_cmu f s) (\<lambda>(x, s'). Q x s')"
  unfolding lock_cmu_def by simp (erule safe_mono, simp split: prod.splits)

lemma inv_core: "conn_inv E s \<Longrightarrow> conn_core E s"
  by (simp add: conn_inv_def)

context conn_muxer
begin

text \<open>An operation of the write side, as its caller sees it.\<close>

definition user_post :: "rap_config \<Rightarrow> 'm sys \<Rightarrow> 'm sys \<Rightarrow> bool \<Rightarrow> byte list \<Rightarrow> bool" where
  "user_post E s s' ok bs \<longleftrightarrow> conn_inv E s' \<and> write_post E s s' ok bs"

lemma user_postI: "conn_inv E s \<Longrightarrow> write_post E s s' ok bs \<Longrightarrow> user_post E s s' ok bs"
  by (auto simp: user_post_def conn_inv_def write_post_def write_changes_def)

lemma unlock_w:
  assumes "conn_inv E s" and "write_post E (s\<lparr>wmu := True\<rparr>) s' ok bs"
  shows "user_post E s (s'\<lparr>wmu := False\<rparr>) ok bs"
proof -
  have "write_changes s (s'\<lparr>wmu := False\<rparr>)"
    using assms by (simp add: write_post_def write_changes_def conn_inv_def)
  then have "write_post E s (s'\<lparr>wmu := False\<rparr>) ok bs"
    using assms(2) by (auto simp: write_post_def)
  then show ?thesis by (rule user_postI [OF assms(1)])
qed

lemma locked_write:
  assumes "conn_inv E s" and "minv (mux s)"
    and "\<And>t. conn_core E t \<Longrightarrow> minv (mux t) \<Longrightarrow> safe (f t) (\<lambda>(x, t'). write_post E t t' (ok x) (bs x) \<and> R x (fdw t'))"
  shows "safe (lock_wmu f s) (\<lambda>(x, s'). user_post E s s' (ok x) (bs x) \<and> R x (fdw s'))"
proof (rule lock_wmu_safe)
  show "\<not> wmu s" using assms(1) by (simp add: conn_inv_def)
  have "safe (f (s\<lparr>wmu := True\<rparr>)) (\<lambda>(x, t'). write_post E (s\<lparr>wmu := True\<rparr>) t' (ok x) (bs x) \<and> R x (fdw t'))"
    using assms(1,2) by (intro assms(3)) (simp_all add: conn_inv_def)
  then show "safe (f (s\<lparr>wmu := True\<rparr>)) (\<lambda>(x, s'). user_post E s (s'\<lparr>wmu := False\<rparr>) (ok x) (bs x) \<and> R x (fdw (s'\<lparr>wmu := False\<rparr>)))"
    by (rule safe_mono) (use unlock_w [OF assms(1)] in \<open>auto split: prod.splits\<close>)
qed

lemma conn_write_bytes_safe:
  assumes "conn_core E s" and "minv (mux s)"
  shows "safe (conn_write_bytes E M p s) (\<lambda>((n, err), s'). write_post E s s' (err = None) p \<and> (err = None \<longrightarrow> n = length p))"
  unfolding conn_write_bytes_def
proof (rule safe_bnd, rule safe_mono [OF writeStart_safe [OF assms]])
  fix x :: "goerr option \<times> 'm sys" assume a: "case x of (err, s') \<Rightarrow> write_post E s s' True [] \<and>
     (if err = None then fdw s' \<noteq> None \<and> \<not> localClosed s else fdw s' = fdw s)"
  obtain err :: "goerr option" and s1 where x: "x = (err, s1)" by (cases x)
  with a have w: "write_post E s s1 True []" and f: "err = None \<longrightarrow> fdw s1 \<noteq> None" by (auto split: if_splits)
  then have "conn_core E s1" "minv (mux s1)" by (simp_all add: write_post_def)
  from write_chunks_safe [OF this f, of p 0] obtain g where "write_chunks E M p 0 err s1 = Some g"
    and "safe g (\<lambda>((k, err'), s'). write_post E s1 s' (err' = None) p \<and> (err' = None \<longrightarrow> k = 0 + length p))" by blast
  then show "safe (case x of (err, s) \<Rightarrow> run_loop (write_chunks E M p 0 err s))
      (\<lambda>((n, err), s'). write_post E s s' (err = None) p \<and> (err = None \<longrightarrow> n = length p))"
    by (simp add: x run_loop_def) (erule safe_mono, auto intro: write_post_then [OF w])
qed

text \<open>Continuing with \<^verbatim>\<open>flushLocked\<close> after a step that may have failed.\<close>

lemma then_flush:
  assumes "write_post E s s1 (err = None) bs"
  shows "safe (if err = None then flushLocked E M s1 else Ret (err, s1)) (\<lambda>(err', s'). write_post E s s' (err' = None) bs
    \<and> (err' = None \<longrightarrow> fdw s' = None))"
proof (cases err)
  case None
  have "conn_core E s1" "minv (mux s1)" using assms by (simp_all add: write_post_def)
  from flushLocked_safe [OF this] None show ?thesis
    by (simp) (erule safe_mono, use assms None in \<open>auto intro: write_post_then\<close>)
next
  case (Some e)
  with assms show ?thesis by simp
qed

lemma Conn_Write_safe:
  assumes "conn_inv E s" and "minv (mux s)"
  shows "safe (Conn_Write E M p s) (\<lambda>((n, err), s'). user_post E s s' (err = None) p
    \<and> (err = None \<longrightarrow> n = length p \<and> fdw s' = None))"
proof -
  have "safe (Conn_Write E M p s) (\<lambda>(x, s'). user_post E s s' (snd x = None) p
      \<and> (snd x = None \<longrightarrow> fst x = length p \<and> fdw s' = None))"
    unfolding Conn_Write_def
  proof (rule locked_write [OF assms, where ok = "\<lambda>x. snd x = None" and bs = "\<lambda>_. p"
        and R = "\<lambda>x f. snd x = None \<longrightarrow> fst x = length p \<and> f = None"], rule safe_bnd)
    fix t assume t: "conn_core E (t :: 'm sys)" "minv (mux t)"
    show "safe (conn_write_bytes E M p t) (\<lambda>x. safe ((\<lambda>((n, err), s). if err = None
         then bnd (flushLocked E M s) (\<lambda>(err, s). Ret ((if err \<noteq> None then 0 else n, err), s))
         else Ret ((n, err), s)) x) (\<lambda>(x, t'). write_post E t t' (snd x = None) p
           \<and> (snd x = None \<longrightarrow> fst x = length p \<and> fdw t' = None)))"
      by (rule safe_mono [OF conn_write_bytes_safe [OF t]], unfold split_paired_all case_prod_conv)
        (use then_flush in \<open>force elim!: safe_mono split: if_splits\<close>)
  qed
  then show ?thesis by (rule safe_mono) auto
qed

end

lemma on_header_open:
  assumes "open_frame i fd" and "on_header SetHead fd = Ret fd1" and "grows fd1 fd2"
  shows "open_frame i fd2"
proof -
  have len: "4 \<le> length (fbytes fd)" using assms(1) by (simp add: open_frame_def)
  have fd1: "fd1 = upd_hdr (\<lambda>h. h\<lparr>h_head := True\<rparr>) fd" using assms(2) len by (simp add: view_write)
  have h1: "fhdr fd1 = fhdr fd\<lparr>h_head := True\<rparr>" unfolding fd1 by (subst upd_hdr_simps(4)) simp_all
  from assms(3) obtain q where q: "fbytes fd2 = fbytes fd1 @ q" by (auto simp: grows_def)
  have len1: "4 \<le> length (fbytes fd1)" using len by (simp add: fd1)
  have "fhdr fd2 = fhdr fd1"
    by (metis append.assoc frame_view [OF len1] hdr_view_bytes q)
  moreover have "open_room fd2"
    using assms(1) len by (intro open_room_grows [OF _ assms(3)]) (simp add: fd1 open_frame_def)
  ultimately show ?thesis using assms(1) len1 q h1 by (simp add: open_frame_def)
qed

lemma WriteRecordType_open:
  assumes "open_frame i fd"
  shows "\<exists>fd'. WriteRecordType E fd rt = Ret fd' \<and> open_frame i fd'"
proof -
  have "4 \<le> length (fbytes fd)" using assms by (simp add: open_frame_def)
  then obtain fd1 where h: "on_header SetHead fd = Ret fd1" by (simp add: view_write)
  have "open_frame i (append_bytes E fd1 [rt])" by (rule on_header_open [OF assms h]) simp
  then show ?thesis by (simp add: WriteRecordType_def h)
qed

lemma WriteResponse_open:
  assumes "open_frame i fd"
  shows "\<exists>fd' err. FrameData_WriteResponse E fd code cl hdr = Ret (fd', err) \<and> open_frame i fd'"
proof -
  have "4 \<le> length (fbytes fd)" using assms by (simp add: open_frame_def)
  then obtain fd1 where h: "on_header SetHead fd = Ret fd1" by (simp add: view_write)
  let ?fd2 = "append_bytes E fd1 [RecordTypeHTTPResponse]"
  let ?fd3 = "write_entries E (fst (WriteLen E ?fd2 code)) hdr"
  have "grows fd1 ?fd3"
    by (rule grows_trans [OF grows_append grows_trans [OF grows_WriteLen grows_write_entries]])
  then have "grows fd1 (WriteInt64 E (WriteStringNull E ?fd3) cl)"
    unfolding WriteInt64_def WriteStringNull_def Let_def
    by (rule grows_trans [OF _ grows_trans [OF grows_append grows_WriteUint64]])
  from on_header_open [OF assms h this] show ?thesis
    by (simp add: FrameData_WriteResponse_def WriteRecordType_def h Let_def)
qed

context conn_muxer
begin

lemma Flush_safe:
  assumes "conn_inv E s" and "minv (mux s)"
  shows "safe (Flush E M s) (\<lambda>(err, s'). user_post E s s' (err = None) [] \<and> True)"
  unfolding Flush_def
  by (rule locked_write [OF assms, where ok = "\<lambda>err. err = None" and bs = "\<lambda>_. []" and R = "\<lambda>_ _. True"])
    (rule safe_mono [OF flushLocked_safe], auto)

lemma WriteStart_safe:
  assumes "conn_inv E s" and "minv (mux s)"
  shows "safe (WriteStart E s) (\<lambda>(err, s'). user_post E s s' True [] \<and> True)"
  unfolding WriteStart_def
  by (rule locked_write [OF assms, where ok = "\<lambda>_. True" and bs = "\<lambda>_. []" and R = "\<lambda>_ _. True"])
    (rule safe_mono [OF writeStart_safe], auto)

text \<open>A step that runs on the frame in \<^verbatim>\<open>fdw\<close> once \<^verbatim>\<open>writeStart\<close> has succeeded.\<close>

lemma after_writeStart:
  assumes "conn_core E s" and "minv (mux s)"
    and "\<And>s1 fd. conn_core E s1 \<Longrightarrow> minv (mux s1) \<Longrightarrow> fdw s1 = Some fd \<Longrightarrow> write_post E s s1 True [] \<Longrightarrow> safe (f s1) Q"
    and "\<And>s1 e. write_post E s s1 True [] \<Longrightarrow> safe (g (Some e) s1) Q"
  shows "safe (bnd (writeStart E s) (\<lambda>(err, s). if err = None then f s else g err s)) Q"
proof (rule safe_bndI [OF writeStart_safe [OF assms(1,2)]])
  fix x :: "goerr option \<times> 'm sys"
  obtain err s1 where x: "x = (err, s1)" by (cases x)
  assume "case x of (err, s') \<Rightarrow> write_post E s s' True [] \<and>
     (if err = None then fdw s' \<noteq> None \<and> \<not> localClosed s else fdw s' = fdw s)"
  with x have w: "write_post E s s1 True []" and f: "err = None \<longrightarrow> fdw s1 \<noteq> None" by (auto split: if_splits)
  then have "conn_core E s1" "minv (mux s1)" by (simp_all add: write_post_def)
  with w f assms(3,4) show "safe (case x of (err, s) \<Rightarrow> if err = None then f s else g err s) Q"
    by (cases err) (auto simp: x)
qed

lemma write_post_fdw:
  assumes "conn_core E s" and "minv (mux s)" and "fdw s = Some fd" and "open_frame (connID s) fd'"
  shows "write_post E s (s\<lparr>fdw := Some fd'\<rparr>) False bs"
  using assms by (intro write_postI [where fs = "[]"]) (simp_all add: core_fdw)

lemma writeResponseDataLocked_safe:
  assumes "conn_core E s" and "minv (mux s)"
  shows "safe (writeResponseDataLocked E code cl hdr s) (\<lambda>(err, s'). write_post E s s' False [] \<and> True)"
  unfolding writeResponseDataLocked_def
proof (rule after_writeStart [OF assms, where g = "\<lambda>e s. Ret (e, s)"])
  fix s1 fd assume s1: "conn_core E s1" "minv (mux s1)" "fdw s1 = Some fd" and w: "write_post E s s1 True []"
  from WriteResponse_open [OF core_fdwD [OF s1(1,3)], of E code cl hdr] obtain fd' err where
    "FrameData_WriteResponse E fd code cl hdr = Ret (fd', err)" "open_frame (connID s1) fd'" by blast
  moreover from write_post_fdw [OF s1 this(2), of "[]"] have "write_post E s (s1\<lparr>fdw := Some fd'\<rparr>) False []"
    by (rule write_post_then [OF w]) simp
  ultimately show "safe (bnd (FrameData_WriteResponse E (fdw_val s1) code cl hdr)
      (\<lambda>(fd, err). Ret (err, s1\<lparr>fdw := Some fd\<rparr>))) (\<lambda>(err, s'). write_post E s s' False [] \<and> True)"
    using s1(3) by (simp add: fdw_val_def)
qed (auto elim: write_post_weaken)

lemma WriteResponseData_safe:
  assumes "conn_inv E s" and "minv (mux s)"
  shows "safe (WriteResponseData E code cl hdr s) (\<lambda>(err, s'). user_post E s s' False [] \<and> True)"
  unfolding WriteResponseData_def
  by (rule locked_write [OF assms, where ok = "\<lambda>_. False" and bs = "\<lambda>_. []" and R = "\<lambda>_ _. True"])
    (rule writeResponseDataLocked_safe)

lemma readFromHelperLocked_safe:
  assumes "conn_core E s" and "minv (mux s)"
  shows "safe (readFromHelperLocked E M r s) (\<lambda>((n, err, r'), s'). write_post E s s' False [])"
  unfolding readFromHelperLocked_def
proof (rule after_writeStart [OF assms, where g = "\<lambda>e s. Ret ((0, e, r), s)"])
  fix s1 fd assume s1: "conn_core E s1" "minv (mux s1)" "fdw s1 = Some fd" and w: "write_post E s s1 True []"
  obtain bs err r' where b: "Body_Read r (Conn_Available s1) = (bs, err, r')" by (metis surj_pair)
  have "safe (bnd (fdw_append E bs s1) (flushLocked E M)) (\<lambda>(err, s'). write_post E s1 s' (err = None) bs \<and> fdw s' = None)"
    using fill_and_flush_safe [OF s1, of 1 "bs"] fill_and_flush_safe [OF s1, of "length bs" bs]
    by (cases bs) auto
  then have "safe (bnd (fdw_append E bs s1) (\<lambda>s. bnd (flushLocked E M s) (\<lambda>(flushErr, s).
      Ret ((length bs, if err = None then flushErr else err, r'), s)))) (\<lambda>((n, err, r'), s'). write_post E s s' False [])"
    by simp (erule safe_mono, erule safe_mono, auto intro: write_post_weaken [OF write_post_then [OF w _ refl]])
  with w show "safe (case Body_Read r (Conn_Available s1) of (bs, err, r) \<Rightarrow>
      if bs \<noteq> [] then bnd (fdw_append E bs s1) (\<lambda>s. bnd (flushLocked E M s) (\<lambda>(flushErr, s).
          Ret ((length bs, if err = None then flushErr else err, r), s)))
      else Ret ((0, err, r), s1)) (\<lambda>((n, err, r'), s'). write_post E s s' False [])"
    by (auto simp: b elim: write_post_weaken)
qed (auto elim: write_post_weaken)

end

text \<open>A loop of \<^verbatim>\<open>ReadFrom\<close> or \<^verbatim>\<open>WriteTo\<close> keeps what every round of it keeps.\<close>

lemma readFrom_loop_keeps:
  assumes "readFrom_loop helper r n s = Some g"
  shows "(\<forall>r t. P t \<longrightarrow> safe (helper r t) (\<lambda>((n, err, r'), t'). P t')) \<longrightarrow> P s \<longrightarrow> safe g (\<lambda>(x, s'). P s')"
proof (rule readFrom_loop.raw_induct [OF _ assms], intro impI)
  fix loop :: "(body \<Rightarrow> 'a sys \<Rightarrow> ((nat \<times> goerr option \<times> body) \<times> 'a sys) go) \<Rightarrow> body \<Rightarrow> nat \<Rightarrow> 'a sys
     \<Rightarrow> ((nat \<times> goerr option) \<times> 'a sys) go option"
  fix helper :: "body \<Rightarrow> 'a sys \<Rightarrow> ((nat \<times> goerr option \<times> body) \<times> 'a sys) go" and r n s g
  assume IH: "\<And>helper r n s y. loop helper r n s = Some y \<Longrightarrow>
      (\<forall>r t. P t \<longrightarrow> safe (helper r t) (\<lambda>((n, err, r'), t'). P t')) \<longrightarrow> P s \<longrightarrow> safe y (\<lambda>(x, s'). P s')"
    and g: "(case helper r s of
        Ret ((m, err, r), s) \<Rightarrow>
          (case err of
             None \<Rightarrow> loop helper r (n + m) s
           | Some e \<Rightarrow> Some (Ret ((n + m, if e = ErrEOF then None else Some e), s)))
      | Panics p \<Rightarrow> Some (Panics p)
      | Blocks \<Rightarrow> Some Blocks) = Some g"
    and h: "\<forall>r t. P t \<longrightarrow> safe (helper r t) (\<lambda>((n, err, r'), t'). P t')" and s: "P s"
  from h s have "safe (helper r s) (\<lambda>((n, err, r'), t'). P t')" by blast
  then show "safe g (\<lambda>(x, s'). P s')"
  proof (cases rule: safe_cases)
    case (1 x)
    obtain m err r' t where x: "x = ((m, err, r'), t)" by (metis surj_pair)
    with 1 have t: "P t" by simp
    show ?thesis
    proof (cases err)
      case None
      with 1 x g have "loop helper r' (n + m) t = Some g" by simp
      from IH [OF this] h t show ?thesis by blast
    next
      case (Some e)
      with 1 x g t show ?thesis by auto
    qed
  next
    case 2
    with g show ?thesis by auto
  qed
qed

lemma writeTo_loop_keeps:
  assumes "writeTo_loop E M wr w n s = Some g"
  shows "(\<forall>w t. P t \<longrightarrow> safe (writeToHelper E M wr w t) (\<lambda>((w', n, err), t'). P t')) \<longrightarrow> P s \<longrightarrow> safe g (\<lambda>(x, s'). P s')"
proof (rule writeTo_loop.raw_induct [OF _ assms], intro impI)
  fix loop :: "rap_config \<Rightarrow> 'b ConnMuxer \<Rightarrow> 'c writer \<Rightarrow> 'c \<Rightarrow> nat \<Rightarrow> 'b sys
     \<Rightarrow> (('c \<times> nat \<times> goerr option) \<times> 'b sys) go option"
  fix E M wr w n s g
  assume IH: "\<And>E M wr w n s y. loop E M wr w n s = Some y \<Longrightarrow>
      (\<forall>w t. P t \<longrightarrow> safe (writeToHelper E M wr w t) (\<lambda>((w', n, err), t'). P t')) \<longrightarrow> P s \<longrightarrow> safe y (\<lambda>(x, s'). P s')"
    and g: "(case writeToHelper E M wr w s of
        Ret ((w, m, err), s) \<Rightarrow>
          (case err of
             None \<Rightarrow> loop E M wr w (n + m) s
           | Some e \<Rightarrow> Some (Ret ((w, n + m, if e = ErrEOF then None else Some e), s)))
      | Panics p \<Rightarrow> Some (Panics p)
      | Blocks \<Rightarrow> Some Blocks) = Some g"
    and h: "\<forall>w t. P t \<longrightarrow> safe (writeToHelper E M wr w t) (\<lambda>((w', n, err), t'). P t')" and s: "P s"
  from h s have "safe (writeToHelper E M wr w s) (\<lambda>((w', n, err), t'). P t')" by blast
  then show "safe g (\<lambda>(x, s'). P s')"
  proof (cases rule: safe_cases)
    case (1 x)
    obtain w' m err t where x: "x = ((w', m, err), t)" by (metis surj_pair)
    with 1 have t: "P t" by simp
    show ?thesis
    proof (cases err)
      case None
      with 1 x g have "loop E M wr w' (n + m) t = Some g" by simp
      from IH [OF this] h t show ?thesis by blast
    next
      case (Some e)
      with 1 x g t show ?thesis by auto
    qed
  next
    case 2
    with g show ?thesis by auto
  qed
qed

lemma run_loop_safe: "(\<And>g. r = Some g \<Longrightarrow> safe g Q) \<Longrightarrow> safe (run_loop r) Q"
  by (cases r) (auto simp: run_loop_def)

context conn_muxer
begin

lemma readFromHelper_safe:
  assumes "conn_inv E s" and "minv (mux s)"
  shows "safe (readFromHelper E M r s) (\<lambda>(x, s'). user_post E s s' False [] \<and> True)"
  unfolding readFromHelper_def
  by (rule locked_write [OF assms, where ok = "\<lambda>_. False" and bs = "\<lambda>_. []" and R = "\<lambda>_ _. True"])
    (rule safe_mono [OF readFromHelperLocked_safe], auto)

lemma user_post_step:
  assumes "user_post E s t False []" and "user_post E t u ok bs"
  shows "user_post E s u False []"
  using assms write_post_trans [of E s t False "[]" u ok bs]
  by (auto simp: user_post_def intro: write_post_weaken)

lemma user_post_minv: "user_post E s t ok bs \<Longrightarrow> conn_inv E t \<and> minv (mux t)"
  by (simp add: user_post_def write_post_def)

lemma user_post_refl: "conn_inv E s \<Longrightarrow> minv (mux s) \<Longrightarrow> user_post E s s ok []"
  by (simp add: user_post_def write_post_refl inv_core)

lemma Conn_ReadFrom_safe:
  assumes "conn_inv E s" and "minv (mux s)"
  shows "safe (Conn_ReadFrom E M ro s) (\<lambda>(x, s'). user_post E s s' False [])"
proof (cases ro)
  case None
  with assms show ?thesis by (simp add: Conn_ReadFrom_def user_post_refl)
next
  case (Some r)
  have round: "\<forall>r t. user_post E s t False [] \<longrightarrow>
      safe (readFromHelper E M r t) (\<lambda>((n, err, r'), t'). user_post E s t' False [])"
    using user_post_minv readFromHelper_safe user_post_step
    by (intro allI impI) (rule safe_mono [OF readFromHelper_safe], auto)
  show ?thesis
    unfolding Conn_ReadFrom_def Some option.case
    by (rule run_loop_safe) (use readFrom_loop_keeps [where P = "\<lambda>t. user_post E s t False []"] round
        user_post_refl [OF assms, of False] in blast)
qed

lemma conn_writeByte_safe:
  assumes "conn_core E s" and "minv (mux s)"
  shows "safe (conn_writeByte E M c s) (\<lambda>(err, s'). write_post E s s' (err = None) [c])"
proof -
  have fin: "safe (if err = None then bnd (fdw_append E [c] s2) (\<lambda>s. Ret (None, s)) else Ret (err, s2))
      (\<lambda>(err, s'). write_post E s s' (err = None) [c])"
    if w: "write_post E s s2 (err = None) []" and f: "err = None \<longrightarrow> fdw s2 \<noteq> None" for err :: "goerr option" and s2
  proof (cases err)
    case None
    then obtain fd where fd: "fdw s2 = Some fd" using f by auto
    have "conn_core E s2" "minv (mux s2)" using w by (simp_all add: write_post_def)
    from fdw_append_safe [OF this fd, of "[c]"] None w show ?thesis
      by simp (erule safe_mono, auto intro: write_post_then)
  next
    case (Some e)
    with w show ?thesis by (auto intro: write_post_weaken)
  qed
  have mid: "safe (if err = None \<and> Conn_Available s1 \<le> 0 then
            bnd (flushLocked E M s1) (\<lambda>(err, s). if err = None then writeStart E s else Ret (err, s))
          else Ret (err, s1)) (\<lambda>(err, s2). write_post E s s2 (err = None) [] \<and> (err = None \<longrightarrow> fdw s2 \<noteq> None))"
    if w: "write_post E s s1 True []" and f: "err = None \<longrightarrow> fdw s1 \<noteq> None" for err :: "goerr option" and s1
  proof (cases "err = None \<and> Conn_Available s1 \<le> 0")
    case True
    have s1: "conn_core E s1" "minv (mux s1)" using w by (simp_all add: write_post_def)
    have "safe (bnd (flushLocked E M s1) (\<lambda>(err, s). if err = None then writeStart E s else Ret (err, s)))
        (\<lambda>(err, s2). write_post E s s2 (err = None) [] \<and> (err = None \<longrightarrow> fdw s2 \<noteq> None))"
    proof (rule safe_bndI [OF flushLocked_safe [OF s1]], unfold split_paired_all case_prod_conv)
      fix e :: "goerr option" and s2 :: "'m sys" assume a: "write_post E s1 s2 (e = None) [] \<and> fdw s2 = None"
      then have w2: "write_post E s s2 (e = None) []" by (auto intro: write_post_then [OF w])
      have s2: "conn_core E s2" "minv (mux s2)" using a by (simp_all add: write_post_def)
      show "safe (if e = None then writeStart E s2 else Ret (e, s2))
          (\<lambda>a. case a of (err, s2) \<Rightarrow> write_post E s s2 (err = None) [] \<and> (err = None \<longrightarrow> fdw s2 \<noteq> None))"
      proof (cases e)
        case None
        then have w3: "write_post E s s2 True []" using w2 by simp
        have "safe (writeStart E s2) (\<lambda>(err, s3). write_post E s s3 (err = None) [] \<and> (err = None \<longrightarrow> fdw s3 \<noteq> None))"
        proof (rule safe_mono [OF writeStart_safe [OF s2]], unfold split_paired_all case_prod_conv)
          fix err :: "goerr option" and s3 :: "'m sys"
          assume b: "write_post E s2 s3 True [] \<and> (if err = None then fdw s3 \<noteq> None \<and> \<not> localClosed s2 else fdw s3 = fdw s2)"
          then have "write_post E s s3 True []" by (intro write_post_then [OF w3, of s3 True "[]"]) simp_all
          then show "write_post E s s3 (err = None) [] \<and> (err = None \<longrightarrow> fdw s3 \<noteq> None)"
            using b by (auto intro: write_post_weaken)
        qed
        with None show ?thesis by simp
      next
        case (Some x)
        with w2 show ?thesis by simp
      qed
    qed
    with True show ?thesis by simp
  next
    case False
    with that show ?thesis by (auto intro: write_post_weaken)
  qed
  show ?thesis
    unfolding conn_writeByte_def
  proof (rule safe_bndI [OF writeStart_safe [OF assms]], unfold split_paired_all case_prod_conv)
    fix err :: "goerr option" and s1 :: "'m sys" assume a: "write_post E s s1 True [] \<and> (if err = None then fdw s1 \<noteq> None \<and> \<not> localClosed s else fdw s1 = fdw s)"
    have "safe (if err = None \<and> Conn_Available s1 \<le> 0 then
            bnd (flushLocked E M s1) (\<lambda>(err, s). if err = None then writeStart E s else Ret (err, s))
          else Ret (err, s1)) (\<lambda>(err, s2). write_post E s s2 (err = None) [] \<and> (err = None \<longrightarrow> fdw s2 \<noteq> None))"
      using a by (intro mid) (auto split: if_splits)
    then show "safe (bnd (if err = None \<and> Conn_Available s1 \<le> 0 then
            bnd (flushLocked E M s1) (\<lambda>(err, s). if err = None then writeStart E s else Ret (err, s))
          else Ret (err, s1)) (\<lambda>(err, s). if err = None then bnd (fdw_append E [c] s) (\<lambda>s. Ret (None, s)) else Ret (err, s)))
        (\<lambda>(err, s'). write_post E s s' (err = None) [c])"
      by (rule safe_bndI) (use fin in auto)
  qed
qed

lemma Conn_WriteByte_safe:
  assumes "conn_inv E s" and "minv (mux s)"
  shows "safe (Conn_WriteByte E M c s) (\<lambda>(err, s'). user_post E s s' (err = None) [c] \<and> True)"
  unfolding Conn_WriteByte_def
proof (rule locked_write [OF assms, where ok = "\<lambda>err. err = None" and bs = "\<lambda>_. [c]" and R = "\<lambda>_ _. True"])
  fix t assume t: "conn_core E (t :: 'm sys)" "minv (mux t)"
  show "safe (bnd (conn_writeByte E M c t) (\<lambda>(err, s). if err = None then flushLocked E M s else Ret (err, s)))
      (\<lambda>(x, t'). write_post E t t' (x = None) [c] \<and> True)"
    by (rule safe_bndI [OF conn_writeByte_safe [OF t]], unfold split_paired_all case_prod_conv)
      (use then_flush in \<open>force elim!: safe_mono\<close>)
qed

end

end
