(* ===== verification/Conn_Safety.thy ===== *)
theory Conn_Safety
  imports Conn_Laws
begin

text \<open>
  The read side, the close handshake and incoming frames of a Conn, and the properties of a Conn
  as a whole: no operation panics or breaks the invariant, nothing is lost or reordered on the
  way from a frame to a reader, recycling restores the state of a new Conn.
\<close>

section \<open>Reading\<close>

text \<open>What the peer has sent and the reader has not seen yet.\<close>

definition unread :: "'m sys \<Rightarrow> byte list" where
  "unread s = cfp s @ payloads (readCh s)"

definition read_changes :: "'m sys \<Rightarrow> 'm sys \<Rightarrow> bool" where
  "read_changes s s' \<longleftrightarrow>
     connID s' = connID s \<and> onRecycle s' = onRecycle s \<and> ackCh s' = ackCh s
     \<and> readChClosed s' = readChClosed s \<and> cmu s' = cmu s \<and> localClosed s' = localClosed s
     \<and> localSentFinal s' = localSentFinal s \<and> remoteSentFinal s' = remoteSentFinal s
     \<and> sendWindow s' = sendWindow s \<and> runstate s' = runstate s
     \<and> hijacked s' = hijacked s \<and> wmu s' = wmu s \<and> fdw s' = fdw s \<and> rmu s' = rmu s
     \<and> readDeadline s' = readDeadline s \<and> writeDeadline s' = writeDeadline s
     \<and> serialNumber s' = serialNumber s \<and> clock s' = clock s \<and> choices s' = choices s"

lemma read_changes_refl [simp]: "read_changes s s"
  by (simp add: read_changes_def)

lemma read_changes_trans: "read_changes s t \<Longrightarrow> read_changes t u \<Longrightarrow> read_changes s u"
  by (simp add: read_changes_def)

lemma read_changes_upd [simp]:
  "read_changes s (s'\<lparr>readCh := q\<rparr>) = read_changes s s'" "read_changes s (s'\<lparr>fdr := f\<rparr>) = read_changes s s'"
  "read_changes s (s'\<lparr>cfp := b\<rparr>) = read_changes s s'" "read_changes s (s'\<lparr>mux := m\<rparr>) = read_changes s s'"
  "read_changes s (s'\<lparr>pool := p\<rparr>) = read_changes s s'" "read_changes s (s'\<lparr>tick := t\<rparr>) = read_changes s s'"
  "read_changes s (free_frame f s') = read_changes s s'"
  by (simp_all add: read_changes_def free_frame_def)

lemma core_read_upd:
  "conn_core E s \<Longrightarrow> list_all in_frame q \<Longrightarrow> pred_option frame_room f \<Longrightarrow>
   conn_core E (s\<lparr>readCh := q, fdr := f, cfp := b\<rparr>)"
  by (simp add: conn_core_def)

lemma ack_frame:
  assumes "blank_frame i fd" and "i \<le> MuxerConnID"
  shows "on_header SetFlow fd = Ret (upd_hdr (\<lambda>h. h\<lparr>h_flow := True\<rparr>) fd)"
    and "wire_frame i (upd_hdr (\<lambda>h. h\<lparr>h_flow := True\<rparr>) fd)"
    and "is_ack (upd_hdr (\<lambda>h. h\<lparr>h_flow := True\<rparr>) fd)"
proof -
  note b = blank_open [OF assms]
  show "on_header SetFlow fd = Ret (upd_hdr (\<lambda>h. h\<lparr>h_flow := True\<rparr>) fd)" by (rule view_write(1) [OF b(2)])
  let ?fd = "upd_hdr (\<lambda>h. h\<lparr>h_flow := True\<rparr>) fd"
  have h: "fhdr ?fd = id_hdr i\<lparr>h_flow := True\<rparr>"
    by (subst upd_hdr_simps(4)) (simp_all add: b(3) hdr_ok_updates(1) assms(2) unat_le_MuxerConnID [symmetric])
  show a: "is_ack ?fd" by (simp add: is_ack_def h)
  have len: "length (fbytes fd) = 4" "frame_room fd" using assms(1) by (simp_all add: blank_frame_def)
  then show "wire_frame i ?fd"
    using a by (simp add: wire_frame_def frame_ok_def h has_payload_def frame_sizes)
qed

context conn_muxer
begin

text \<open>Acknowledgements sent for \<open>k\<close> frames taken off the queue.\<close>

definition acks_sent :: "'m sys \<Rightarrow> 'm sys \<Rightarrow> nat \<Rightarrow> bool" where
  "acks_sent s s' k \<longleftrightarrow> (\<exists>fs. sent (mux s') = sent (mux s) @ fs
     \<and> list_all (\<lambda>fd. wire_frame (connID s) fd \<and> is_ack fd) fs
     \<and> length fs \<le> k \<and> (length fs = k \<or> (\<exists>m. minv m \<and> ConnAborted M m)))"

definition read_post :: "rap_config \<Rightarrow> 'm sys \<Rightarrow> 'm sys \<Rightarrow> bool" where
  "read_post E s s' \<longleftrightarrow> conn_core E s' \<and> read_changes s s' \<and> minv (mux s')
     \<and> (\<exists>k. readCh s' = drop k (readCh s) \<and> k \<le> length (readCh s) \<and> acks_sent s s' k)"

lemma read_postI:
  "conn_core E s' \<Longrightarrow> read_changes s s' \<Longrightarrow> minv (mux s') \<Longrightarrow> readCh s' = drop k (readCh s) \<Longrightarrow>
   k \<le> length (readCh s) \<Longrightarrow> acks_sent s s' k \<Longrightarrow> read_post E s s'"
  unfolding read_post_def by blast

lemma acks_sent_0 [simp]: "sent (mux s') = sent (mux s) \<Longrightarrow> acks_sent s s' 0"
  by (auto simp: acks_sent_def)

lemma acks_sent_trans:
  assumes "acks_sent s s1 j" and "acks_sent s1 s2 k" and "connID s1 = connID s"
  shows "acks_sent s s2 (j + k)"
proof -
  from assms(1) obtain fs where f: "sent (mux s1) = sent (mux s) @ fs" "length fs \<le> j"
    "list_all (\<lambda>fd. wire_frame (connID s) fd \<and> is_ack fd) fs" "length fs = j \<or> (\<exists>m. minv m \<and> ConnAborted M m)"
    unfolding acks_sent_def by blast
  from assms(2,3) obtain gs where g: "sent (mux s2) = sent (mux s1) @ gs" "length gs \<le> k"
    "list_all (\<lambda>fd. wire_frame (connID s) fd \<and> is_ack fd) gs" "length gs = k \<or> (\<exists>m. minv m \<and> ConnAborted M m)"
    unfolding acks_sent_def by auto
  from f g show ?thesis unfolding acks_sent_def by (intro exI [of _ "fs @ gs"]) auto
qed

lemma read_post_trans:
  assumes "read_post E s s1" and "read_post E s1 s2"
  shows "read_post E s s2"
proof -
  from assms obtain j k where "readCh s1 = drop j (readCh s)" "j \<le> length (readCh s)" "acks_sent s s1 j"
    "readCh s2 = drop k (readCh s1)" "k \<le> length (readCh s1)" "acks_sent s1 s2 k"
    unfolding read_post_def by blast
  moreover have "read_changes s s1" using assms(1) by (simp add: read_post_def)
  moreover from this have "connID s1 = connID s" by (simp add: read_changes_def)
  ultimately show ?thesis
    using assms acks_sent_trans [of s s1 j s2 k]
    by (intro read_postI [where k = "j + k"])
      (auto simp: read_post_def add.commute intro: read_changes_trans)
qed

lemma read_post_refl: "conn_core E s \<Longrightarrow> minv (mux s) \<Longrightarrow> read_post E s s"
  by (rule read_postI [where k = 0]) simp_all

lemma writeAckFrame_safe:
  assumes "conn_core E s" and "minv (mux s)"
  shows "safe (writeAckFrame E M s) (\<lambda>s'. conn_core E s' \<and> read_changes s s' \<and> minv (mux s') \<and> readCh s' = readCh s
    \<and> cfp s' = cfp s \<and> fdr s' = fdr s \<and> acks_sent s s' 1)"
proof -
  from alloc_frame_cases [OF assms(1)] obtain fd p where a: "alloc_frame E s = Ret (fd, s\<lparr>pool := p\<rparr>)"
    "blank_frame (connID s) fd" "conn_core E (s\<lparr>pool := p\<rparr>)" .
  have id: "connID s \<le> MuxerConnID" using core_id [OF assms(1)] by (auto intro: order_trans)
  note f = ack_frame [OF a(2) id]
  let ?fd = "upd_hdr (\<lambda>h. h\<lparr>h_flow := True\<rparr>) fd" and ?s = "s\<lparr>pool := p\<rparr>"
  have pre: "minv (mux ?s)" "frame_ok (fbytes ?fd)" using assms(2) f(2) by (simp_all add: wire_frame_def)
  have one: "acks_sent s (s\<lparr>pool := p, mux := m, tick := t\<rparr>) 1" if "sent m = sent (mux s) @ [?fd]" for m t
    unfolding acks_sent_def by (rule exI [of _ "[?fd]"]) (use that f in simp)
  have none: "acks_sent s (s\<lparr>pool := p, mux := m, tick := t\<rparr>) 1"
    if "sent m = sent (mux s)" "ConnAborted M (mux s)" for m t
    unfolding acks_sent_def by (rule exI [of _ "[]"]) (use that assms(2) in auto)
  have unf: "writeAckFrame E M s = bnd (conn_write M ?fd ?s) (\<lambda>(_, s). Ret s)"
    by (simp add: writeAckFrame_def a(1) f(1))
  show ?thesis
    unfolding unf by (rule conn_write_cases [OF pre]) (use a(3) one none in simp_all)
qed

end

lemma take_drop_append [simp]: "take n xs @ drop n xs @ ys = xs @ ys"
  by (simp flip: append.assoc)

lemma read_ready_Read: "CaseRead \<in> set (read_ready M s) \<longleftrightarrow> readCh s \<noteq> [] \<or> readChClosed s"
  by (auto simp: read_ready_def)

context conn_muxer
begin

text \<open>
  One frame taken off the queue, with the parser empty before: on success the parser holds its
  payload; an end of file means the queue is empty and closed; no bytes are lost either way.
\<close>

lemma readFrame_safe:
  assumes "conn_core E s" and "minv (mux s)" and "cfp s = []"
  shows "safe (readFrame E M s) (\<lambda>(err, s'). read_post E s s' \<and> unread s' = unread s
    \<and> (err \<noteq> None \<longrightarrow> cfp s' = []) \<and> (err = Some ErrEOF \<longrightarrow> readCh s = [] \<and> remoteSentFinal s))"
proof -
  define s0 where "s0 = (if fdr s \<noteq> None then (free_frame (fdr s) s)\<lparr>fdr := None, cfp := []\<rparr> else s)"
  have core0: "conn_core E s0"
    using assms(1) by (auto simp: s0_def conn_core_def free_frame_def)
  have s0: "read_changes s s0" "readCh s0 = readCh s" "cfp s0 = []" "minv (mux s0)" "mux s0 = mux s"
    using assms(2,3) by (simp_all add: s0_def) (simp_all add: free_frame_def)
  show ?thesis
  proof (cases "read_ready M s0 = []")
    case True
    then show ?thesis unfolding readFrame_def Let_def s0_def [symmetric] by (simp add: select_def)
  next
    case False
    then obtain c where sel: "select (read_ready M s0) s0 = Ret (c, s0\<lparr>tick := Suc (tick s0)\<rparr>)"
      by (auto simp: select_def)
    let ?t = "s0\<lparr>tick := Suc (tick s0)\<rparr>"
    have idle: "read_post E s ?t" "unread ?t = unread s" "cfp ?t = []"
      using core0 s0 assms(3) by (simp_all add: read_postI [where k = 0] unread_def)
    have unf: "readFrame E M s = (case c of
          CaseRead \<Rightarrow>
            (case readCh ?t of
               fd # fds \<Rightarrow>
                 bnd (NewFrameParser fd) (\<lambda>p.
                 bnd (writeAckFrame E M (?t\<lparr>readCh := fds, fdr := Some fd, cfp := p\<rparr>)) (\<lambda>s. Ret (None, s)))
             | [] \<Rightarrow> Ret (Some ErrEOF, ?t\<lparr>fdr := None\<rparr>))
        | CaseDeadline \<Rightarrow> Ret (Some TimeoutError, ?t)
        | CaseAbort \<Rightarrow> Ret (Some ServerClosedError, ?t)
        | _ \<Rightarrow> Ret (Some ErrClosedPipe, ?t))"
      by (simp only: readFrame_def Let_def s0_def [symmetric] sel bnd.simps case_prod_conv)
    show ?thesis
    proof (cases "c = CaseRead")
      case False
      with idle show ?thesis unfolding unf by (cases c) simp_all
    next
      case read: True
      then have open_: "readCh s \<noteq> [] \<or> remoteSentFinal s"
        using select_mem [OF sel] s0 core0 by (auto simp: read_ready_Read conn_core_def read_changes_def)
      show ?thesis
      proof (cases "readCh s")
        case Nil
        have "conn_core E (?t\<lparr>fdr := None\<rparr>)" using core0 by (simp add: conn_core_def)
        then have "read_post E s (?t\<lparr>fdr := None\<rparr>)"
          using s0 Nil by (intro read_postI [where k = 0]) simp_all
        then show ?thesis
          using read Nil open_ s0 assms(3) unfolding unf by (simp add: unread_def)
      next
        case (Cons fd fds)
        have fd: "4 \<le> length (fbytes fd)" "frame_room fd" "list_all in_frame fds"
          using assms(1) Cons by (simp_all add: conn_core_def in_frame_def)
        let ?u = "?t\<lparr>readCh := fds, fdr := Some fd, cfp := drop 4 (fbytes fd)\<rparr>"
        have u: "conn_core E ?u" "minv (mux ?u)" using core_read_upd [of E ?t fds "Some fd"] core0 fd s0 by simp_all
        have "safe (writeAckFrame E M ?u) (\<lambda>s'. read_post E s s' \<and> unread s' = unread s)"
        proof (rule safe_mono [OF writeAckFrame_safe [OF u]])
          fix s' assume a: "conn_core E s' \<and> read_changes ?u s' \<and> minv (mux s') \<and> readCh s' = readCh ?u
            \<and> cfp s' = cfp ?u \<and> fdr s' = fdr ?u \<and> acks_sent ?u s' 1"
          have "read_changes s ?u" using s0 by simp
          then have "read_changes s s'" "connID s0 = connID s"
            using a read_changes_trans [of s ?u s'] s0 by (simp_all add: read_changes_def)
          moreover have "acks_sent s s' 1" using a s0 \<open>connID s0 = connID s\<close> by (simp add: acks_sent_def)
          ultimately show "read_post E s s' \<and> unread s' = unread s"
            using a Cons assms(3) by (auto simp: unread_def intro!: read_postI [where k = 1])
        qed
        then show ?thesis
          using read Cons s0(2) fd(1) unfolding unf by (simp add: view_read)
      qed
    qed
  qed
qed

lemma loadFrameReader_safe:
  assumes "conn_core E s" and "minv (mux s)"
  shows "safe (loadFrameReader E M s) (\<lambda>(err, s'). read_post E s s' \<and> unread s' = unread s
    \<and> (err = None \<longleftrightarrow> cfp s' \<noteq> []) \<and> (err = Some ErrEOF \<longrightarrow> unread s = [] \<and> remoteSentFinal s))"
  using assms
proof (induction "length (readCh s)" arbitrary: s rule: less_induct)
  case less
  show ?case
  proof (cases "cfp s = []")
    case False
    with less.prems show ?thesis by (simp add: loadFrameReader.simps read_post_refl)
  next
    case True
    show ?thesis
    proof (subst loadFrameReader.simps, simp only: True if_True simp_thms, rule safe_bnd,
        rule safe_mono [OF readFrame_safe [OF less.prems True]], unfold split_paired_all case_prod_conv)
      fix err :: "goerr option" and s1 :: "'m sys"
      assume r: "readFrame E M s = Ret (err, s1)"
        and a: "read_post E s s1 \<and> unread s1 = unread s
          \<and> (err \<noteq> None \<longrightarrow> cfp s1 = []) \<and> (err = Some ErrEOF \<longrightarrow> readCh s = [] \<and> remoteSentFinal s)"
      show "safe (if err = None then loadFrameReader E M s1 else Ret (err, s1))
          (\<lambda>a. case a of (err, s') \<Rightarrow> read_post E s s' \<and> unread s' = unread s
            \<and> (err = None \<longleftrightarrow> cfp s' \<noteq> []) \<and> (err = Some ErrEOF \<longrightarrow> unread s = [] \<and> remoteSentFinal s))"
      proof (cases err)
        case (Some e)
        with a True show ?thesis by (auto simp: unread_def)
      next
        case None
        have s1: "conn_core E s1" "minv (mux s1)" and rc: "read_changes s s1" using a by (simp_all add: read_post_def)
        have "length (readCh s1) < length (readCh s)" using readFrame_shorter r None by blast
        note ih = less.hyps [OF this s1]
        have rf: "remoteSentFinal s1 = remoteSentFinal s" using rc by (simp add: read_changes_def)
        have tr: "read_post E s1 s2 \<Longrightarrow> read_post E s s2" for s2 using a by (blast intro: read_post_trans)
        have "safe (loadFrameReader E M s1) (\<lambda>(err, s'). read_post E s s' \<and> unread s' = unread s
            \<and> (err = None \<longleftrightarrow> cfp s' \<noteq> []) \<and> (err = Some ErrEOF \<longrightarrow> unread s = [] \<and> remoteSentFinal s))"
          by (rule safe_mono [OF ih]) (use a rf tr in \<open>simp split: prod.splits\<close>)
        with None show ?thesis by simp
      qed
    qed
  qed
qed

text \<open>An operation of the read side, as its caller sees it.\<close>

definition reader_post :: "rap_config \<Rightarrow> 'm sys \<Rightarrow> 'm sys \<Rightarrow> bool" where
  "reader_post E s s' \<longleftrightarrow> conn_inv E s' \<and> read_post E s s'"

lemma unlock_r:
  assumes "conn_inv E s" and "read_post E (s\<lparr>rmu := True\<rparr>) s'"
  shows "reader_post E s (s'\<lparr>rmu := False\<rparr>)"
proof -
  have c: "read_changes s (s'\<lparr>rmu := False\<rparr>)"
    using assms by (simp add: read_post_def read_changes_def conn_inv_def)
  have a: "acks_sent (s\<lparr>rmu := True\<rparr>) s' k \<Longrightarrow> acks_sent s (s'\<lparr>rmu := False\<rparr>) k" for k
    by (simp add: acks_sent_def)
  from assms(2) obtain k where "readCh s' = drop k (readCh s)" "k \<le> length (readCh s)" "acks_sent (s\<lparr>rmu := True\<rparr>) s' k"
    unfolding read_post_def by auto
  with c a assms(2) have "read_post E s (s'\<lparr>rmu := False\<rparr>)"
    by (intro read_postI [where k = k]) (simp_all add: read_post_def)
  moreover have "conn_inv E (s'\<lparr>rmu := False\<rparr>)"
    using assms by (auto simp: conn_inv_def read_post_def read_changes_def)
  ultimately show ?thesis by (simp add: reader_post_def)
qed

lemma locked_read:
  assumes "conn_inv E s" and "minv (mux s)"
    and "\<And>t. conn_core E t \<Longrightarrow> minv (mux t) \<Longrightarrow> unread t = unread s \<Longrightarrow> remoteSentFinal t = remoteSentFinal s \<Longrightarrow>
      safe (f t) (\<lambda>(x, t'). read_post E t t' \<and> R x (unread t'))"
  shows "safe (lock_rmu f s) (\<lambda>(x, s'). reader_post E s s' \<and> R x (unread s'))"
proof (rule lock_rmu_safe)
  show "\<not> rmu s" using assms(1) by (simp add: conn_inv_def)
  have "safe (f (s\<lparr>rmu := True\<rparr>)) (\<lambda>(x, t'). read_post E (s\<lparr>rmu := True\<rparr>) t' \<and> R x (unread t'))"
    using assms(1,2) by (intro assms(3)) (simp_all add: conn_inv_def unread_def)
  then show "safe (f (s\<lparr>rmu := True\<rparr>)) (\<lambda>(x, s'). reader_post E s (s'\<lparr>rmu := False\<rparr>) \<and> R x (unread (s'\<lparr>rmu := False\<rparr>)))"
    by (rule safe_mono) (use unlock_r [OF assms(1)] in \<open>auto simp: unread_def\<close>)
qed

lemma read_post_cfp: "read_post E s s' \<Longrightarrow> read_post E s (s'\<lparr>cfp := b\<rparr>)"
  unfolding read_post_def acks_sent_def by simp

lemma Conn_Read_safe:
  assumes "conn_inv E s" and "minv (mux s)"
  shows "safe (Conn_Read E M n s) (\<lambda>((bs, err), s'). reader_post E s s' \<and> unread s = bs @ unread s' \<and> length bs \<le> n
    \<and> (n > 0 \<longrightarrow> (err = None \<longleftrightarrow> bs \<noteq> [])) \<and> (err = Some ErrEOF \<longrightarrow> unread s = [] \<and> remoteSentFinal s))"
proof -
  let ?R = "\<lambda>(bs, err) u. unread s = bs @ u \<and> length bs \<le> n \<and> (n > 0 \<longrightarrow> (err = None \<longleftrightarrow> bs \<noteq> []))
    \<and> (err = Some ErrEOF \<longrightarrow> unread s = [] \<and> remoteSentFinal s)"
  have "safe (Conn_Read E M n s) (\<lambda>(x, s'). reader_post E s s' \<and> ?R x (unread s'))"
    unfolding Conn_Read_def
  proof (rule locked_read [OF assms])
    fix t assume t: "conn_core E (t :: 'm sys)" "minv (mux t)" and u: "unread t = unread s" "remoteSentFinal t = remoteSentFinal s"
    show "safe (conn_read E M n t) (\<lambda>(x, t'). read_post E t t' \<and> ?R x (unread t'))"
      unfolding conn_read_def
      by (rule safe_bndI [OF loadFrameReader_safe [OF t]], unfold split_paired_all case_prod_conv)
        (use u in \<open>auto simp: FrameParser_Read_def unread_def read_post_cfp\<close>)
  qed
  then show ?thesis by (rule safe_mono) auto
qed

end

section \<open>Recycling\<close>

text \<open>A Conn whose fields are those of a new one.\<close>

definition like_new :: "rap_config \<Rightarrow> 'm sys \<Rightarrow> bool" where
  "like_new E s \<longleftrightarrow> ackCh s = 0 \<and> readCh s = [] \<and> \<not> readChClosed s \<and> \<not> localClosed s \<and> \<not> localSentFinal s
     \<and> \<not> remoteSentFinal s \<and> sendWindow s = SendWindowSize E \<and> runstate s = runStateUnused \<and> \<not> hijacked s
     \<and> fdw s = None \<and> fdr s = None \<and> cfp s = []
     \<and> readDeadline s = makeConnDeadline \<and> writeDeadline s = makeConnDeadline"

lemma deadline_set_None [simp]: "deadline_set now d None = makeConnDeadline"
  by (cases d) (simp add: deadline_set_def makeConnDeadline_def Let_def)

lemma deadline_ok_make [simp]: "deadline_ok makeConnDeadline"
  by (simp add: deadline_ok_def makeConnDeadline_def)

lemma fold_free_frame:
  "fold (\<lambda>fd. free_frame (Some fd)) q s = s\<lparr>pool := fold (\<lambda>fd. FrameDataFree (Some fd)) q (pool s)\<rparr>"
  by (induction q arbitrary: s) (simp_all add: free_frame_def)

lemma fold_free_ok: "pool_ok p \<Longrightarrow> list_all in_frame q \<Longrightarrow> pool_ok (fold (\<lambda>fd. FrameDataFree (Some fd)) q p)"
  by (induction q arbitrary: p) (simp_all add: in_frame_def)

text \<open>The fields that belong to the Conn's identity and to its surroundings.\<close>

definition same_place :: "'m sys \<Rightarrow> 'm sys \<Rightarrow> bool" where
  "same_place s s' \<longleftrightarrow> connID s' = connID s \<and> onRecycle s' = onRecycle s \<and> serialNumber s' = serialNumber s
     \<and> wmu s' = wmu s \<and> rmu s' = rmu s \<and> cmu s' = cmu s \<and> clock s' = clock s \<and> choices s' = choices s"

lemma like_new_core:
  assumes "conn_core E s" and "like_new E s'" and "connID s' = connID s" and "pool_ok (pool s')"
  shows "conn_core E s'"
  using assms by (auto simp: conn_core_def like_new_def)

context conn_muxer
begin

lemma forceRecycleLocked_safe:
  assumes "conn_core E s" and "minv (mux s)" and "recycle_ok s"
  shows "safe (forceRecycleLocked E s) (\<lambda>s'. like_new E s' \<and> conn_core E s' \<and> same_place s s'
    \<and> sent (mux s') = sent (mux s))"
proof -
  let ?p = "fold (\<lambda>fd. FrameDataFree (Some fd)) (readCh s) (pool s)"
  define s1 where "s1 = s\<lparr>ackCh := 0, pool := ?p, readCh := [], readChClosed := False, localClosed := False,
                localSentFinal := False, remoteSentFinal := False, sendWindow := SendWindowSize E,
                hijacked := False, fdw := None, fdr := None, cfp := [],
                writeDeadline := makeConnDeadline, readDeadline := makeConnDeadline,
                runstate := runStateUnused\<rparr>"
  have unf: "forceRecycleLocked E s = (case onRecycle s of None \<Rightarrow> Ret s1
      | Some f \<Rightarrow> bnd (f (mux s)) (\<lambda>m. Ret (s1\<lparr>mux := m\<rparr>)))"
    by (cases "onRecycle s") (simp_all add: forceRecycleLocked_def Let_def fold_free_frame s1_def)
  have "pool_ok ?p" using assms(1) by (simp add: conn_core_def fold_free_ok)
  then have new: "like_new E (s1\<lparr>mux := m\<rparr>)" "conn_core E (s1\<lparr>mux := m\<rparr>)" "same_place s (s1\<lparr>mux := m\<rparr>)" for m
    using like_new_core [OF assms(1), of "s1\<lparr>mux := m\<rparr>"] by (simp_all add: like_new_def s1_def same_place_def)
  have s1: "s1 = s1\<lparr>mux := mux s\<rparr>" by (simp add: s1_def)
  show ?thesis
  proof (cases "onRecycle s")
    case None
    have "safe (Ret (s1\<lparr>mux := mux s\<rparr>)) (\<lambda>s'. like_new E s' \<and> conn_core E s' \<and> same_place s s'
        \<and> sent (mux s') = sent (mux s))" using new by simp
    then show ?thesis unfolding unf None option.case by (simp only: s1 [symmetric])
  next
    case (Some f)
    with assms(2,3) have "safe (f (mux s)) (\<lambda>m'. sent m' = sent (mux s))" unfolding recycle_ok_def by blast
    then show ?thesis
      unfolding unf Some option.case by (rule safe_bndI) (use new in simp)
  qed
qed

lemma recycleLocked_safe:
  assumes "conn_core E s" and "minv (mux s)" and "recycle_ok s"
    and "localClosed s" and "localSentFinal s" and "remoteSentFinal s" and "fdw s = None"
  shows "safe (recycleLocked E s) (\<lambda>s'. like_new E s' \<and> conn_core E s' \<and> same_place s s' \<and> sent (mux s') = sent (mux s))"
proof -
  let ?s = "s\<lparr>runstate := runStateRecycle\<rparr>"
  have "recycleLocked E s = forceRecycleLocked E ?s"
    using assms(4-7) by (simp add: recycleLocked_def canRecycleLocked_def Let_def)
  moreover have "safe (forceRecycleLocked E ?s) (\<lambda>s'. like_new E s' \<and> conn_core E s' \<and> same_place ?s s' \<and> sent (mux s') = sent (mux ?s))"
    using assms(1-3) by (intro forceRecycleLocked_safe) (simp_all add: recycle_ok_def)
  ultimately show ?thesis by (simp add: same_place_def)
qed

end

section \<open>The close handshake\<close>

definition has_pending :: "'m sys \<Rightarrow> bool" where
  "has_pending s \<longleftrightarrow> (case fdw s of None \<Rightarrow> False | Some fd \<Rightarrow> h_body (fhdr fd) \<or> h_head (fhdr fd))"

lemma upd_hdr_upd_hdr:
  assumes "4 \<le> length (fbytes fd)" and "hdr_ok (f (fhdr fd))"
  shows "upd_hdr g (upd_hdr f fd) = upd_hdr (\<lambda>h. g (f h)) fd"
  using assms by (simp add: upd_hdr_def)

lemma final_frame:
  assumes "blank_frame i fd" and "i \<le> MuxerConnID"
  shows "\<exists>fd'. bnd (on_header SetFlow fd) (\<lambda>fd. bnd (on_header SetBody fd) (\<lambda>fd.
      if isAck then on_header SetHead fd else Ret fd)) = Ret fd'
    \<and> wire_frame i fd' \<and> is_final fd' \<and> h_head (fhdr fd') = isAck"
proof -
  note b = blank_open [OF assms]
  have ok: "hdr_ok (id_hdr i)" using assms(2) by (simp add: unat_le_MuxerConnID)
  let ?f = "\<lambda>h::header. h\<lparr>h_flow := True\<rparr>" and ?g = "\<lambda>h::header. h\<lparr>h_flow := True, h_body := True\<rparr>"
    and ?k = "\<lambda>h::header. h\<lparr>h_flow := True, h_body := True, h_head := isAck\<rparr>"
  let ?fd = "upd_hdr ?k fd"
  have g: "on_header SetFlow fd = Ret (upd_hdr ?f fd)" "on_header SetBody (upd_hdr ?f fd) = Ret (upd_hdr ?g fd)"
    using view_write(1) [OF b(2)] view_write(2) [of "upd_hdr ?f fd"] b ok
    by (simp_all add: upd_hdr_upd_hdr)
  have "(if isAck then on_header SetHead (upd_hdr ?g fd) else Ret (upd_hdr ?g fd)) = Ret ?fd"
  proof (cases isAck)
    case True
    then show ?thesis using view_write(3) [of "upd_hdr ?g fd"] b ok by (simp add: upd_hdr_upd_hdr)
  next
    case False
    have "?g (fhdr fd) = ?k (fhdr fd)" using False b(3) by (simp add: zero_hdr_def)
    then show ?thesis using False by (simp add: upd_hdr_def)
  qed
  then have res: "bnd (on_header SetFlow fd) (\<lambda>fd. bnd (on_header SetBody fd) (\<lambda>fd.
      if isAck then on_header SetHead fd else Ret fd)) = Ret ?fd" by (simp only: g bnd.simps)
  have h: "fhdr ?fd = id_hdr i\<lparr>h_flow := True, h_body := True, h_head := isAck\<rparr>"
    using ok b(3) by (subst upd_hdr_simps(4)) simp_all
  have w: "wire_frame i ?fd"
    using assms(1) by (simp add: wire_frame_def frame_ok_def h has_payload_def is_final_def frame_sizes blank_frame_def)
  show ?thesis
    unfolding res by (rule exI [of _ ?fd], intro conjI w) (simp_all only: is_final_def h, simp_all)
qed

lemma makeFinalFrame_cases:
  assumes "conn_core E s"
  obtains fd p where "makeFinalFrame E isAck s = Ret (fd, s\<lparr>pool := p\<rparr>)" "conn_core E (s\<lparr>pool := p\<rparr>)"
    "wire_frame (connID s) fd" "is_final fd" "h_head (fhdr fd) = isAck"
proof -
  from alloc_frame_cases [OF assms] obtain fd p where a: "alloc_frame E s = Ret (fd, s\<lparr>pool := p\<rparr>)"
    "blank_frame (connID s) fd" "conn_core E (s\<lparr>pool := p\<rparr>)" .
  have id: "connID s \<le> MuxerConnID" using core_id [OF assms] by (auto intro: order_trans)
  from final_frame [OF a(2) id, of isAck] obtain fd' where
    f: "bnd (on_header SetFlow fd) (\<lambda>fd. bnd (on_header SetBody fd) (\<lambda>fd.
      if isAck then on_header SetHead fd else Ret fd)) = Ret fd'"
    and w: "wire_frame (connID s) fd'" "is_final fd'" "h_head (fhdr fd') = isAck" by blast
  have "makeFinalFrame E isAck s = bnd (bnd (on_header SetFlow fd) (\<lambda>fd. bnd (on_header SetBody fd) (\<lambda>fd.
      if isAck then on_header SetHead fd else Ret fd))) (\<lambda>fd. Ret (fd, s\<lparr>pool := p\<rparr>))"
    by (simp add: makeFinalFrame_def a(1) bnd_assoc)
  then show thesis using that [of fd' p] f w a(3) by simp
qed

context conn_muxer
begin

text \<open>The window is as it was, unless a muxer that has been aborted took a credit for nothing.\<close>

definition lost :: "'m sys \<Rightarrow> 'm sys \<Rightarrow> bool" where
  "lost s s' \<longleftrightarrow> credit s' \<le> credit s \<and> (credit s' = credit s \<or> (\<exists>m. minv m \<and> ConnAborted M m))"

text \<open>With the local end closed nothing more is sent: a frame with content is given up.\<close>

lemma flush_closed:
  assumes "conn_core E s" and "minv (mux s)" and "localClosed s"
  shows "safe (flushLocked E M s) (\<lambda>(err, s'). write_post E s s' False [] \<and> fdw s' = None
    \<and> sent (mux s') = sent (mux s) \<and> lost s s' \<and> (err = None \<longleftrightarrow> \<not> has_pending s))"
proof -
  have "err = None \<longleftrightarrow> \<not> has_pending s" if r: "flushLocked E M s = Ret (err, s')" for err s'
  proof (cases "fdw s")
    case None
    with r show ?thesis by (simp add: flushLocked_def has_pending_def)
  next
    case (Some fd)
    let ?s = "s\<lparr>fdw := None\<rparr>"
    note o = core_fdwD [OF assms(1) Some]
    show ?thesis
    proof (cases "has_pending s \<and> length (fbytes fd) \<le> FrameMaxSize")
      case True
      then have bh: "h_body (fhdr fd) \<or> h_head (fhdr fd)" using Some by (simp add: has_pending_def)
      have "conn_core E ?s" "minv (mux ?s)" using assms(1,2) by (simp_all add: core_fdw)
      moreover have "frame_ok (fbytes (sized fd))" "frame_room (sized fd)"
        using sized_wire(1) [OF o bh] True by (simp_all add: wire_frame_def)
      ultimately have "safe (write_loop E M (sized fd) ?s) (send_post E (sized fd) ?s)" by (rule write_loop_safe)
      moreover have "write_loop E M (sized fd) ?s = Ret (err, s')"
        using r True bh by (auto simp: flushLocked_def Some writeFrame_eq [OF o])
      ultimately show ?thesis using True assms(3) by (auto simp: send_post_def split: if_splits)
    next
      case False
      with r show ?thesis
        by (auto simp: flushLocked_def Some writeFrame_eq [OF o] has_pending_def split: if_splits)
    qed
  qed
  note iff = this
  show ?thesis
  proof (rule safe_mono [OF flushLocked_safe [OF assms(1,2)]], unfold split_paired_all case_prod_conv)
    fix err :: "goerr option" and s' :: "'m sys"
    assume r: "flushLocked E M s = Ret (err, s')" and a: "write_post E s s' (err = None) [] \<and> fdw s' = None"
    then obtain fs where "data_sent s s' fs" by (auto simp: write_post_def)
    then have "sent (mux s') = sent (mux s)" "lost s s'" using assms(3) by (auto simp: data_sent_def lost_def)
    moreover have "write_post E s s' False []" using a by (auto intro: write_post_weaken)
    ultimately show "write_post E s s' False [] \<and> fdw s' = None \<and> sent (mux s') = sent (mux s) \<and> lost s s'
      \<and> (err = None \<longleftrightarrow> \<not> has_pending s)" using a iff [OF r] by blast
  qed
qed

text \<open>The frames the final handshake puts on the wire.\<close>

definition final_sent :: "'m sys \<Rightarrow> 'm sys \<Rightarrow> bool \<Rightarrow> bool" where
  "final_sent s s' isAck \<longleftrightarrow>
     (\<exists>fd. sent (mux s') = sent (mux s) @ [fd] \<and> wire_frame (connID s) fd \<and> is_final fd \<and> h_head (fhdr fd) = isAck)
     \<or> sent (mux s') = sent (mux s) \<and> (\<exists>m. minv m \<and> ConnAborted M m)"

lemma writeFinalLocked_safe:
  assumes "conn_core E s" and "minv (mux s)" and "localClosed s" and "\<not> localSentFinal s"
  shows "safe (writeFinalLocked E M isAck s) (\<lambda>(err, s'). conn_core E s' \<and> write_changes (s\<lparr>localSentFinal := True\<rparr>) s'
    \<and> minv (mux s') \<and> fdw s' = None \<and> lost s s'
    \<and> (if has_pending s then sent (mux s') = sent (mux s) else final_sent s s' isAck))"
proof -
  let ?s = "s\<lparr>localSentFinal := True\<rparr>"
  have pre: "conn_core E ?s" "minv (mux ?s)" "localClosed ?s" and hp: "has_pending ?s = has_pending s"
    using assms by (simp_all add: has_pending_def)
  have unf: "writeFinalLocked E M isAck s = bnd (flushLocked E M ?s) (\<lambda>(err, s).
      if err = None then bnd (makeFinalFrame E isAck s) (\<lambda>(fd, s). conn_write M fd s) else Ret (err, s))"
    using assms(4) by (simp add: writeFinalLocked_def localSendingFinal_def)
  show ?thesis
    unfolding unf
  proof (rule safe_bndI [OF flush_closed [OF pre]], unfold split_paired_all case_prod_conv hp)
    fix err :: "goerr option" and s1 :: "'m sys"
    assume a: "write_post E ?s s1 False [] \<and> fdw s1 = None \<and> sent (mux s1) = sent (mux ?s) \<and> lost ?s s1 \<and> (err = None \<longleftrightarrow> \<not> has_pending s)"
    then have s1: "conn_core E s1" "minv (mux s1)" "write_changes ?s s1" by (simp_all add: write_post_def)
    show "safe (if err = None then bnd (makeFinalFrame E isAck s1) (\<lambda>(fd, s). conn_write M fd s) else Ret (err, s1))
      (\<lambda>a. case a of (err, s') \<Rightarrow> conn_core E s' \<and> write_changes ?s s' \<and> minv (mux s') \<and> fdw s' = None \<and> lost s s'
        \<and> (if has_pending s then sent (mux s') = sent (mux s) else final_sent s s' isAck))"
    proof (cases err)
      case (Some e)
      with a s1 show ?thesis by (simp add: lost_def credit_def)
    next
      case None
      from makeFinalFrame_cases [OF s1(1), of isAck] obtain fd p where
        m: "makeFinalFrame E isAck s1 = Ret (fd, s1\<lparr>pool := p\<rparr>)" "conn_core E (s1\<lparr>pool := p\<rparr>)"
        and f: "wire_frame (connID s1) fd" "is_final fd" "h_head (fhdr fd) = isAck" .
      have id: "connID s1 = connID s" using s1(3) by (simp add: write_changes_def)
      have pre1: "minv (mux (s1\<lparr>pool := p\<rparr>))" "frame_ok (fbytes fd)" using s1(2) f(1) by (simp_all add: wire_frame_def)
      have "safe (conn_write M fd (s1\<lparr>pool := p\<rparr>)) (\<lambda>a. case a of (err, s') \<Rightarrow> conn_core E s' \<and> write_changes ?s s'
          \<and> minv (mux s') \<and> fdw s' = None \<and> lost s s' \<and> final_sent s s' isAck)"
        by (rule conn_write_cases [OF pre1]) (use a m(2) s1 f id in \<open>auto simp: final_sent_def lost_def credit_def\<close>)
      with None a m(1) show ?thesis by simp
    qed
  qed
qed

lemma Close_safe:
  assumes "conn_inv E s" and "minv (mux s)" and "recycle_ok s"
  shows "safe (Close E M s) (\<lambda>(err, s'). conn_inv E s' \<and> same_place s s' \<and>
    (if localClosed s then err = Some ErrClosedPipe \<and> s' = s
     else err = None \<and> (if has_pending s then sent (mux s') = sent (mux s) else final_sent s s' (remoteSentFinal s))
       \<and> (if remoteSentFinal s then like_new E s'
          else localClosed s' \<and> runstate s' = runStateWaitFin \<and> \<not> remoteSentFinal s' \<and> readCh s' = readCh s
            \<and> cfp s' = cfp s \<and> lost s s' \<and> minv (mux s'))))"
proof (cases "localClosed s")
  case True
  with assms(1) show ?thesis by (simp add: Close_def lock_cmu_def conn_inv_def same_place_def)
next
  case False
  let ?s = "s\<lparr>cmu := True, localClosed := True, wmu := True, rmu := True\<rparr>"
  have s: "conn_core E s" "\<not> localSentFinal s" "\<not> wmu s" "\<not> rmu s" "\<not> cmu s"
    using assms(1) False by (simp_all add: conn_inv_def)
  define body where "body = (\<lambda>s. if \<not> remoteSentFinal s then
         bnd (writeFinalLocked E M False s) (\<lambda>(_, s). Ret (None :: goerr option, s\<lparr>runstate := runStateWaitFin\<rparr>))
       else bnd (writeFinalLocked E M True s) (\<lambda>(_, s). bnd (recycleLocked E s) (\<lambda>s. Ret (None, s))))"
  have unf: "Close E M s = bnd (body ?s) (\<lambda>(x, s). Ret (x, s\<lparr>rmu := False, wmu := False, cmu := False\<rparr>))"
    using False s by (simp add: Close_def lock_cmu_def lock_wmu_def lock_rmu_def body_def [symmetric] bnd_assoc split_def)
  have pre: "conn_core E ?s" "minv (mux ?s)" "localClosed ?s" "\<not> localSentFinal ?s" and hp: "has_pending ?s = has_pending s"
    using s assms(2) by (simp_all add: has_pending_def)
  have fs: "final_sent ?s s' b = final_sent s s' b" for s' b by (simp add: final_sent_def)
  have ls: "lost ?s s' = lost s s'" for s' by (simp add: lost_def credit_def)
  show ?thesis
  proof (cases "remoteSentFinal s")
    case rf: False
    have "safe (body ?s) (\<lambda>(x, s'). conn_core E s' \<and> write_changes (?s\<lparr>localSentFinal := True\<rparr>) s' \<and> minv (mux s') \<and> fdw s' = None
        \<and> x = None \<and> runstate s' = runStateWaitFin \<and> lost s s'
        \<and> (if has_pending s then sent (mux s') = sent (mux s) else final_sent s s' False))"
      unfolding body_def using rf
      by simp (rule safe_mono [OF writeFinalLocked_safe [OF pre, of False]],
          auto simp: hp fs ls lost_def credit_def final_sent_def split: if_splits)
    then show ?thesis
      unfolding unf by simp (erule safe_mono, use False rf s in
        \<open>auto simp: conn_inv_def write_changes_def same_place_def lost_def credit_def final_sent_def split: if_splits\<close>)
  next
    case rf: True
    have "safe (body ?s) (\<lambda>(x, s'). like_new E s' \<and> conn_core E s' \<and> same_place ?s s' \<and> x = None
        \<and> (if has_pending s then sent (mux s') = sent (mux s) else final_sent s s' True))"
    proof -
      have "safe (bnd (writeFinalLocked E M True ?s) (\<lambda>(_, s). bnd (recycleLocked E s) (\<lambda>s. Ret (None :: goerr option, s))))
        (\<lambda>(x, s'). like_new E s' \<and> conn_core E s' \<and> same_place ?s s' \<and> x = None
          \<and> (if has_pending s then sent (mux s') = sent (mux s) else final_sent s s' True))"
      proof (rule safe_bndI [OF writeFinalLocked_safe [OF pre, of True]], unfold split_paired_all case_prod_conv)
        fix err :: "goerr option" and s1 :: "'m sys"
        assume a: "conn_core E s1 \<and> write_changes (?s\<lparr>localSentFinal := True\<rparr>) s1 \<and> minv (mux s1) \<and> fdw s1 = None \<and> lost ?s s1
          \<and> (if has_pending ?s then sent (mux s1) = sent (mux ?s) else final_sent ?s s1 True)"
        then have w: "write_changes (?s\<lparr>localSentFinal := True\<rparr>) s1" by blast
        then have "recycle_ok s1" using assms(3) by (simp add: recycle_ok_def write_changes_def)
        moreover from w have "localClosed s1" "localSentFinal s1" "remoteSentFinal s1" "same_place ?s s1"
          using rf by (simp_all add: write_changes_def same_place_def)
        ultimately have "safe (recycleLocked E s1) (\<lambda>s'. like_new E s' \<and> conn_core E s' \<and> same_place s1 s' \<and> sent (mux s') = sent (mux s1))"
          using a by (intro recycleLocked_safe) auto
        then show "safe (bnd (recycleLocked E s1) (\<lambda>s. Ret (None :: goerr option, s)))
          (\<lambda>a. case a of (x, s') \<Rightarrow> like_new E s' \<and> conn_core E s' \<and> same_place ?s s' \<and> x = None
            \<and> (if has_pending s then sent (mux s') = sent (mux s) else final_sent s s' True))"
          by (rule safe_bndI) (use a \<open>same_place ?s s1\<close> hp fs in \<open>auto simp: same_place_def final_sent_def split: if_splits\<close>)
      qed
      with rf show ?thesis by (simp add: body_def)
    qed
    then show ?thesis
      unfolding unf by simp (erule safe_mono, use False rf s in
        \<open>auto simp: conn_inv_def like_new_def same_place_def final_sent_def split: if_splits\<close>)
  qed
qed

end

section \<open>Incoming frames\<close>

text \<open>When a frame may come in: the conditions whose failure is a panic of \<^verbatim>\<open>SubmitFrame\<close>.\<close>

definition may_submit :: "rap_config \<Rightarrow> FrameData \<Rightarrow> 'm sys \<Rightarrow> bool" where
  "may_submit E fd s \<longleftrightarrow> wire_frame (connID s) fd
     \<and> (is_data fd \<longrightarrow> \<not> remoteSentFinal s \<and> length (readCh s) < MaxSendWindowSize)
     \<and> (is_ack fd \<longrightarrow> credit s < SendWindowSize E \<and> ackCh s < MaxSendWindowSize)
     \<and> (is_final fd \<longrightarrow> \<not> remoteSentFinal s)"

lemma wire_frame_in: "wire_frame i fd \<Longrightarrow> 4 \<le> length (fbytes fd) \<and> frame_room fd \<and> in_frame fd"
  by (simp add: wire_frame_def frame_ok_def in_frame_def)

lemma SubmitFrame_data:
  assumes "wire_frame i fd" and "is_data fd" and "\<not> remoteSentFinal s" and "\<not> readChClosed s"
    and "length (readCh s) < MaxSendWindowSize"
  shows "SubmitFrame E (Some fd) s = Ret (s\<lparr>readCh := readCh s @ [fd]\<rparr>)"
  using assms wire_frame_in [OF assms(1)]
  by (simp add: SubmitFrame_def hdr_of_def view_read is_data_def has_payload_def)

lemma SubmitFrame_ack:
  assumes "wire_frame i fd" and "is_ack fd" and "ackCh s < MaxSendWindowSize"
  shows "SubmitFrame E (Some fd) s = Ret ((free_frame (Some fd) s)\<lparr>ackCh := Suc (ackCh s)\<rparr>)"
proof -
  have "h_flow (fhdr fd)" using assms(2) by (simp add: is_ack_def)
  then show ?thesis
    using assms wire_frame_in [OF assms(1)] by (simp add: SubmitFrame_def hdr_of_def view_read Let_def)
qed

lemma SubmitFrame_final:
  assumes "wire_frame i fd" and "is_final fd" and "\<not> remoteSentFinal s" and "\<not> cmu s"
  shows "SubmitFrame E (Some fd) s =
    (let s1 = (free_frame (Some fd) (s\<lparr>cmu := True\<rparr>))\<lparr>remoteSentFinal := True, readChClosed := True\<rparr> in
     if localSentFinal s then bnd (recycle E s1) (\<lambda>(_, s). Ret (s\<lparr>cmu := False\<rparr>)) else Ret (s1\<lparr>cmu := False\<rparr>))"
proof -
  have fd: "h_flow (fhdr fd)" "\<not> is_ack fd" "\<not> is_data fd" using assms(2) frame_kinds_disjoint [of fd] by (auto simp: is_final_def)
  then have "h_size (fhdr fd) = 0" using assms(1) by (simp add: wire_frame_def frame_ok_def is_data_def)
  then show ?thesis
    using assms wire_frame_in [OF assms(1)] fd
    by (cases "localSentFinal s")
      (simp_all add: SubmitFrame_def receivedFinal_def hdr_of_def view_read Let_def lock_cmu_def
        remoteSendingFinal_def free_frame_def bnd_assoc split_def map_go_bnd)
qed

context conn_muxer
begin

lemma recycle_safe:
  assumes "conn_core E s" and "minv (mux s)" and "recycle_ok s" and "\<not> wmu s" and "\<not> rmu s"
    and "localClosed s" and "localSentFinal s" and "remoteSentFinal s" and "fdw s = None"
  shows "safe (recycle E s) (\<lambda>(x, s'). like_new E s' \<and> conn_core E s' \<and> same_place s s' \<and> sent (mux s') = sent (mux s))"
proof -
  let ?s = "s\<lparr>wmu := True, rmu := True\<rparr>"
  have "recycle E s = bnd (recycleLocked E ?s) (\<lambda>s. Ret ((), s\<lparr>rmu := False, wmu := False\<rparr>))"
    using assms(4,5) by (simp add: recycle_def lock_wmu_def lock_rmu_def bnd_assoc map_go_bnd)
  moreover have "safe (recycleLocked E ?s) (\<lambda>s'. like_new E s' \<and> conn_core E s' \<and> same_place ?s s' \<and> sent (mux s') = sent (mux ?s))"
    using assms by (intro recycleLocked_safe) (simp_all add: recycle_ok_def)
  ultimately show ?thesis
    by simp (erule safe_mono, use assms(4,5) in \<open>simp add: like_new_def same_place_def\<close>)
qed

text \<open>The recycle callback matters only when the frame is the last word of a session.\<close>

lemma SubmitFrame_keeps:
  assumes "conn_inv E s" and "may_submit E fd s" and "minv (mux s)" and "is_final fd \<Longrightarrow> localSentFinal s \<Longrightarrow> recycle_ok s"
  shows "safe (SubmitFrame E (Some fd) s) (\<lambda>s'. conn_inv E s' \<and> same_place s s' \<and> sent (mux s') = sent (mux s) \<and>
    (if is_data fd then s' = s\<lparr>readCh := readCh s @ [fd]\<rparr>
     else if is_ack fd then s' = (free_frame (Some fd) s)\<lparr>ackCh := Suc (ackCh s)\<rparr>
     else if localSentFinal s then like_new E s'
     else s' = (free_frame (Some fd) s)\<lparr>remoteSentFinal := True, readChClosed := True\<rparr>))"
proof -
  note w = assms(2) [unfolded may_submit_def]
  have fd: "4 \<le> length (fbytes fd)" "frame_room fd" "in_frame fd" using wire_frame_in w by blast+
  have inv: "conn_core E s" "\<not> cmu s" "\<not> wmu s" "\<not> rmu s" using assms(1) by (simp_all add: conn_inv_def)
  have pool: "pool_ok (FrameDataFree (Some fd) (pool s))" using inv(1) fd(2) by (simp add: conn_core_def)
  from w consider (data) "is_data fd" | (ack) "is_ack fd" "\<not> is_data fd" | (final) "is_final fd" "\<not> is_data fd" "\<not> is_ack fd"
    using frame_kinds_disjoint [of fd] by (auto simp: wire_frame_def)
  then show ?thesis
  proof cases
    case data
    with w inv(1) have "SubmitFrame E (Some fd) s = Ret (s\<lparr>readCh := readCh s @ [fd]\<rparr>)"
      by (intro SubmitFrame_data) (auto simp: conn_core_def)
    with data assms(1) fd show ?thesis by (simp add: conn_inv_def conn_core_def same_place_def)
  next
    case ack
    with w have "SubmitFrame E (Some fd) s = Ret ((free_frame (Some fd) s)\<lparr>ackCh := Suc (ackCh s)\<rparr>)"
      by (intro SubmitFrame_ack) auto
    with ack assms(1) w pool show ?thesis
      by (auto simp: conn_inv_def conn_core_def same_place_def credit_def free_frame_def)
  next
    case final
    let ?s1 = "(free_frame (Some fd) (s\<lparr>cmu := True\<rparr>))\<lparr>remoteSentFinal := True, readChClosed := True\<rparr>"
    have unf: "SubmitFrame E (Some fd) s = (if localSentFinal s then bnd (recycle E ?s1) (\<lambda>(_, s). Ret (s\<lparr>cmu := False\<rparr>))
        else Ret (?s1\<lparr>cmu := False\<rparr>))"
      using SubmitFrame_final [of "connID s" fd s E] w final inv(2) by (simp add: Let_def)
    show ?thesis
    proof (cases "localSentFinal s")
      case False
      with final assms(1) pool show ?thesis unfolding unf
        by (simp add: conn_inv_def conn_core_def same_place_def free_frame_def)
    next
      case True
      have "safe (recycle E ?s1) (\<lambda>(x, s'). like_new E s' \<and> conn_core E s' \<and> same_place ?s1 s' \<and> sent (mux s') = sent (mux ?s1))"
        using True assms(1-3) assms(4) [OF final(1) True] inv pool by (intro recycle_safe) (auto simp: conn_inv_def conn_core_def recycle_ok_def free_frame_def)
      then show ?thesis
        unfolding unf using True final inv
        by simp (erule safe_mono, auto simp: conn_inv_def like_new_def same_place_def free_frame_def)
    qed
  qed
qed

lemma SubmitFrame_safe:
  assumes "conn_inv E s" and "may_submit E fd s" and "minv (mux s)" and "recycle_ok s"
  shows "safe (SubmitFrame E (Some fd) s) (\<lambda>s'. conn_inv E s' \<and> same_place s s' \<and> sent (mux s') = sent (mux s) \<and>
    (if is_data fd then s' = s\<lparr>readCh := readCh s @ [fd]\<rparr>
     else if is_ack fd then s' = (free_frame (Some fd) s)\<lparr>ackCh := Suc (ackCh s)\<rparr>
     else if localSentFinal s then like_new E s'
     else s' = (free_frame (Some fd) s)\<lparr>remoteSentFinal := True, readChClosed := True\<rparr>))"
  using assms by (intro SubmitFrame_keeps)

lemma WriteUserRecordType_safe:
  assumes "conn_inv E s" and "minv (mux s)"
  shows "safe (WriteUserRecordType E c s) (\<lambda>(err, s'). user_post E s s' False [])"
proof (cases "c < 0x80")
  case True
  with assms show ?thesis by (simp add: WriteUserRecordType_def user_post_refl)
next
  case False
  have core: "conn_core E (s\<lparr>wmu := True\<rparr>)" "minv (mux (s\<lparr>wmu := True\<rparr>))" and nw: "\<not> wmu s"
    using assms by (simp_all add: conn_inv_def)
  let ?P = "\<lambda>(err :: goerr option, s'). user_post E s s' True [] \<and> (err = None \<longrightarrow> fdw s' \<noteq> None)"
  have st: "safe (WriteStart E s) ?P"
    unfolding WriteStart_def
  proof (rule lock_wmu_safe [OF nw], rule safe_mono [OF writeStart_safe [OF core]], unfold split_paired_all case_prod_conv)
    fix err :: "goerr option" and t :: "'m sys"
    assume "write_post E (s\<lparr>wmu := True\<rparr>) t True [] \<and>
      (if err = None then fdw t \<noteq> None \<and> \<not> localClosed (s\<lparr>wmu := True\<rparr>) else fdw t = fdw (s\<lparr>wmu := True\<rparr>))"
    then show "user_post E s (t\<lparr>wmu := False\<rparr>) True [] \<and> (err = None \<longrightarrow> fdw (t\<lparr>wmu := False\<rparr>) \<noteq> None)"
      using unlock_w [OF assms(1), of t True "[]"] by (auto split: if_splits)
  qed
  have unf: "WriteUserRecordType E c s = bnd (WriteStart E s) (\<lambda>(err, s).
      if err = None then bnd (WriteRecordType E (fdw_val s) c) (\<lambda>fd. Ret (None, s\<lparr>fdw := Some fd\<rparr>)) else Ret (err, s))"
    using False by (simp add: WriteUserRecordType_def)
  show ?thesis
    unfolding unf
  proof (rule safe_bndI [OF st], unfold split_paired_all case_prod_conv)
    fix err :: "goerr option" and s1 :: "'m sys"
    assume a: "user_post E s s1 True [] \<and> (err = None \<longrightarrow> fdw s1 \<noteq> None)"
    show "safe (if err = None then bnd (WriteRecordType E (fdw_val s1) c) (\<lambda>fd. Ret (None, s1\<lparr>fdw := Some fd\<rparr>))
        else Ret (err, s1)) (\<lambda>a. case a of (err, s') \<Rightarrow> user_post E s s' False [])"
    proof (cases err)
      case (Some e)
      with a show ?thesis by (auto simp: user_post_def intro: write_post_weaken)
    next
      case None
      then obtain fd where fd: "fdw s1 = Some fd" using a by auto
      have s1: "conn_core E s1" "minv (mux s1)" "conn_inv E s1" using a by (auto simp: user_post_def write_post_def)
      from WriteRecordType_open [OF core_fdwD [OF s1(1) fd], of E c] obtain fd' where
        w: "WriteRecordType E fd c = Ret fd'" "open_frame (connID s1) fd'" by blast
      have "write_post E s (s1\<lparr>fdw := Some fd'\<rparr>) False []"
        using a write_post_fdw [OF s1(1,2) fd w(2), of "[]"]
        by (auto simp: user_post_def intro: write_post_then)
      moreover have "conn_inv E (s1\<lparr>fdw := Some fd'\<rparr>)"
        using s1(3) fd w(2) core_fdw [OF s1(1), of "Some fd'"] by (auto simp: conn_inv_def)
      ultimately show ?thesis using None w(1) fd by (simp add: fdw_val_def user_post_def)
    qed
  qed
qed

end

section \<open>Takeover, deadlines and whole-stream reads\<close>

context conn_muxer
begin

lemma Hijack_safe:
  assumes "conn_inv E s" and "minv (mux s)"
  shows "safe (Hijack E M s) (\<lambda>(err, s'). conn_inv E s' \<and> minv (mux s') \<and> hijacked s' \<and> same_place s s'
    \<and> unread s' = unread s \<and> readCh s' = readCh s \<and> localClosed s' = localClosed s \<and> remoteSentFinal s' = remoteSentFinal s
    \<and> (\<exists>fs. data_sent s s' fs) \<and> (hijacked s \<longrightarrow> err = Some ErrAlreadyHijacked \<and> s' = s))"
proof (cases "hijacked s")
  case True
  then have "Hijack E M s = Ret (Some ErrAlreadyHijacked, s\<lparr>hijacked := True\<rparr>)"
    using assms(1) by (simp add: Hijack_def lock_wmu_def hijacking_def conn_inv_def)
  also have "s\<lparr>hijacked := True\<rparr> = s" using True by simp
  finally show ?thesis
    using assms True by (auto simp: same_place_def intro!: exI [of _ "[]"])
next
  case False
  obtain r where r: "snd (starting (s\<lparr>wmu := True, hijacked := True\<rparr>)) = s\<lparr>wmu := True, hijacked := True, runstate := r\<rparr>"
    using starting_eq [of "s\<lparr>wmu := True, hijacked := True\<rparr>"] by auto
  let ?t = "s\<lparr>wmu := True, hijacked := True, runstate := r\<rparr>"
  have t: "conn_core E ?t" "minv (mux ?t)" "\<not> wmu s" using assms by (simp_all add: conn_inv_def)
  have id: "connID s \<le> MaxConnID E" "MaxConnID E \<le> MuxerConnID" using core_id [OF t(1)] by simp_all
  from NewFrameDataID_frame [OF id] obtain sp where
    n: "NewFrameDataID E (connID s) = Ret \<lparr>fbytes = hdr_bytes (id_hdr (connID s)), fspare = sp\<rparr>" "length sp = FrameMaxSize - 4" .
  let ?fd = "\<lparr>fbytes = hdr_bytes (id_hdr (connID s)), fspare = sp\<rparr>"
  have "blank_frame (connID s) ?fd" using n(2) by (simp add: blank_frame_def frame_room_def fcap_def frame_sizes)
  then have "open_frame (connID s) ?fd" using blank_open(1) order_trans [OF id] by blast
  from WriteRecordType_open [OF this, of E RecordTypeHijacked] obtain fd where
    w: "WriteRecordType E ?fd RecordTypeHijacked = Ret fd" "open_frame (connID s) fd" by blast
  have unf: "Hijack E M s = bnd (writeFrame E M fd ?t) (\<lambda>(x, s). Ret (x, s\<lparr>wmu := False\<rparr>))"
    using False t(3) by (simp add: Hijack_def lock_wmu_def hijacking_def r n(1) w(1))
  have o: "open_frame (connID ?t) fd" using w(2) by simp
  show ?thesis
    unfolding unf
  proof (rule safe_bndI [OF writeFrame_safe [OF t(1,2) o]], unfold split_paired_all case_prod_conv safe_simps)
    fix err :: "goerr option" and s1 :: "'m sys"
    assume a: "conn_core E s1 \<and> write_changes ?t s1 \<and> minv (mux s1) \<and> fdw s1 = fdw ?t
      \<and> (\<exists>fs. data_sent ?t s1 fs \<and> (err = None \<longrightarrow> payloads fs = drop 4 (fbytes fd)))"
    then obtain fs where fs: "data_sent ?t s1 fs" by blast
    then have "data_sent s (s1\<lparr>wmu := False\<rparr>) fs" by (simp add: data_sent_def credit_def)
    moreover from a have ch: "write_changes ?t s1" "fdw s1 = fdw s" by simp_all
    moreover from ch have "conn_inv E (s1\<lparr>wmu := False\<rparr>)"
      using a assms(1) by (simp add: conn_inv_def write_changes_def)
    ultimately show "conn_inv E (s1\<lparr>wmu := False\<rparr>) \<and> minv (mux (s1\<lparr>wmu := False\<rparr>)) \<and> hijacked (s1\<lparr>wmu := False\<rparr>)
      \<and> same_place s (s1\<lparr>wmu := False\<rparr>) \<and> unread (s1\<lparr>wmu := False\<rparr>) = unread s \<and> readCh (s1\<lparr>wmu := False\<rparr>) = readCh s
      \<and> localClosed (s1\<lparr>wmu := False\<rparr>) = localClosed s \<and> remoteSentFinal (s1\<lparr>wmu := False\<rparr>) = remoteSentFinal s
      \<and> (\<exists>fs. data_sent s (s1\<lparr>wmu := False\<rparr>) fs)
      \<and> (hijacked s \<longrightarrow> err = Some ErrAlreadyHijacked \<and> s1\<lparr>wmu := False\<rparr> = s)"
      using a t(3) False by (auto simp: write_changes_def same_place_def unread_def)
  qed
qed

lemma LoadFrameReader_safe:
  assumes "conn_inv E s" and "minv (mux s)"
  shows "safe (LoadFrameReader E M s) (\<lambda>(err, s'). reader_post E s s' \<and> unread s' = unread s)"
  unfolding LoadFrameReader_def
  by (rule locked_read [OF assms, where R = "\<lambda>_ u. u = unread s"]) (rule safe_mono [OF loadFrameReader_safe], auto)

end

lemma deadline_set_ok [simp]: "deadline_ok (deadline_set now d t)"
  by (cases t) (simp_all add: deadline_set_def deadline_ok_def Let_def)

lemma SetDeadlines_inv:
  assumes "conn_inv E s"
  shows "conn_inv E (snd (SetReadDeadline t s))" "conn_inv E (snd (SetWriteDeadline t s))" "conn_inv E (snd (SetDeadline t s))"
  using assms by (simp_all add: SetReadDeadline_def SetWriteDeadline_def SetDeadline_def conn_inv_def conn_core_def)

lemma deadline_fire_ok: "deadline_ok d \<Longrightarrow> safe (deadline_fire now d) deadline_ok"
  by (auto simp: deadline_fire_def deadline_ok_def split: timer_state.splits)

section \<open>Every call\<close>

text \<open>The calls a program can make on a Conn, the timers included, and the state each leaves.\<close>

datatype conn_call =
    CallWrite "byte list" | CallWriteByte byte | CallWriteStart | CallFlush
  | CallReadFrom "body option" | CallWriteUserRecordType byte | CallWriteResponseData int i64 kvv
  | CallRead nat | CallLoadFrameReader | CallHijack | CallClose | CallCloseIfNotHijacked
  | CallSetDeadline "int option" | CallSetReadDeadline "int option" | CallSetWriteDeadline "int option"
  | CallReadTimer | CallWriteTimer

fun run_call :: "rap_config \<Rightarrow> 'm ConnMuxer \<Rightarrow> conn_call \<Rightarrow> 'm sys \<Rightarrow> 'm sys go" where
  "run_call E M (CallWrite p) s = map_go snd (Conn_Write E M p s)"
| "run_call E M (CallWriteByte c) s = map_go snd (Conn_WriteByte E M c s)"
| "run_call E M CallWriteStart s = map_go snd (WriteStart E s)"
| "run_call E M CallFlush s = map_go snd (Flush E M s)"
| "run_call E M (CallReadFrom r) s = map_go snd (Conn_ReadFrom E M r s)"
| "run_call E M (CallWriteUserRecordType c) s = map_go snd (WriteUserRecordType E c s)"
| "run_call E M (CallWriteResponseData code cl hdr) s = map_go snd (WriteResponseData E code cl hdr s)"
| "run_call E M (CallRead n) s = map_go snd (Conn_Read E M n s)"
| "run_call E M CallLoadFrameReader s = map_go snd (LoadFrameReader E M s)"
| "run_call E M CallHijack s = map_go snd (Hijack E M s)"
| "run_call E M CallClose s = map_go snd (Close E M s)"
| "run_call E M CallCloseIfNotHijacked s = map_go snd (closeIfNotHijacked E M s)"
| "run_call E M (CallSetDeadline t) s = Ret (snd (SetDeadline t s))"
| "run_call E M (CallSetReadDeadline t) s = Ret (snd (SetReadDeadline t s))"
| "run_call E M (CallSetWriteDeadline t) s = Ret (snd (SetWriteDeadline t s))"
| "run_call E M CallReadTimer s = map_go (\<lambda>d. s\<lparr>readDeadline := d\<rparr>) (deadline_fire (clock s) (readDeadline s))"
| "run_call E M CallWriteTimer s = map_go (\<lambda>d. s\<lparr>writeDeadline := d\<rparr>) (deadline_fire (clock s) (writeDeadline s))"

context conn_muxer
begin

lemma run_call_safe:
  assumes "conn_inv E s" and "minv (mux s)" and "recycle_ok s"
  shows "safe (run_call E M c s) (conn_inv E)"
proof (cases c)
  case (CallWrite p)
  then show ?thesis using Conn_Write_safe [OF assms(1,2), of p] by (auto simp: user_post_def elim: safe_mono)
next
  case (CallWriteByte b)
  then show ?thesis using Conn_WriteByte_safe [OF assms(1,2), of b] by (auto simp: user_post_def elim: safe_mono)
next
  case CallWriteStart
  then show ?thesis using WriteStart_safe [OF assms(1,2)] by (auto simp: user_post_def elim: safe_mono)
next
  case CallFlush
  then show ?thesis using Flush_safe [OF assms(1,2)] by (auto simp: user_post_def elim: safe_mono)
next
  case (CallReadFrom r)
  then show ?thesis using Conn_ReadFrom_safe [OF assms(1,2), of r] by (auto simp: user_post_def elim: safe_mono)
next
  case (CallWriteUserRecordType b)
  then show ?thesis using WriteUserRecordType_safe [OF assms(1,2), of b] by (auto simp: user_post_def elim: safe_mono)
next
  case (CallWriteResponseData code cl h)
  then show ?thesis
    using WriteResponseData_safe [OF assms(1,2), of code cl h] by (auto simp: user_post_def elim: safe_mono)
next
  case (CallRead n)
  then show ?thesis using Conn_Read_safe [OF assms(1,2), of n] by (auto simp: reader_post_def elim: safe_mono)
next
  case CallLoadFrameReader
  then show ?thesis using LoadFrameReader_safe [OF assms(1,2)] by (auto simp: reader_post_def elim: safe_mono)
next
  case CallHijack
  then show ?thesis using Hijack_safe [OF assms(1,2)] by (auto elim: safe_mono)
next
  case CallClose
  then show ?thesis using Close_safe [OF assms] by (auto elim: safe_mono)
next
  case CallCloseIfNotHijacked
  then show ?thesis using Close_safe [OF assms] assms(1) by (auto simp: closeIfNotHijacked_def elim: safe_mono)
next
  case (CallSetDeadline t)
  then show ?thesis using SetDeadlines_inv [OF assms(1)] by simp
next
  case (CallSetReadDeadline t)
  then show ?thesis using SetDeadlines_inv [OF assms(1)] by simp
next
  case (CallSetWriteDeadline t)
  then show ?thesis using SetDeadlines_inv [OF assms(1)] by simp
next
  case CallReadTimer
  have "deadline_ok (readDeadline s)" using assms(1) by (simp add: conn_inv_def conn_core_def)
  then show ?thesis using CallReadTimer assms(1) deadline_fire_ok
    by simp (rule safe_mono [OF deadline_fire_ok], auto simp: conn_inv_def conn_core_def)
next
  case CallWriteTimer
  have "deadline_ok (writeDeadline s)" using assms(1) by (simp add: conn_inv_def conn_core_def)
  then show ?thesis using CallWriteTimer assms(1) deadline_fire_ok
    by simp (rule safe_mono [OF deadline_fire_ok], auto simp: conn_inv_def conn_core_def)
qed

end

end
