(* ===== verification/Conn_Progress.thy ===== *)
theory Conn_Progress
  imports Conn_Safety
begin

text \<open>
  When a writer does not have to wait: the contract of a muxer that takes every frame, and the
  bound under which \<^verbatim>\<open>Conn.Write\<close> returns.
\<close>



text \<open>
  A muxer that is there: it takes every frame and is not aborted. On it, the window alone decides
  whether a writer has to wait.
\<close>

lemma blank_available: "blank_frame i fd \<Longrightarrow> Available fd = FrameMaxPayloadSize \<and> length (fbytes fd) \<le> FrameMaxSize"
  by (auto simp: blank_frame_def frame_room_def Available_def fcap_def frame_sizes)

locale accepting_muxer = conn_muxer +
  assumes accepts: "minv m \<Longrightarrow> frame_ok (fbytes fd) \<Longrightarrow> \<exists>m'. ConnWrite M k fd m = Ret (None, m')"
    and never_aborted: "minv m \<Longrightarrow> \<not> ConnAborted M m"
begin

definition writable :: "'a sys \<Rightarrow> bool" where
  "writable s \<longleftrightarrow> \<not> localClosed s \<and> \<not> remoteSentFinal s \<and> \<not> cancel (writeDeadline s)"

lemma writable_changes: "write_changes s s' \<Longrightarrow> writable s' = writable s"
  by (simp add: write_changes_def writable_def)

lemma write_loop_returns:
  assumes "conn_core E s" and "minv (mux s)" and "writable s" and "0 < credit s" and "frame_ok (fbytes fd)"
  shows "\<exists>s'. write_loop E M fd s = Ret (None, s') \<and> runstate s' \<noteq> runStateUnused"
  using assms(1-4)
proof (induction "ackCh s" arbitrary: s)
  case 0
  then have r: "write_ready M s = []" by (simp add: write_ready_def writable_def never_aborted)
  have "sendWindow s > 0" "\<not> remoteSentFinal s" using 0 by (simp_all add: credit_def writable_def)
  note e = write_loop_send [OF r this(2,1), of E fd]
  define q where "q = (if runstate s = runStateUnused then runStateActive else runstate s)"
  have q: "snd (starting (s\<lparr>sendWindow := sendWindow s - 1\<rparr>)) = s\<lparr>sendWindow := sendWindow s - 1, runstate := q\<rparr>" "q \<noteq> runStateUnused"
    by (simp_all add: starting_def q_def)
  from accepts [OF \<open>minv (mux s)\<close> assms(5)] obtain m' where
    "ConnWrite M (choices s (tick s)) fd (mux s) = Ret (None, m')" by blast
  then show ?case by (simp add: e q conn_write_def)
next
  case (Suc n)
  then have r: "write_ready M s = [CaseAck]" by (simp add: write_ready_def writable_def never_aborted)
  have sel: "select (write_ready M s) s = Ret (CaseAck, s\<lparr>tick := Suc (tick s)\<rparr>)" by (simp add: select_def r)
  let ?t = "s\<lparr>tick := Suc (tick s)\<rparr>"
  obtain w where w: "consumeAck E (?t\<lparr>ackCh := ackCh ?t - 1\<rparr>) = Ret (?t\<lparr>ackCh := ackCh ?t - 1, sendWindow := w\<rparr>)"
    "conn_core E (?t\<lparr>ackCh := ackCh ?t - 1, sendWindow := w\<rparr>)" "w = sendWindow s + 1"
    using consumeAck_core [of E ?t] Suc.prems(1) Suc.hyps(2) by auto
  let ?u = "?t\<lparr>ackCh := ackCh ?t - 1, sendWindow := w\<rparr>"
  have "\<exists>s'. write_loop E M fd ?u = Ret (None, s') \<and> runstate s' \<noteq> runStateUnused"
    using Suc.prems Suc.hyps(2) w(2,3) by (intro Suc.hyps(1)) (simp_all add: writable_def credit_def)
  then show ?case unfolding write_loop_pick [OF sel] using w(1) by simp
qed

lemma flush_returns:
  assumes "conn_core E s" and "minv (mux s)" and "writable s" and "0 < credit s"
    and "fdw s = Some fd" and "length (fbytes fd) \<le> FrameMaxSize"
  shows "\<exists>s'. flushLocked E M s = Ret (None, s') \<and> credit s - 1 \<le> credit s'"
proof -
  let ?s = "s\<lparr>fdw := None\<rparr>"
  note o = core_fdwD [OF assms(1,5)]
  have s: "conn_core E ?s" "minv (mux ?s)" "writable ?s" "0 < credit ?s"
    using assms(1-4) by (simp_all add: core_fdw writable_def credit_def)
  show ?thesis
  proof (cases "h_body (fhdr fd) \<or> h_head (fhdr fd)")
    case False
    then show ?thesis by (simp add: flushLocked_def assms(5) writeFrame_eq [OF o] free_frame_def credit_def)
  next
    case True
    note w = sized_wire(1) [OF o True assms(6)]
    then have f: "frame_ok (fbytes (sized fd))" "frame_room (sized fd)" by (simp_all add: wire_frame_def)
    from write_loop_returns [OF s f(1)] obtain s' where r: "write_loop E M (sized fd) ?s = Ret (None, s')" by blast
    with write_loop_safe [OF s(1,2) f] have "credit s' = credit ?s - 1" by (simp add: send_post_def)
    with r True assms(6) show ?thesis
      by (simp add: flushLocked_def assms(5) writeFrame_eq [OF o] credit_def)
  qed
qed

lemma writeStart_returns:
  assumes "conn_core E s" and "writable s"
  obtains fd p where "writeStart E s = Ret (None, s\<lparr>pool := p, fdw := Some fd\<rparr>)"
    "conn_core E (s\<lparr>pool := p, fdw := Some fd\<rparr>)" "fdw s = Some fd \<or> fdw s = None \<and> blank_frame (connID s) fd"
proof (cases rule: writeStart_cases [OF assms(1)])
  case (1 e t)
  with assms(2) show thesis by (simp add: writable_def)
next
  case (2 fd p)
  then show thesis by (intro that [of fd p])
qed

lemma append_room:
  assumes "open_frame i fd" and "length (fbytes fd) + length p \<le> FrameMaxSize"
  shows "length (fbytes (append_bytes E (upd_hdr f fd) p)) = length (fbytes fd) + length p"
    and "Available fd + length (fbytes fd) = FrameMaxSize"
  using assms by (auto simp: open_frame_def open_room_def frame_room_def Available_def fcap_def)

text \<open>Enough credit for the frames the rest of the data needs, one of them kept for the last.\<close>

lemma write_chunks_returns:
  assumes "conn_core E s" and "minv (mux s)" and "writable s" and "fdw s = Some fd"
    and "length (fbytes fd) \<le> FrameMaxSize" and "int k < credit s"
    and "length p \<le> Conn_Available s + k * FrameMaxPayloadSize"
  shows "\<exists>s' fd'. write_chunks E M p n None s = Some (Ret ((n + length p, None), s')) \<and> 0 < credit s'
    \<and> writable s' \<and> fdw s' = Some fd' \<and> length (fbytes fd') \<le> FrameMaxSize"
  using assms
proof (induction k arbitrary: s fd p n)
  case 0
  note o = core_fdwD [OF "0.prems"(1,4)]
  have a: "Available fd + length (fbytes fd) = FrameMaxSize"
    using "0.prems"(5) by (intro append_room(2) [OF o, of "[]"]) simp
  have le: "length p \<le> Conn_Available s" using "0.prems"(7) by simp
  then have p: "length (fbytes fd) + length p \<le> FrameMaxSize"
    using a by (simp add: Conn_Available_def fdw_val_def "0.prems"(4))
  show ?case
    using le p append_room(1) [OF o p] fdw_append_eq [OF "0.prems"(4) o, of E p] "0.prems"(3,6)
    by (simp add: write_chunks_done writable_def credit_def)
next
  case (Suc k)
  note o = core_fdwD [OF Suc.prems(1,4)]
  have a: "Available fd + length (fbytes fd) = FrameMaxSize"
    using Suc.prems(5) by (intro append_room(2) [OF o, of "[]"]) simp
  define m where "m = Conn_Available s"
  have m: "m = Available fd" by (simp add: m_def Conn_Available_def fdw_val_def Suc.prems(4))
  show ?case
  proof (cases "length p \<le> m")
    case True
    then have p: "length (fbytes fd) + length p \<le> FrameMaxSize" using a m by simp
    show ?thesis
      using True p append_room(1) [OF o p] fdw_append_eq [OF Suc.prems(4) o, of E p] Suc.prems(3,6)
      by (simp add: write_chunks_done m_def writable_def credit_def)
  next
    case False
    define r where "r = (if m > 0 then fdw_append E (take m p) s else Ret s)"
    have "\<exists>s1 fd1. r = Ret s1 \<and> conn_core E s1 \<and> minv (mux s1) \<and> writable s1 \<and> credit s1 = credit s
      \<and> fdw s1 = Some fd1 \<and> length (fbytes fd1) \<le> FrameMaxSize"
    proof (cases "m > 0")
      case True
      have p: "length (fbytes fd) + length (take m p) \<le> FrameMaxSize" using a m by simp
      have "conn_core E (s\<lparr>fdw := Some (append_bytes E (upd_hdr (\<lambda>h. h\<lparr>h_body := True\<rparr>) fd) (take m p))\<rparr>)"
        using core_fdw [OF Suc.prems(1), of "Some (append_bytes E (upd_hdr (\<lambda>h. h\<lparr>h_body := True\<rparr>) fd) (take m p))"]
          append_open [OF o, of E "take m p"] by simp
      with True p append_room(1) [OF o p] fdw_append_eq [OF Suc.prems(4) o, of E "take m p"] Suc.prems
      show ?thesis by (simp add: r_def writable_def credit_def)
    next
      case False
      with Suc.prems show ?thesis by (simp add: r_def)
    qed
    then obtain s1 fd1 where s1: "r = Ret s1" "conn_core E s1" "minv (mux s1)" "writable s1" "credit s1 = credit s"
      "fdw s1 = Some fd1" "length (fbytes fd1) \<le> FrameMaxSize" by blast
    have "0 < credit s1" using s1(5) Suc.prems(6) by simp
    from flush_returns [OF s1(2,3,4) this s1(6,7)] obtain s2 where
      f: "flushLocked E M s1 = Ret (None, s2)" "credit s1 - 1 \<le> credit s2" by blast
    from flushLocked_safe [OF s1(2,3)] f(1) have w: "write_post E s1 s2 True []" "fdw s2 = None" by simp_all
    then have s2: "conn_core E s2" "minv (mux s2)" "writable s2"
      using s1(4) writable_changes [of s1 s2] by (simp_all add: write_post_def)
    from writeStart_returns [OF s2(1,3)] w(2) obtain fd3 q where
      ws: "writeStart E s2 = Ret (None, s2\<lparr>pool := q, fdw := Some fd3\<rparr>)" "conn_core E (s2\<lparr>pool := q, fdw := Some fd3\<rparr>)"
      and b: "blank_frame (connID s2) fd3" by auto
    let ?s3 = "s2\<lparr>pool := q, fdw := Some fd3\<rparr>"
    have av: "Conn_Available ?s3 = FrameMaxPayloadSize" "length (fbytes fd3) \<le> FrameMaxSize"
      using blank_available [OF b] by (simp_all add: Conn_Available_def fdw_val_def)
    have "write_chunks E M p n None s = write_chunks E M (drop m p) (n + m) None ?s3"
      using False s1(1) f(1) ws(1) unfolding m_def r_def not_le
      by (subst write_chunks.simps) (simp add: Let_def)
    moreover have "\<exists>s' fd'. write_chunks E M (drop m p) (n + m) None ?s3 = Some (Ret ((n + m + length (drop m p), None), s'))
      \<and> 0 < credit s' \<and> writable s' \<and> fdw s' = Some fd' \<and> length (fbytes fd') \<le> FrameMaxSize"
      using ws(2) s2 av f(2) s1(5) Suc.prems(6,7) m_def
      by (intro Suc.IH) (simp_all add: writable_def credit_def)
    ultimately show ?thesis using False by simp
  qed
qed

lemma Conn_Write_returns:
  assumes "conn_inv E s" and "minv (mux s)" and "writable s" and "fdw s = None" and "0 < credit s"
    and "int (length p) \<le> credit s * int FrameMaxPayloadSize"
  shows "\<exists>s'. Conn_Write E M p s = Ret ((length p, None), s')"
proof -
  let ?s = "s\<lparr>wmu := True\<rparr>"
  have s: "conn_core E ?s" "writable ?s" "minv (mux ?s)" "\<not> wmu s" "fdw ?s = None"
    using assms(1-4) by (simp_all add: conn_inv_def writable_def)
  from writeStart_returns [OF s(1,2)] s(5) obtain fd q where
    ws: "writeStart E ?s = Ret (None, ?s\<lparr>pool := q, fdw := Some fd\<rparr>)" "conn_core E (?s\<lparr>pool := q, fdw := Some fd\<rparr>)"
    and b: "blank_frame (connID ?s) fd" by auto
  let ?t = "?s\<lparr>pool := q, fdw := Some fd\<rparr>"
  define k where "k = nat (credit s - 1)"
  have k: "int k < credit ?t" "credit s = int k + 1" using assms(5) by (simp_all add: k_def credit_def)
  have av: "Conn_Available ?t = FrameMaxPayloadSize" "length (fbytes fd) \<le> FrameMaxSize"
    using blank_available [OF b] by (simp_all add: Conn_Available_def fdw_val_def)
  have "int (length p) \<le> int ((k + 1) * FrameMaxPayloadSize)"
    using assms(6) by (simp only: k(2) of_nat_mult of_nat_add of_nat_1)
  then have len: "length p \<le> Conn_Available ?t + k * FrameMaxPayloadSize"
    unfolding av(1) of_nat_le_iff by simp
  from write_chunks_returns [OF ws(2) _ _ _ av(2) k(1) len, of 0] s(2,3) obtain s1 fd1 where
    c: "write_chunks E M p 0 None ?t = Some (Ret ((length p, None), s1))" "0 < credit s1" "writable s1"
      "fdw s1 = Some fd1" "length (fbytes fd1) \<le> FrameMaxSize"
    by (auto simp: writable_def)
  have "\<exists>g. write_chunks E M p 0 None ?t = Some g \<and> safe g (\<lambda>((k, err'), s').
      write_post E ?t s' (err' = None) p \<and> (err' = None \<longrightarrow> k = 0 + length p))"
    using ws(2) s(3) by (intro write_chunks_safe) simp_all
  with c(1) have "conn_core E s1" "minv (mux s1)" by (auto simp: write_post_def)
  from flush_returns [OF this c(3,2,4,5)] obtain s2 where "flushLocked E M s1 = Ret (None, s2)" by blast
  with ws(1) c(1) s(4) show ?thesis
    by (simp add: Conn_Write_def lock_wmu_def conn_write_bytes_def run_loop_def)
qed

end

text \<open>Closing waits for nobody: with the local end closed the send loop always comes to an end.\<close>

lemma write_loop_closed_returns:
  assumes "conn_core E s" and "localClosed s"
  shows "\<exists>r. write_loop E M fd s = Ret r"
  using assms
proof (induction "ackCh s" arbitrary: s rule: less_induct)
  case less
  then have "write_ready M s \<noteq> []" by (simp add: write_ready_def)
  then obtain c where sel: "select (write_ready M s) s = Ret (c, s\<lparr>tick := Suc (tick s)\<rparr>)" by (auto simp: select_def)
  let ?t = "s\<lparr>tick := Suc (tick s)\<rparr>"
  show ?case
  proof (cases "c = CaseAck")
    case True
    with select_mem [OF sel] have ack: "ackCh s > 0" by (auto dest: write_ready_cases)
    obtain w where w: "consumeAck E (?t\<lparr>ackCh := ackCh ?t - 1\<rparr>) = Ret (?t\<lparr>ackCh := ackCh ?t - 1, sendWindow := w\<rparr>)"
      "conn_core E (?t\<lparr>ackCh := ackCh ?t - 1, sendWindow := w\<rparr>)"
      using consumeAck_core [of E ?t] less.prems(1) ack by auto
    have "\<exists>r. write_loop E M fd (?t\<lparr>ackCh := ackCh ?t - 1, sendWindow := w\<rparr>) = Ret r"
      using less.prems(2) ack w(2) by (intro less.hyps) simp_all
    then show ?thesis unfolding write_loop_pick [OF sel] using True w(1) by simp
  next
    case False
    then show ?thesis by (simp add: write_loop_pick [OF sel])
  qed
qed

lemma flush_closed_returns:
  assumes "conn_core E s" and "localClosed s"
  shows "\<exists>r. flushLocked E M s = Ret r"
proof (cases "fdw s")
  case None
  then show ?thesis by (simp add: flushLocked_def)
next
  case (Some fd)
  have "\<exists>r. write_loop E M (sized fd) (s\<lparr>fdw := None\<rparr>) = Ret r"
    using assms by (intro write_loop_closed_returns) (simp_all add: core_fdw)
  then show ?thesis
    using writeFrame_eq [OF core_fdwD [OF assms(1) Some], of E M "s\<lparr>fdw := None\<rparr>"]
    by (auto simp: flushLocked_def Some)
qed

context accepting_muxer
begin

lemma writeFinalLocked_returns:
  assumes "conn_core E s" and "minv (mux s)" and "localClosed s"
  shows "\<exists>r. writeFinalLocked E M isAck s = Ret r"
proof (cases "localSentFinal s")
  case True
  then show ?thesis by (simp add: writeFinalLocked_def localSendingFinal_def)
next
  case False
  let ?s = "s\<lparr>localSentFinal := True\<rparr>"
  have pre: "conn_core E ?s" "minv (mux ?s)" "localClosed ?s" using assms by simp_all
  from flush_closed_returns [OF pre(1,3)] obtain err s1 where f: "flushLocked E M ?s = Ret (err, s1)" by (metis surj_pair)
  from flush_closed [OF pre] f have s1: "conn_core E s1" "minv (mux s1)" by (simp_all add: write_post_def)
  from makeFinalFrame_cases [OF s1(1), of isAck] obtain fd p where
    m: "makeFinalFrame E isAck s1 = Ret (fd, s1\<lparr>pool := p\<rparr>)" "wire_frame (connID s1) fd" .
  then have "frame_ok (fbytes fd)" by (simp add: wire_frame_def)
  from accepts [OF s1(2) this] obtain m' where "ConnWrite M (choices s1 (tick s1)) fd (mux s1) = Ret (None, m')" by blast
  then show ?thesis
    using False f m(1) by (cases err) (simp_all add: writeFinalLocked_def localSendingFinal_def conn_write_def)
qed

lemma Close_returns:
  assumes "conn_inv E s" and "minv (mux s)" and "onRecycle s = None"
  shows "\<exists>r. Close E M s = Ret r"
proof (cases "localClosed s")
  case True
  with assms(1) show ?thesis by (simp add: Close_def lock_cmu_def conn_inv_def)
next
  case False
  let ?s = "s\<lparr>cmu := True, localClosed := True, wmu := True, rmu := True\<rparr>"
  have s: "conn_core E ?s" "minv (mux ?s)" "localClosed ?s" "\<not> localSentFinal ?s" "\<not> wmu s" "\<not> rmu s" "\<not> cmu s"
    using assms(1,2) False by (simp_all add: conn_inv_def)
  from writeFinalLocked_returns [OF s(1-3)] obtain err s1 where
    w: "writeFinalLocked E M (remoteSentFinal s) ?s = Ret (err, s1)" by (metis surj_pair)
  from writeFinalLocked_safe [OF s(1-4), of "remoteSentFinal s"] w
  have c: "write_changes (?s\<lparr>localSentFinal := True\<rparr>) s1" "fdw s1 = None" by simp_all
  then have "remoteSentFinal s \<Longrightarrow> \<exists>r. recycleLocked E s1 = Ret r"
    using assms(3) by (simp add: recycleLocked_def canRecycleLocked_def forceRecycleLocked_def Let_def fold_free_frame write_changes_def)
  with False s w show ?thesis
    by (cases "remoteSentFinal s") (auto simp: Close_def lock_cmu_def lock_wmu_def lock_rmu_def)
qed

end

end
