(* ===== verification/Conn_Wire.thy ===== *)
theory Conn_Wire
  imports Conn_Progress
begin

text \<open>
  A Conn on a plain wire (a muxer that accepts every frame and keeps them in order), and the
  properties of a single Conn that follow from its laws under the contract \<open>conn_muxer\<close>.
\<close>

section \<open>The wire\<close>

definition wire_mux :: "FrameData list ConnMuxer" where
  "wire_mux = \<lparr>ConnWrite = (\<lambda>_ fd m. Ret (None, m @ [fd])), ConnAborted = (\<lambda>_. False)\<rparr>"

lemma wire_mux_simps [simp]:
  "ConnWrite wire_mux k fd m = Ret (None, m @ [fd])" "ConnAborted wire_mux m = False"
  by (simp_all add: wire_mux_def)

interpretation wire: accepting_muxer wire_mux "\<lambda>_. True" "\<lambda>m. m"
  by unfold_locales simp_all

lemma wire_accepting: "accepting_muxer wire_mux (\<lambda>_. True) (\<lambda>m. m)"
  by (rule wire.accepting_muxer_axioms)

lemma wire_contract: "conn_muxer wire_mux (\<lambda>_. True) (\<lambda>m. m)"
  by (rule wire.conn_muxer_axioms)

text \<open>A new Conn on a wire on which nothing has been sent.\<close>

definition wire_conn :: "rap_config \<Rightarrow> ConnID \<Rightarrow> (nat \<Rightarrow> nat) \<Rightarrow> FrameData list sys" where
  "wire_conn E i orc =
     \<lparr>connID = i, onRecycle = None, ackCh = 0, readCh = [], readChClosed = False, cmu = False,
        localClosed = False, localSentFinal = False, remoteSentFinal = False,
        sendWindow = SendWindowSize E, runstate = runStateUnused, hijacked = False,
        wmu = False, fdw = None, rmu = False, fdr = None, cfp = [],
        readDeadline = makeConnDeadline, writeDeadline = makeConnDeadline, serialNumber = 1,
        mux = [], pool = pool_init E, clock = 0, choices = orc, tick = 0\<rparr>"

lemma MaxConnID_less: "sanitycheck E \<Longrightarrow> i \<le> MaxConnID E \<Longrightarrow> i < MuxerConnID"
  by (auto simp: sanitycheck_def ProtocolMaxConnID_eq MuxerConnID_eq word_le_nat_alt word_less_nat_alt)

lemma NewConn_wire:
  "sanitycheck E \<Longrightarrow> i \<le> MaxConnID E \<Longrightarrow> NewConn E i 1 [] (pool_init E) 0 orc = Ret (wire_conn E i orc)"
  using MaxConnID_less [of E i] by (simp add: NewConn_def wire_conn_def not_le)

lemma wire_conn_sel [simp]:
  "connID (wire_conn E i orc) = i" "onRecycle (wire_conn E i orc) = None" "ackCh (wire_conn E i orc) = 0"
  "readCh (wire_conn E i orc) = []" "\<not> readChClosed (wire_conn E i orc)" "\<not> cmu (wire_conn E i orc)"
  "\<not> localClosed (wire_conn E i orc)" "\<not> localSentFinal (wire_conn E i orc)" "\<not> remoteSentFinal (wire_conn E i orc)"
  "sendWindow (wire_conn E i orc) = SendWindowSize E" "runstate (wire_conn E i orc) = runStateUnused"
  "\<not> hijacked (wire_conn E i orc)" "\<not> wmu (wire_conn E i orc)" "fdw (wire_conn E i orc) = None"
  "\<not> rmu (wire_conn E i orc)" "fdr (wire_conn E i orc) = None" "cfp (wire_conn E i orc) = []"
  "readDeadline (wire_conn E i orc) = makeConnDeadline" "writeDeadline (wire_conn E i orc) = makeConnDeadline"
  "mux (wire_conn E i orc) = []" "pool (wire_conn E i orc) = pool_init E"
  by (simp_all add: wire_conn_def)

lemma wire_conn_inv: "sanitycheck E \<Longrightarrow> i \<le> MaxConnID E \<Longrightarrow> conn_inv E (wire_conn E i orc)"
  using sanity_window [of E] by (simp add: conn_inv_def conn_core_def) (simp add: sanitycheck_def not_less)

lemma wire_recycle_ok: "onRecycle s = None \<Longrightarrow> wire.recycle_ok s"
  by (simp add: wire.recycle_ok_def)

lemma default_conn_inv [simp]: "conn_inv rap_default (wire_conn rap_default 7 orc)"
  by (rule wire_conn_inv) simp_all

section \<open>Properties of a Conn\<close>

text \<open>
  C15. \<^verbatim>\<open>Conn.Write\<close> sends what it was given: when it returns without an error it has counted every
  byte, left nothing in the frame being written, and put on the wire a sequence of well-formed data
  frames of this Conn, none larger than \<^verbatim>\<open>FrameMaxSize\<close>, whose payloads joined are the bytes that were
  waiting followed by the bytes written; each frame took one unit of the send window.
\<close>

theorem Write_sends_stream:
  assumes "conn_muxer M minv sent" and "conn_inv E s" and "minv (mux s)"
    and "Conn_Write E M p s = Ret ((n, None), s')"
  shows "n = length p \<and> fdw s' = None \<and> (\<exists>fs. sent (mux s') = sent (mux s) @ fs \<and> payloads fs = pend s @ p
    \<and> list_all (\<lambda>fd. wire_frame (connID s) fd \<and> is_data fd \<and> length (fbytes fd) \<le> FrameMaxSize) fs
    \<and> credit s' \<le> credit s - int (length fs) \<and> 0 \<le> credit s')"
proof -
  have m: "conn_muxer.user_post M minv sent E s s' True p \<and> n = length p \<and> fdw s' = None"
    using conn_muxer.Conn_Write_safe [OF assms(1-3), of p] assms(4) by simp
  then have p: "conn_inv E s'" "conn_muxer.write_post M minv sent E s s' True p"
    by (simp_all add: conn_muxer.user_post_def [OF assms(1)])
  then obtain fs where fs: "conn_muxer.data_sent M minv sent s s' fs" "payloads fs @ pend s' = pend s @ p"
    by (auto simp: conn_muxer.write_post_def [OF assms(1)])
  moreover have "0 \<le> credit s'" using p(1) by (simp add: conn_inv_def conn_core_def credit_def)
  moreover have "wire_frame i fd \<Longrightarrow> length (fbytes fd) \<le> FrameMaxSize" for i fd
    by (simp add: wire_frame_def frame_ok_def)
  moreover have "pend s' = []" using m by simp
  ultimately show ?thesis
    using m by (auto simp: conn_muxer.data_sent_def [OF assms(1)] list_all_iff)
qed

theorem Write_sends_stream_witness:
  "\<exists>s' fs. Conn_Write rap_default wire_mux [1, 2, 3] (wire_conn rap_default 7 id) = Ret ((3, None), s')
     \<and> mux s' = fs \<and> payloads fs = [1, 2, 3]"
proof -
  let ?s = "wire_conn rap_default 7 id"
  have "\<exists>s'. Conn_Write rap_default wire_mux [1, 2, 3] ?s = Ret ((length [1, 2, 3 :: byte], None), s')"
    by (rule wire.Conn_Write_returns) (simp_all add: wire.writable_def makeConnDeadline_def credit_def frame_sizes)
  then obtain s' where r: "Conn_Write rap_default wire_mux [1, 2, 3] ?s = Ret ((3, None), s')" by auto
  from Write_sends_stream [OF wire_contract _ _ r] show ?thesis using r by (auto simp: pend_def)
qed

text \<open>
  C17. The window bounds what a writer may send ahead, and nothing else holds it up: on a muxer that
  takes every frame, a Conn that is open with nothing waiting accepts a write of up to \<open>credit\<close> times
  65532 bytes (the window plus the acknowledgements already in, times the largest payload) and
  returns its full length, for every choice \<^verbatim>\<open>select\<close> makes.
\<close>

theorem Write_returns_within_window:
  assumes "accepting_muxer M minv sent" and "conn_inv E s" and "minv (mux s)"
    and "\<not> localClosed s" and "\<not> remoteSentFinal s" and "\<not> cancel (writeDeadline s)" and "fdw s = None"
    and "0 < credit s" and "int (length p) \<le> credit s * 65532"
  shows "\<exists>s'. Conn_Write E M p s = Ret ((length p, None), s')"
  using accepting_muxer.Conn_Write_returns [OF assms(1-3) _ assms(7,8), of p] assms(4-6,9)
  by (simp add: accepting_muxer.writable_def [OF assms(1)] frame_sizes)

theorem Write_returns_within_window_witness:
  "\<exists>s'. Conn_Write rap_default wire_mux (replicate 524256 0) (wire_conn rap_default 7 id) = Ret ((524256, None), s')"
  using Write_returns_within_window [OF wire_accepting, of rap_default "wire_conn rap_default 7 id" "replicate 524256 0"]
  by (simp add: makeConnDeadline_def credit_def)

text \<open>
  C16. \<^verbatim>\<open>Conn.Read\<close> loses and reorders nothing: the bytes it returns are the next ones of what the peer
  has sent and the Conn has not yet handed out, the rest is what remains; with room in the buffer
  it returns bytes exactly when it reports no error; and it reports the end of the stream only
  when the peer's final frame has come and everything before it has been handed out. It takes the
  first \<open>k\<close> frames of the queue, for some \<open>k\<close>, and the frames it sends are exactly \<open>k\<close> well-formed
  acknowledgements of this Conn (fewer only with a muxer that can be aborted, as the muxer then refuses
  frames and \<^verbatim>\<open>writeAckFrame\<close> ignores the error).
\<close>

theorem Read_in_order:
  assumes "conn_muxer M minv sent" and "conn_inv E s" and "minv (mux s)" and "0 < n"
    and "Conn_Read E M n s = Ret ((bs, err), s')"
  shows "unread s = bs @ unread s' \<and> length bs \<le> n \<and> (err = None \<longleftrightarrow> bs \<noteq> [])
    \<and> (err = Some ErrEOF \<longrightarrow> unread s = [] \<and> remoteSentFinal s) \<and> conn_inv E s'
    \<and> (\<exists>k acks. readCh s' = drop k (readCh s) \<and> k \<le> length (readCh s) \<and> sent (mux s') = sent (mux s) @ acks
         \<and> list_all (\<lambda>fd. wire_frame (connID s) fd \<and> is_ack fd) acks
         \<and> length acks \<le> k \<and> (length acks = k \<or> (\<exists>m. minv m \<and> ConnAborted M m)))"
proof -
  have r: "conn_muxer.reader_post M minv sent E s s'" "unread s = bs @ unread s'" "length bs \<le> n" "err = None \<longleftrightarrow> bs \<noteq> []"
    "err = Some ErrEOF \<longrightarrow> unread s = [] \<and> remoteSentFinal s"
    using conn_muxer.Conn_Read_safe [OF assms(1-3), of n] assms(4,5) by auto
  from r(1) obtain k where "conn_inv E s'" "readCh s' = drop k (readCh s)" "k \<le> length (readCh s)"
    "conn_muxer.acks_sent M minv sent s s' k"
    by (auto simp: conn_muxer.reader_post_def [OF assms(1)] conn_muxer.read_post_def [OF assms(1)])
  then show ?thesis using r(2-5) unfolding conn_muxer.acks_sent_def [OF assms(1)] by blast
qed

definition one_data_frame :: FrameData where
  "one_data_frame = \<lparr>fbytes = [0, 2, 0x40, 7, 10, 20], fspare = replicate (FrameMaxSize - 6) 0\<rparr>"

lemma one_data_frame_wire: "wire_frame 7 one_data_frame" "is_data one_data_frame" "in_frame one_data_frame"
  by (simp_all add: one_data_frame_def wire_frame_def is_data_def frame_ok_def has_payload_def in_frame_def
      frame_room_def fcap_def frame_sizes bit_simps)

theorem Read_in_order_witness:
  "\<exists>s' ack. Conn_Read rap_default wire_mux 1 ((wire_conn rap_default 7 id)\<lparr>readCh := [one_data_frame]\<rparr>)
     = Ret (([10], None), s') \<and> unread s' = [20] \<and> readCh s' = [] \<and> mux s' = [ack] \<and> wire_frame 7 ack \<and> is_ack ack"
proof -
  let ?s = "(wire_conn rap_default 7 id)\<lparr>readCh := [one_data_frame]\<rparr>"
  have inv: "conn_inv rap_default ?s"
    using default_conn_inv [of id] one_data_frame_wire by (simp add: conn_inv_def conn_core_def)
  have u: "unread ?s = [10, 20]" by (simp add: unread_def one_data_frame_def)
  have id7: "7 \<le> MaxConnID rap_default" "MaxConnID rap_default \<le> MuxerConnID" by (simp_all add: MuxerConnID_eq)
  from AllocID_blank [OF pool_init_ok [of rap_default] id7] obtain fd p where
    a: "FrameDataAllocID rap_default 7 (pool_init rap_default) = Ret (fd, p)" "blank_frame 7 fd" .
  have "on_header SetFlow fd = Ret (upd_hdr (\<lambda>h. h\<lparr>h_flow := True\<rparr>) fd)"
    using ack_frame(1) [OF a(2)] by (simp add: MuxerConnID_eq)
  with a(1) one_data_frame_wire(3) obtain bs s' where
    r: "Conn_Read rap_default wire_mux 1 ?s = Ret ((bs, None), s')" "readCh s' = []"
    by (simp add: Conn_Read_def lock_rmu_def conn_read_def loadFrameReader.simps readFrame_def read_ready_def select_def
        makeConnDeadline_def NewFrameParser_def Payload_def slice_from_def FrameHeaderSize_def one_data_frame_def
        writeAckFrame_def alloc_frame_def conn_write_def FrameParser_Read_def)
  note w = Read_in_order [OF wire_contract inv _ _ r(1)]
  from w u have bs: "[10, 20] = bs @ unread s'" "length bs \<le> 1" "bs \<noteq> []" by auto
  then have bs: "bs = [10]" "unread s' = [20]" by (cases bs; simp)+
  from w obtain k acks where k: "[] = drop k [one_data_frame]" "k \<le> 1" "mux s' = acks"
    "list_all (\<lambda>fd. wire_frame 7 fd \<and> is_ack fd) acks" "length acks = k" by (auto simp: r(2))
  then have "k = 1" by (cases k) auto
  with k(5) obtain ack where "acks = [ack]" by (auto simp: length_Suc_conv)
  with k r bs show ?thesis by auto
qed

text \<open>
  C18. The close handshake. Closing a Conn twice is refused with \<^verbatim>\<open>io.ErrClosedPipe\<close> and changes nothing.
  The first \<^verbatim>\<open>Close\<close> of a Conn with nothing waiting to be sent puts exactly one frame on the wire, a
  well-formed final frame of this Conn, marked as an acknowledgement exactly when the peer's final
  frame had come before; in that case the Conn is recycled to the state of a new one, otherwise it
  stays closed and waits for the peer.
\<close>

theorem Close_handshake:
  assumes "conn_muxer M minv sent" and "conn_inv E s" and "minv (mux s)"
    and "conn_muxer.recycle_ok minv sent s" and "\<not> has_pending s" and "\<And>m. minv m \<Longrightarrow> \<not> ConnAborted M m"
    and "Close E M s = Ret (err, s')"
  shows "if localClosed s then err = Some ErrClosedPipe \<and> s' = s
    else err = None
      \<and> (\<exists>fd. sent (mux s') = sent (mux s) @ [fd] \<and> wire_frame (connID s) fd \<and> IsFinal (fbytes fd) = Ret True
           \<and> IsFinalAck (fbytes fd) = Ret (remoteSentFinal s))
      \<and> (if remoteSentFinal s then like_new E s' else localClosed s' \<and> runstate s' = runStateWaitFin)"
proof (cases "localClosed s")
  case True
  with conn_muxer.Close_safe [OF assms(1-4)] assms(7) show ?thesis by simp
next
  case False
  with conn_muxer.Close_safe [OF assms(1-4)] assms(5-7)
  have c: "err = None" "conn_muxer.final_sent M minv sent s s' (remoteSentFinal s)"
    "if remoteSentFinal s then like_new E s' else localClosed s' \<and> runstate s' = runStateWaitFin"
    by (auto split: if_splits)
  from c(2) assms(6) obtain fd where
    fd: "sent (mux s') = sent (mux s) @ [fd]" "wire_frame (connID s) fd" "is_final fd" "h_head (fhdr fd) = remoteSentFinal s"
    by (auto simp: conn_muxer.final_sent_def [OF assms(1)])
  have len: "4 \<le> length (fbytes fd)" using wire_frame_in [OF fd(2)] by blast
  then have "IsFinal (fbytes fd) = Ret True" "IsFinalAck (fbytes fd) = Ret (remoteSentFinal s)"
    using fd(3,4) hdr_classify(4) [OF frame_view(2) [OF len], of "drop 4 (fbytes fd)"] frame_view(1) [OF len]
    by (simp_all add: view_read is_final_def)
  with False c fd show ?thesis by auto
qed

theorem Close_handshake_witness:
  "\<exists>s' fd. Close rap_default wire_mux (wire_conn rap_default 7 id) = Ret (None, s') \<and> mux s' = [fd]
     \<and> IsFinal (fbytes fd) = Ret True \<and> IsFinalAck (fbytes fd) = Ret False \<and> runstate s' = runStateWaitFin"
proof -
  let ?s = "wire_conn rap_default 7 id"
  obtain err s' where r: "Close rap_default wire_mux ?s = Ret (err, s')"
    using wire.Close_returns [of rap_default ?s] by auto
  from Close_handshake [OF wire_contract _ _ _ _ _ r] r show ?thesis
    by (auto simp: wire_recycle_ok has_pending_def)
qed

text \<open>
  C30. A Conn closed with data waiting loses it and hangs its peer. When a frame with content is still
  being filled, \<^verbatim>\<open>Close\<close> reports success, but the content is dropped and no final frame is sent
  either: nothing at all reaches the muxer, while the Conn counts its final frame as sent, so it
  will not send another. (\<^verbatim>\<open>Close\<close> closes \<^verbatim>\<open>localClosed\<close> before it flushes, and a closed Conn sends no
  data; the final frame is sent only if the flush succeeded.)
\<close>

theorem Close_drops_pending:
  assumes "conn_muxer M minv sent" and "conn_inv E s" and "minv (mux s)"
    and "conn_muxer.recycle_ok minv sent s" and "has_pending s" and "\<not> localClosed s" and "\<not> remoteSentFinal s"
    and "Close E M s = Ret (err, s')"
  shows "err = None \<and> sent (mux s') = sent (mux s) \<and> fdw s' = None \<and> localSentFinal s'"
  using conn_muxer.Close_safe [OF assms(1-4)] assms(5-8) by (auto simp: conn_inv_def)

definition pending_conn :: "FrameData list sys" where
  "pending_conn = (wire_conn rap_default 7 id)\<lparr>fdw := Some one_data_frame\<rparr>"

lemma pending_conn_inv: "conn_inv rap_default pending_conn" "has_pending pending_conn"
  using default_conn_inv [of id]
  by (simp_all add: pending_conn_def conn_inv_def conn_core_def has_pending_def open_frame_def one_data_frame_def
      open_room_def frame_room_def fcap_def frame_sizes bit_simps)

theorem Close_drops_pending_witness:
  "\<exists>s'. Close rap_default wire_mux pending_conn = Ret (None, s') \<and> mux s' = [] \<and> localSentFinal s'"
proof -
  have o: "onRecycle pending_conn = None" "\<not> localClosed pending_conn" "\<not> remoteSentFinal pending_conn" "mux pending_conn = []"
    by (simp_all add: pending_conn_def)
  obtain err s' where r: "Close rap_default wire_mux pending_conn = Ret (err, s')"
    using wire.Close_returns [OF pending_conn_inv(1) _ o(1)] by auto
  from Close_drops_pending [OF wire_contract pending_conn_inv(1) _ wire_recycle_ok [OF o(1)] pending_conn_inv(2) o(2,3) r] r o(4)
  show ?thesis by auto
qed

text \<open>
  C19. Recycling gives back a new Conn: whatever state a Conn is in, if recycling it returns, then all
  its fields except the recycle callback (the ID, the flags, the window, the queues, the frames, the
  deadlines) are those \<^verbatim>\<open>NewConn\<close> would give it.
\<close>

theorem recycle_restores_new:
  assumes "recycle E s = Ret (u, s')" and "connID s < MuxerConnID"
  shows "NewConn E (connID s) (serialNumber s) (mux s') (pool s') (clock s) (choices s)
    = Ret (s'\<lparr>onRecycle := None, tick := 0, cmu := False\<rparr>)"
proof -
  let ?s = "s\<lparr>wmu := True, rmu := True, runstate := runStateRecycle\<rparr>"
  from assms(1) obtain t where t: "forceRecycleLocked E ?s = Ret t" and s': "s' = t\<lparr>rmu := False, wmu := False\<rparr>"
    by (auto simp: recycle_def lock_wmu_def lock_rmu_def recycleLocked_def Let_def bnd_Ret_conv map_go_Ret_conv
        split: if_splits option.splits)
  have "like_new E t \<and> connID t = connID s \<and> serialNumber t = serialNumber s \<and> clock t = clock s \<and> choices t = choices s"
    using t by (auto simp: forceRecycleLocked_def Let_def fold_free_frame bnd_Ret_conv like_new_def split: option.splits)
  with assms(2) s' show ?thesis by (simp add: NewConn_def like_new_def)
qed

definition closed_conn :: "FrameData list sys" where
  "closed_conn = (wire_conn rap_default 7 id)\<lparr>localClosed := True, localSentFinal := True, remoteSentFinal := True,
     readChClosed := True, sendWindow := 3, runstate := runStateWaitFin\<rparr>"

theorem recycle_restores_new_witness:
  "\<exists>s'. recycle rap_default closed_conn = Ret ((), s')
     \<and> NewConn rap_default 7 1 [] (pool_init rap_default) 0 id = Ret (s'\<lparr>onRecycle := None, tick := 0, cmu := False\<rparr>)"
proof -
  obtain s' where r: "recycle rap_default closed_conn = Ret ((), s')" and p: "mux s' = []" "pool s' = pool_init rap_default"
    by (simp add: closed_conn_def recycle_def lock_wmu_def lock_rmu_def recycleLocked_def canRecycleLocked_def
        forceRecycleLocked_def Let_def)
  have "connID closed_conn < MuxerConnID" "connID closed_conn = 7" "serialNumber closed_conn = 1" "clock closed_conn = 0"
    "choices closed_conn = id" by (simp_all add: closed_conn_def MuxerConnID_eq wire_conn_def)
  with recycle_restores_new [OF r] p show ?thesis using r by auto
qed

lemma readFrom_stuck:
  assumes "helper r s = Ret ((0, None, r), s)"
  shows "readFrom_loop helper r n s = None"
proof (cases "readFrom_loop helper r n s")
  case (Some g)
  have "helper r s \<noteq> Ret ((0, None, r), s)"
    by (rule readFrom_loop.raw_induct [where P = "\<lambda>h r n t g. h r t \<noteq> Ret ((0, None, r), t)", OF _ Some])
      (auto split: option.splits go.splits)
  with assms show ?thesis by simp
qed

text \<open>
  C31. A full frame makes \<^verbatim>\<open>ReadFrom\<close> spin. If the frame being written has no room left (a request
  record that fills it exactly) and no write deadline has been set, \<^verbatim>\<open>Conn.ReadFrom\<close> of a body that
  still has bytes to give never returns by itself: in every round it reads into an empty buffer, gets
  no bytes and no error, sends nothing, and leaves the Conn and the body as they were. Only what
  \<^verbatim>\<open>writeStart\<close> looks at in each round can end it: somebody else closing the Conn, the peer's final
  frame, or a write deadline (one that has fired ends it with the timeout error, hence the condition
  that none is armed, which makes the result independent of the time that passes).
\<close>

theorem ReadFrom_spins_on_full_frame:
  assumes "conn_inv E s" and "fdw s = Some fd" and "Available fd = 0" and "\<not> remoteSentFinal s"
    and "\<not> cancel (writeDeadline s)" and "timer (writeDeadline s) = NoTimer"
    and "b_reads r = (c, e) # cs" and "c \<noteq> []" and "b_limit r \<noteq> Some 0"
  shows "readFromHelper E M r s = Ret ((0, None, r), s)
    \<and> readFrom_loop (readFromHelper E M) r 0 s = None \<and> Conn_ReadFrom E M (Some r) s = Blocks"
proof -
  have s: "\<not> localClosed s" "\<not> wmu s" using assms(1,2) by (auto simp: conn_inv_def)
  have lim: "Body_Read r 0 = ([], None, r)"
  proof (cases "b_limit r")
    case None
    then have "r\<lparr>b_limit := map_option (\<lambda>l. l - 0) (b_limit r), b_reads := (c, e) # cs\<rparr> = r"
      using assms(7) by (cases r) simp
    with None assms(7,8) show ?thesis by (simp add: Body_Read_def)
  next
    case (Some l)
    then have "r\<lparr>b_limit := map_option (\<lambda>l. l - 0) (b_limit r), b_reads := (c, e) # cs\<rparr> = r"
      using assms(7) by (cases r) simp
    with Some assms(7-9) show ?thesis by (simp add: Body_Read_def)
  qed
  have "writeStart E (s\<lparr>wmu := True\<rparr>) = Ret (None, s\<lparr>wmu := True\<rparr>)"
    using assms(2,4,5) s by (simp add: writeStart_def start_ready_def)
  moreover have "Conn_Available (s\<lparr>wmu := True\<rparr>) = 0" using assms(2,3) by (simp add: Conn_Available_def fdw_val_def)
  ultimately have "readFromHelper E M r s = Ret ((0, None, r), s\<lparr>wmu := True\<rparr>\<lparr>wmu := False\<rparr>)"
    using s lim by (simp add: readFromHelper_def lock_wmu_def readFromHelperLocked_def)
  moreover have "s\<lparr>wmu := True\<rparr>\<lparr>wmu := False\<rparr> = s" using s by simp
  ultimately have h: "readFromHelper E M r s = Ret ((0, None, r), s)" by metis
  then have "readFrom_loop (readFromHelper E M) r 0 s = None" by (intro readFrom_stuck)
  with h show ?thesis by (simp add: Conn_ReadFrom_def run_loop_def)
qed

definition full_frame :: FrameData where
  "full_frame = \<lparr>fbytes = [0, 0, 0x20, 7] @ replicate 65532 3, fspare = []\<rparr>"

theorem ReadFrom_spins_on_full_frame_witness:
  "Conn_ReadFrom rap_default wire_mux (Some \<lparr>b_reads = [([1], None)], b_err = ErrEOF, b_limit = None\<rparr>)
     ((wire_conn rap_default 7 id)\<lparr>fdw := Some full_frame\<rparr>) = Blocks"
proof -
  let ?s = "(wire_conn rap_default 7 id)\<lparr>fdw := Some full_frame\<rparr>"
  have inv: "conn_inv rap_default ?s"
    using default_conn_inv [of id]
    by (simp add: conn_inv_def conn_core_def open_frame_def full_frame_def open_room_def frame_room_def fcap_def
        frame_sizes bit_simps)
  have "Available full_frame = 0" by (simp add: Available_def fcap_def full_frame_def)
  then show ?thesis
    using ReadFrom_spins_on_full_frame [OF inv, of full_frame "\<lparr>b_reads = [([1], None)], b_err = ErrEOF, b_limit = None\<rparr>" "[1]" None "[]" wire_mux]
    by (simp add: makeConnDeadline_def)
qed

text \<open>
  C25. When an incoming frame panics. \<^verbatim>\<open>SubmitFrame\<close> with a nil frame indexes out of range (the comment
  calls it an end-of-file indication). On an idle Conn that meets its invariant, a well-formed frame
  panics in exactly these cases: data or a final frame after the peer's final frame, data when eight
  frames are queued, an acknowledgement when eight are waiting; any other frame is taken.
\<close>

theorem SubmitFrame_panics_iff:
  assumes "conn_inv E s" and "wire_frame (connID s) fd" and "onRecycle s = None"
  shows "SubmitFrame E None s = Panics IndexOutOfRange
    \<and> ((\<exists>p. SubmitFrame E (Some fd) s = Panics p) \<longleftrightarrow>
         (is_data fd \<or> is_final fd) \<and> remoteSentFinal s
         \<or> is_data fd \<and> length (readCh s) \<ge> 8 \<or> is_ack fd \<and> ackCh s \<ge> 8)
    \<and> ((\<exists>p. SubmitFrame E (Some fd) s = Panics p) \<or> (\<exists>s'. SubmitFrame E (Some fd) s = Ret s'))"
proof -
  have fd: "4 \<le> length (fbytes fd)" using wire_frame_in [OF assms(2)] by blast
  have inv: "\<not> cmu s" "\<not> wmu s" "\<not> rmu s" "readChClosed s = remoteSentFinal s" "localSentFinal s = localClosed s"
    "localClosed s \<longrightarrow> fdw s = None" using assms(1) by (simp_all add: conn_inv_def conn_core_def)
  have nil: "SubmitFrame E None s = Panics IndexOutOfRange" by (simp add: SubmitFrame_def hdr_of_def HasFlow_def)
  from assms(2) consider (data) "is_data fd" "\<not> is_ack fd" "\<not> is_final fd" | (ack) "is_ack fd" "\<not> is_data fd" "\<not> is_final fd"
    | (final) "is_final fd" "\<not> is_data fd" "\<not> is_ack fd"
    using frame_kinds_disjoint [of fd] by (auto simp: wire_frame_def)
  then show ?thesis
  proof cases
    case data
    then have "\<not> h_flow (fhdr fd)" by (simp add: is_data_def has_payload_def)
    with data nil fd inv show ?thesis
      by (auto simp: SubmitFrame_def hdr_of_def view_read MaxSendWindowSize_def)
  next
    case ack
    then have "h_flow (fhdr fd)" by (simp add: is_ack_def)
    with ack nil fd inv show ?thesis
      by (auto simp: SubmitFrame_def hdr_of_def view_read MaxSendWindowSize_def Let_def)
  next
    case final
    show ?thesis
    proof (cases "remoteSentFinal s")
      case True
      have "h_flow (fhdr fd)" using final by (simp add: is_final_def)
      moreover have "h_size (fhdr fd) = 0" using assms(2) final by (simp add: wire_frame_def frame_ok_def is_data_def)
      ultimately show ?thesis
        using True final nil fd inv
        by (simp add: SubmitFrame_def hdr_of_def view_read receivedFinal_def lock_cmu_def remoteSendingFinal_def free_frame_def)
    next
      case False
      let ?s1 = "(free_frame (Some fd) (s\<lparr>cmu := True\<rparr>))\<lparr>remoteSentFinal := True, readChClosed := True\<rparr>"
      have "localSentFinal s \<Longrightarrow> \<exists>r. recycle E ?s1 = Ret r"
        using inv assms(3) by (simp add: recycle_def lock_wmu_def lock_rmu_def recycleLocked_def canRecycleLocked_def
            forceRecycleLocked_def Let_def fold_free_frame free_frame_def)
      then show ?thesis
        using SubmitFrame_final [OF assms(2) final(1) False inv(1), of E] False final nil
        by (auto simp: Let_def split: if_splits)
    qed
  qed
qed

theorem SubmitFrame_panics_iff_witness:
  "(\<exists>p. SubmitFrame rap_default (Some one_data_frame) (wire_conn rap_default 7 id) = Panics p) = False
   \<and> SubmitFrame rap_default None (wire_conn rap_default 7 id) = Panics IndexOutOfRange"
  using SubmitFrame_panics_iff [of rap_default "wire_conn rap_default 7 id" one_data_frame] one_data_frame_wire
    frame_kinds_disjoint [of one_data_frame]
  by simp

end
