(* ===== verification/Go_Url.thy ===== *)
theory Go_Url
  imports Go_Http
begin

text \<open>
  What the sources use of \<^verbatim>\<open>net/url\<close>: parsing a URL reference, and the canonical encoding of query
  values. Parsing the authority part of a reference (\<^verbatim>\<open>//user@host:port\<close>) is an argument of the
  parser: the routes of this protocol are paths and have none.
\<close>

section \<open>Escaping\<close>

definition unreserved :: "char \<Rightarrow> bool" where
  "unreserved c \<longleftrightarrow> is_digit c \<or> is_lower c \<or> is_upper c \<or> c \<in> set ''-_.~''"

definition hex_digit :: "nat \<Rightarrow> char" where
  "hex_digit n = (if n < 10 then char_of (48 + n) else char_of (55 + n))"

definition is_hex :: "char \<Rightarrow> bool" where
  "is_hex c \<longleftrightarrow> is_digit c \<or> c \<in> set ''abcdefABCDEF''"

definition unhex :: "char \<Rightarrow> nat" where
  "unhex c = (if is_digit c then of_char c - 48 else if is_lower c then of_char c - 87 else of_char c - 55)"

definition percent :: "char \<Rightarrow> string" where
  "percent c = [CHR ''%'', hex_digit (of_char c div 16), hex_digit (of_char c mod 16)]"

definition path_char :: "char \<Rightarrow> bool" where
  "path_char c \<longleftrightarrow> unreserved c \<or> c \<in> set ''$&+,/:;=@''"

definition escape_path :: "string \<Rightarrow> string" where
  "escape_path s = concat (map (\<lambda>c. if path_char c then [c] else percent c) s)"

definition QueryEscape :: "string \<Rightarrow> string" where
  "QueryEscape s = concat (map (\<lambda>c. if unreserved c then [c] else if c = CHR '' '' then ''+'' else percent c) s)"

text \<open>\<^verbatim>\<open>unescape\<close> for paths and fragments; a percent sign without two hexadecimal digits is an error.\<close>

fun unescape :: "string \<Rightarrow> string option" where
  "unescape [] = Some []"
| "unescape (c # cs) =
     (if c = CHR ''%'' then
        (case cs of
           a # b # r \<Rightarrow>
             if is_hex a \<and> is_hex b then map_option (\<lambda>s. char_of (16 * unhex a + unhex b) # s) (unescape r)
             else None
         | _ \<Rightarrow> None)
      else map_option (\<lambda>s. c # s) (unescape cs))"

section \<open>Query values\<close>

text \<open>\<^verbatim>\<open>Values.Encode\<close>: the entries sorted by key, every value with its key.\<close>

fun str_le :: "string \<Rightarrow> string \<Rightarrow> bool" where
  "str_le [] t = True"
| "str_le (a # s) [] = False"
| "str_le (a # s) (b # t) = ((of_char a :: nat) < of_char b \<or> a = b \<and> str_le s t)"

fun insert_key :: "string \<times> string list \<Rightarrow> kvv \<Rightarrow> kvv" where
  "insert_key e [] = [e]"
| "insert_key e (f # m) = (if str_le (fst e) (fst f) then e # f # m else f # insert_key e m)"

definition sort_keys :: "kvv \<Rightarrow> kvv" where
  "sort_keys m = foldr insert_key m []"

definition Values_Encode :: "kvv \<Rightarrow> string" where
  "Values_Encode m = join_with (CHR ''&'')
     (concat (map (\<lambda>(k, vv). map (\<lambda>v. QueryEscape k @ ''='' @ QueryEscape v) vv) (sort_keys m)))"

section \<open>References\<close>

record URL =
  url_Scheme :: string
  url_Opaque :: string
  url_Host :: string
  url_Path :: string
  url_RawPath :: string
  url_ForceQuery :: bool
  url_RawQuery :: string
  url_Fragment :: string

definition empty_url :: URL where
  "empty_url = \<lparr>url_Scheme = [], url_Opaque = [], url_Host = [], url_Path = [], url_RawPath = [],
     url_ForceQuery = False, url_RawQuery = [], url_Fragment = []\<rparr>"

text \<open>\<^verbatim>\<open>strings.Cut\<close> at a character: what is before it, and what is after it if it occurs.\<close>

fun cut :: "char \<Rightarrow> string \<Rightarrow> string \<times> string option" where
  "cut d [] = ([], None)"
| "cut d (c # cs) = (if c = d then ([], Some cs) else (case cut d cs of (a, b) \<Rightarrow> (c # a, b)))"

fun getScheme_loop :: "string \<Rightarrow> nat \<Rightarrow> string \<Rightarrow> (string \<times> string) option" where
  "getScheme_loop raw i [] = Some ([], raw)"
| "getScheme_loop raw i (c # cs) =
     (if is_lower c \<or> is_upper c then getScheme_loop raw (Suc i) cs
      else if is_digit c \<or> c \<in> set ''+-.'' then
        (if i = 0 then Some ([], raw) else getScheme_loop raw (Suc i) cs)
      else if c = CHR '':'' then (if i = 0 then None else Some (take i raw, cs))
      else Some ([], raw))"

definition getScheme :: "string \<Rightarrow> (string \<times> string) option" where
  "getScheme raw = getScheme_loop raw 0 raw"

definition url_ctl :: "char \<Rightarrow> bool" where
  "url_ctl c \<longleftrightarrow> (of_char c :: nat) < 32 \<or> (of_char c :: nat) = 127"

definition setPath :: "string \<Rightarrow> URL \<Rightarrow> URL option" where
  "setPath p u = map_option (\<lambda>path. u\<lparr>url_Path := path, url_RawPath := if escape_path path = p then [] else p\<rparr>) (unescape p)"

definition has_prefix :: "string \<Rightarrow> string \<Rightarrow> bool" where
  "has_prefix p s \<longleftrightarrow> take (length p) s = p"

definition url_parse :: "(string \<Rightarrow> string option) \<Rightarrow> string \<Rightarrow> URL option" where
  "url_parse auth raw =
     (if list_ex url_ctl raw then None
      else if raw = ''*'' then Some (empty_url\<lparr>url_Path := ''*''\<rparr>)
      else case getScheme raw of
        None \<Rightarrow> None
      | Some (scheme, rest) \<Rightarrow>
          let u = empty_url\<lparr>url_Scheme := map to_lower scheme\<rparr>;
              (rest, u) = (case cut (CHR ''?'') rest of
                 (a, None) \<Rightarrow> (a, u)
               | (a, Some q) \<Rightarrow> if q = [] then (a, u\<lparr>url_ForceQuery := True\<rparr>) else (a, u\<lparr>url_RawQuery := q\<rparr>))
          in if \<not> has_prefix ''/'' rest \<and> url_Scheme u \<noteq> [] then Some (u\<lparr>url_Opaque := rest\<rparr>)
             else if \<not> has_prefix ''/'' rest \<and> CHR '':'' \<in> set (fst (cut (CHR ''/'') rest)) then None
             else if (url_Scheme u \<noteq> [] \<or> \<not> has_prefix ''///'' rest) \<and> has_prefix ''//'' rest then
               (case cut (CHR ''/'') (drop 2 rest) of (a, b) \<Rightarrow>
                  case auth a of
                    None \<Rightarrow> None
                  | Some h \<Rightarrow> setPath (case b of None \<Rightarrow> [] | Some p \<Rightarrow> CHR ''/'' # p) (u\<lparr>url_Host := h\<rparr>))
             else setPath rest u)"

definition url_Parse :: "(string \<Rightarrow> string option) \<Rightarrow> string \<Rightarrow> URL option" where
  "url_Parse auth raw =
     (case cut (CHR ''#'') raw of (u, frag) \<Rightarrow>
        case url_parse auth u of
          None \<Rightarrow> None
        | Some u \<Rightarrow>
            (case frag of
               None \<Rightarrow> Some u
             | Some f \<Rightarrow> if f = [] then Some u else map_option (\<lambda>g. u\<lparr>url_Fragment := g\<rparr>) (unescape f)))"

section \<open>Plain paths\<close>

text \<open>A rooted path of characters that mean themselves in a URL is read back as it is.\<close>

definition plain_path :: "string \<Rightarrow> bool" where
  "plain_path p \<longleftrightarrow> has_prefix ''/'' p \<and> \<not> has_prefix ''//'' p \<and> list_all path_char p"

lemma path_char_code:
  "path_char c \<Longrightarrow> c \<noteq> CHR ''%'' \<and> c \<noteq> CHR ''?'' \<and> c \<noteq> CHR ''#'' \<and> \<not> url_ctl c"
  by (auto simp: path_char_def unreserved_def is_digit_def is_lower_def is_upper_def url_ctl_def)

lemma unescape_plain: "list_all path_char p \<Longrightarrow> unescape p = Some p"
  by (induction p) (auto dest: path_char_code)

lemma escape_plain: "list_all path_char p \<Longrightarrow> escape_path p = p"
  by (induction p) (auto simp: escape_path_def)

lemma cut_absent: "c \<notin> set s \<Longrightarrow> cut c s = (s, None)"
  by (induction s) auto

lemma url_Parse_plain:
  assumes "plain_path p"
  shows "url_Parse auth p = Some (empty_url\<lparr>url_Path := p\<rparr>)"
proof -
  from assms obtain q where p: "p = CHR ''/'' # q" by (cases p) (auto simp: plain_path_def has_prefix_def)
  have all: "list_all path_char p" using assms by (simp add: plain_path_def)
  then have abs: "CHR ''#'' \<notin> set p" "CHR ''?'' \<notin> set p" "\<not> list_ex url_ctl p"
    using path_char_code by (auto simp: list_all_iff list_ex_iff)
  have "getScheme p = Some ([], p)"
    by (simp add: getScheme_def p is_lower_def is_upper_def is_digit_def)
  moreover have "p \<noteq> ''*''" by (simp add: p)
  moreover have "has_prefix ''/'' p" "\<not> has_prefix ''//'' p" using assms by (simp_all add: plain_path_def)
  ultimately show ?thesis
    using abs unescape_plain [OF all] escape_plain [OF all]
    by (simp add: url_Parse_def url_parse_def cut_absent setPath_def empty_url_def)
qed

end
