(* ===== verification/Frame_Request.thy ===== *)
theory Frame_Request
  imports Go_Url Frame_Parser
begin

text \<open>
  The request record: \<^verbatim>\<open>FrameData.WriteRequest\<close> (\<^verbatim>\<open>src/framedata.go\<close>) and \<^verbatim>\<open>FrameParser.ReadRequest\<close>
  (\<^verbatim>\<open>src/frameparser.go\<close>), and that the request a peer reads is the request that was written.
\<close>

section \<open>Writing a request\<close>

text \<open>
  What \<^verbatim>\<open>WriteRequest\<close> uses of an \<^verbatim>\<open>http.Request\<close>: \<open>rq_Query\<close> is \<^verbatim>\<open>r.URL.Query()\<close>, and like \<open>rq_Header\<close> it
  is the list of the map's entries in the order the \<^verbatim>\<open>range\<close> statement visits them.
\<close>

record request =
  rq_Method :: string
  rq_Scheme :: string
  rq_Path :: string
  rq_Query :: kvv
  rq_Header :: kvv
  rq_Host :: string
  rq_ContentLength :: i64

text \<open>The route: the cleaned path, with the trailing slash of the original; an empty path has no last byte.\<close>

definition request_route :: "string \<Rightarrow> string go" where
  "request_route p =
     (let np = path_Clean (map (\<lambda>c. if c = CHR 0x5C then CHR ''/'' else c) p) in
      if np \<noteq> ''/'' then
        if p = [] then Panics IndexOutOfRange
        else Ret (if last p = CHR ''/'' then np @ ''/'' else np)
      else Ret np)"

text \<open>
  The loop over the header: the length and host it has, whether their header entries have been
  seen, and the frame. \<^verbatim>\<open>vv[0]\<close> of an entry without values panics.
\<close>

fun request_headers ::
  "rap_config \<Rightarrow> kvv \<Rightarrow> FrameData \<Rightarrow> i64 \<Rightarrow> bool \<Rightarrow> string \<Rightarrow> bool \<Rightarrow> (FrameData \<times> i64 \<times> bool \<times> string) go" where
  "request_headers E [] fd cl haveCL host haveHost = Ret (fd, cl, haveCL, host)"
| "request_headers E ((k, vv) # m) fd cl haveCL host haveHost =
     bnd (if \<not> haveCL \<and> k = ''Content-Length'' then
            if sint cl < 0 then
              bnd (idx vv 0) (\<lambda>v. Ret (case ParseInt64 v of Some n \<Rightarrow> word_of_int n | None \<Rightarrow> cl, True))
            else Ret (cl, True)
          else Ret (cl, haveCL)) (\<lambda>(cl, haveCL).
     bnd (if \<not> haveHost \<and> k = ''Host'' then
            if host = [] then bnd (idx vv 0) (\<lambda>v. Ret (v, True)) else Ret (host, True)
          else Ret (host, haveHost)) (\<lambda>(host, haveHost).
     request_headers E m (write_entry E fd k vv) cl haveCL host haveHost))"

definition FrameData_WriteRequest :: "rap_config \<Rightarrow> FrameData \<Rightarrow> request \<Rightarrow> (FrameData \<times> goerr option) go" where
  "FrameData_WriteRequest E fd r =
     bnd (WriteRecordType E fd RecordTypeHTTPRequest) (\<lambda>fd.
       let fd = fst (WriteString E fd (rq_Method r)); fd = fst (WriteString E fd (rq_Scheme r)) in
       bnd (request_route (rq_Path r)) (\<lambda>np.
         let fd = fst (WriteRoute E fd np); fd = WriteStringNull E (write_entries E fd (rq_Query r)) in
         bnd (request_headers E (rq_Header r) fd (rq_ContentLength r) False (rq_Host r) False)
           (\<lambda>(fd, cl, haveCL, host).
             let fd = WriteStringNull E fd;
                 fd = (if host = [] then WriteStringNull E fd else fst (WriteString E fd host));
                 fd = WriteInt64 E fd (if haveCL \<or> sint cl \<ge> 0 then cl else - 1)
             in Ret (fd, if length (fbytes fd) > FrameMaxSize then Some ErrFrameTooBig else None))))"

section \<open>Reading a request\<close>

text \<open>
  The \<^verbatim>\<open>http.Request\<close> that \<^verbatim>\<open>ReadRequest\<close> makes (its protocol version is always 1.1). The loop over the
  query runs when its first key is not null, and then \<^verbatim>\<open>RawQuery\<close> is the encoding of what it read.
\<close>

record http_request =
  Method :: string
  reqURL :: URL
  reqHeader :: kvv
  Host :: string
  RequestURI :: string
  ContentLength :: i64

definition ReadRequest ::
  "(string \<Rightarrow> string option) \<Rightarrow> FrameParser \<Rightarrow> ((goerr + http_request) \<times> FrameParser) go" where
  "ReadRequest auth fp =
     bnd (ReadString fp) (\<lambda>(methodString, _, fp).
     bnd (ReadString fp) (\<lambda>(schemeString, _, fp).
     bnd (ReadRoute fp) (\<lambda>(urlString, _, fp).
       case url_Parse auth urlString of
         None \<Rightarrow> Ret (Inl (ErrOther ''parse''), fp)
       | Some u \<Rightarrow>
           bnd (read_entries (\<lambda>k (m, _). (m, True)) (\<lambda>k v (m, b). (Values_Add k v m, b)) fp ([], False))
             (\<lambda>((queryValues, hasQuery), fp).
           bnd (read_entries (\<lambda>k h. h) Header_Add fp []) (\<lambda>(hdr, fp).
           bnd (ReadString fp) (\<lambda>(host, isNull, fp).
           bnd (ReadInt64 fp) (\<lambda>(cl, fp).
             Ret (Inr \<lparr>Method = methodString,
                       reqURL = (let u = u\<lparr>url_Scheme := schemeString\<rparr> in
                                 if hasQuery then u\<lparr>url_RawQuery := Values_Encode queryValues\<rparr> else u),
                       reqHeader = (if sint cl \<ge> 0 then kv_set ''Content-Length'' [FormatInt (sint cl)] hdr else hdr),
                       Host = (if isNull then [] else host),
                       RequestURI = urlString,
                       ContentLength = cl\<rparr>, fp))))))))"

section \<open>The record\<close>

text \<open>The length and the host that a request is sent with, from its fields and its header.\<close>

definition sent_length :: "request \<Rightarrow> i64" where
  "sent_length r =
     (let cl = rq_ContentLength r in
      if sint cl \<ge> 0 then cl
      else case map_of (rq_Header r) ''Content-Length'' of
        Some (v # _) \<Rightarrow> (case ParseInt64 v of Some n \<Rightarrow> word_of_int n | None \<Rightarrow> cl)
      | _ \<Rightarrow> - 1)"

definition sent_host :: "request \<Rightarrow> string" where
  "sent_host r =
     (if rq_Host r \<noteq> [] then rq_Host r
      else case map_of (rq_Header r) ''Host'' of Some (v # _) \<Rightarrow> v | _ \<Rightarrow> [])"

definition enc_request :: "request \<Rightarrow> string \<Rightarrow> byte list" where
  "enc_request r np = enc_string (rq_Method r) @ enc_string (rq_Scheme r) @ enc_len 0 @ enc_string np
     @ enc_kvv (rq_Query r) @ enc_kvv (rq_Header r)
     @ (if sent_host r = [] then enc_null else enc_string (sent_host r)) @ enc_int64 (sent_length r)"

text \<open>A request whose strings fit the wire format and whose header entries all have values.\<close>

definition request_ok :: "request \<Rightarrow> bool" where
  "request_ok r \<longleftrightarrow> string_ok (rq_Method r) \<and> string_ok (rq_Scheme r) \<and> kvv_ok (rq_Query r) \<and> kvv_ok (rq_Header r)
     \<and> string_ok (rq_Host r) \<and> http_header (rq_Header r)
     \<and> distinct (map fst (rq_Query r)) \<and> list_all (\<lambda>(k, vv). vv \<noteq> []) (rq_Query r)"

text \<open>What the header loop computes, on a header whose keys are distinct and all have values.\<close>

definition loop_length :: "kvv \<Rightarrow> i64 \<Rightarrow> i64" where
  "loop_length m cl = (if sint cl \<ge> 0 then cl else case map_of m ''Content-Length'' of
     Some (v # _) \<Rightarrow> (case ParseInt64 v of Some n \<Rightarrow> word_of_int n | None \<Rightarrow> cl) | _ \<Rightarrow> cl)"

definition loop_host :: "kvv \<Rightarrow> string \<Rightarrow> string" where
  "loop_host m host = (if host \<noteq> [] then host else case map_of m ''Host'' of Some (v # _) \<Rightarrow> v | _ \<Rightarrow> [])"

lemma request_headers_run:
  assumes "kvv_ok m" and "distinct (map fst m)" and "\<forall>vv \<in> snd ` set m. vv \<noteq> []"
    and "hc \<longrightarrow> ''Content-Length'' \<notin> fst ` set m" and "hh \<longrightarrow> ''Host'' \<notin> fst ` set m"
  shows "\<exists>fd'. request_headers E m fd cl hc host hh =
      Ret (fd', loop_length m cl, hc \<or> ''Content-Length'' \<in> fst ` set m, loop_host m host)
    \<and> fbytes fd' = fbytes fd @ enc_entries m"
  using assms
proof (induction m arbitrary: fd cl hc host hh)
  case Nil
  then show ?case by (simp add: loop_length_def loop_host_def enc_entries_def)
next
  case (Cons e m)
  obtain k v vv where e: "e = (k, v # vv)" using Cons.prems(3) by (cases e; cases "snd e") auto
  have m: "kvv_ok m" "distinct (map fst m)" "\<forall>vv \<in> snd ` set m. vv \<noteq> []" "k \<notin> fst ` set m"
    "string_ok k" "list_all string_ok (v # vv)"
    using Cons.prems by (auto simp: e kvv_ok_def)
  have b: "fbytes (write_entry E fd k (v # vv)) @ enc_entries m = fbytes fd @ enc_entries (e # m)"
    using m by (simp add: fbytes_write_entry enc_entries_def e)
  let ?cl = "loop_length [e] cl" and ?host = "loop_host [e] host"
  have step: "request_headers E (e # m) fd cl hc host hh =
    request_headers E m (write_entry E fd k (v # vv)) ?cl (hc \<or> k = ''Content-Length'') ?host (hh \<or> k = ''Host'')"
    using Cons.prems(4,5) by (auto simp: e loop_length_def loop_host_def)
  have l: "loop_length (e # m) cl = loop_length m ?cl"
  proof (cases "k = ''Content-Length''")
    case True
    with m(4) have "map_of m ''Content-Length'' = None" by (simp add: map_of_eq_None_iff)
    with True show ?thesis by (auto simp: e loop_length_def split: option.splits)
  next
    case False
    then have "?cl = cl" by (simp add: e loop_length_def)
    with False show ?thesis by (simp add: e loop_length_def)
  qed
  have h: "loop_host (e # m) host = loop_host m ?host"
  proof (cases "k = ''Host''")
    case True
    with m(4) have "map_of m ''Host'' = None" by (simp add: map_of_eq_None_iff)
    with True show ?thesis by (simp add: e loop_host_def)
  next
    case False
    then have "?host = host" by (simp add: e loop_host_def)
    with False show ?thesis by (simp add: e loop_host_def)
  qed
  have "hc \<or> k = ''Content-Length'' \<longrightarrow> ''Content-Length'' \<notin> fst ` set m" "hh \<or> k = ''Host'' \<longrightarrow> ''Host'' \<notin> fst ` set m"
    using Cons.prems(4,5) m(4) by (auto simp: e)
  from Cons.IH [OF m(1-3) this, of "write_entry E fd k (v # vv)" ?cl ?host]
  obtain fd' where r: "request_headers E m (write_entry E fd k (v # vv)) ?cl (hc \<or> k = ''Content-Length'') ?host (hh \<or> k = ''Host'') =
      Ret (fd', loop_length m ?cl, (hc \<or> k = ''Content-Length'') \<or> ''Content-Length'' \<in> fst ` set m, loop_host m ?host)"
    "fbytes fd' = fbytes (write_entry E fd k (v # vv)) @ enc_entries m" by blast
  have "((hc \<or> k = ''Content-Length'') \<or> ''Content-Length'' \<in> fst ` set m) = (hc \<or> ''Content-Length'' \<in> fst ` set (e # m))"
    by (auto simp: e)
  with r b show ?case unfolding step l h by (intro exI [of _ fd']) simp
qed


lemma string_ok_values:
  "kvv_ok m \<Longrightarrow> map_of m k = Some (v # vv) \<Longrightarrow> string_ok v"
  by (auto simp: kvv_ok_def list_all_iff dest!: map_of_SomeD)

lemma WriteRoute_bytes:
  "string_ok np \<Longrightarrow> fbytes (fst (WriteRoute E fd np)) = fbytes fd @ enc_len 0 @ enc_string np"
  using WriteLen_cases(1) [of 0 E fd] by (simp add: WriteRoute_def WriteString_ok)

lemma WriteRequest_frame:
  assumes "fbytes fd = hdr_bytes h @ p" and "hdr_ok h" and "request_ok r"
    and "request_route (rq_Path r) = Ret np" and "string_ok np"
  shows "\<exists>fd' err. FrameData_WriteRequest E fd r = Ret (fd', err)
    \<and> fbytes fd' = hdr_bytes (h\<lparr>h_head := True\<rparr>) @ p @ RecordTypeHTTPRequest # enc_request r np
    \<and> err = (if length (fbytes fd') \<le> FrameMaxSize then None else Some ErrFrameTooBig)"
proof -
  have ok: "string_ok (rq_Method r)" "string_ok (rq_Scheme r)" "kvv_ok (rq_Query r)" "kvv_ok (rq_Header r)"
    "string_ok (rq_Host r)" "distinct (map fst (rq_Header r))" "\<forall>vv \<in> snd ` set (rq_Header r). vv \<noteq> []"
    using assms(3) by (auto simp: request_ok_def http_header_def list_all_iff)
  from WriteRecordType_frame [OF assms(1,2)] obtain fd1 where fd1:
    "WriteRecordType E fd RecordTypeHTTPRequest = Ret fd1"
    "fbytes fd1 = hdr_bytes (h\<lparr>h_head := True\<rparr>) @ p @ [RecordTypeHTTPRequest]" by blast
  define fd2 where "fd2 = WriteStringNull E (write_entries E (fst (WriteRoute E
     (fst (WriteString E (fst (WriteString E fd1 (rq_Method r))) (rq_Scheme r))) np)) (rq_Query r))"
  have b2: "fbytes fd2 = fbytes fd1 @ enc_string (rq_Method r) @ enc_string (rq_Scheme r) @ enc_len 0 @ enc_string np
     @ enc_kvv (rq_Query r)"
    using ok assms(5) by (simp add: fd2_def WriteString_ok WriteRoute_bytes fbytes_write_entries enc_kvv_def)
  obtain fd3 where hdrs: "request_headers E (rq_Header r) fd2 (rq_ContentLength r) False (rq_Host r) False =
      Ret (fd3, loop_length (rq_Header r) (rq_ContentLength r), ''Content-Length'' \<in> fst ` set (rq_Header r),
           loop_host (rq_Header r) (rq_Host r))" and b3: "fbytes fd3 = fbytes fd2 @ enc_entries (rq_Header r)"
    using request_headers_run [OF ok(4,6,7), of False False E fd2 "rq_ContentLength r" "rq_Host r"] by auto
  have host: "loop_host (rq_Header r) (rq_Host r) = sent_host r" by (simp add: loop_host_def sent_host_def)
  have "string_ok (sent_host r)" using ok(4,5) string_ok_values [OF ok(4)]
    by (auto simp: sent_host_def string_ok_def split: option.splits list.splits)
  moreover have len: "(if ''Content-Length'' \<in> fst ` set (rq_Header r) \<or> sint (loop_length (rq_Header r) (rq_ContentLength r)) \<ge> 0
      then loop_length (rq_Header r) (rq_ContentLength r) else - 1) = sent_length r"
  proof (cases "map_of (rq_Header r) ''Content-Length''")
    case None
    then have "''Content-Length'' \<notin> fst ` set (rq_Header r)" by (simp add: map_of_eq_None_iff)
    with None show ?thesis by (auto simp: loop_length_def sent_length_def Let_def)
  next
    case (Some vv)
    then have "''Content-Length'' \<in> fst ` set (rq_Header r)" "vv \<noteq> []"
      using ok(7) by (force dest: map_of_SomeD)+
    with Some show ?thesis by (cases vv) (auto simp: loop_length_def sent_length_def Let_def)
  qed
  moreover have run: "FrameData_WriteRequest E fd r = (let fd4 = WriteInt64 E (if sent_host r = [] then WriteStringNull E (WriteStringNull E fd3)
      else fst (WriteString E (WriteStringNull E fd3) (sent_host r))) (sent_length r)
    in Ret (fd4, if length (fbytes fd4) > FrameMaxSize then Some ErrFrameTooBig else None))"
    unfolding FrameData_WriteRequest_def fd1(1) Let_def bnd.simps assms(4) fd2_def [symmetric] hdrs case_prod_conv host len ..
  ultimately show ?thesis
    using fd1(2) b2 b3 by (simp add: Let_def WriteString_ok enc_request_def enc_kvv_def)
qed

section \<open>The reader undoes the writer\<close>

lemma fold_query_entries:
  "fold (\<lambda>(k, vv) h. fold (\<lambda>v (m, b). (Values_Add k v m, b)) vv (case h of (m, _) \<Rightarrow> (m, True))) q (m0, b)
     = (fold (\<lambda>(k, vv) h. fold (kv_add k) vv h) q m0, b \<or> q \<noteq> [])"
proof (induction q arbitrary: m0 b)
  case (Cons e q)
  obtain k vv where e: "e = (k, vv)" by (cases e)
  have "fold (\<lambda>v (m, b). (Values_Add k v m, b)) vv (m, c) = (fold (kv_add k) vv m, c)" for m and c :: bool
    by (induction vv arbitrary: m) (simp_all add: Values_Add_def)
  with Cons show ?case by (simp add: e)
qed simp

lemma fold_header_entries:
  assumes "http_header m"
  shows "fold (\<lambda>(k, vv) h. fold (Header_Add k) vv h) m [] = m"
proof -
  have "fold (\<lambda>(k, vv) h. fold (Header_Add k) vv h) q m0 = fold (\<lambda>(k, vv) h. fold (kv_add k) vv h) q m0"
    if "list_all (\<lambda>(k, vv). CanonicalHeaderKey k = k) q" for q m0
    using that
  proof (induction q arbitrary: m0)
    case (Cons e q)
    obtain k vv where e: "e = (k, vv)" by (cases e)
    have "fold (Header_Add k) vv h = fold (kv_add k) vv h" for h
      using Cons.prems by (induction vv arbitrary: h) (simp_all add: e Header_Add_def)
    with Cons show ?case by (simp add: e)
  qed simp
  moreover have "list_all (\<lambda>(k, vv). CanonicalHeaderKey k = k) m"
    using assms by (auto simp: http_header_def list_all_iff)
  moreover have "fold (\<lambda>(k, vv) h. fold (kv_add k) vv h) m [] = [] @ m"
    using assms by (intro kv_add_entries) (auto simp: http_header_def list_all_iff)
  ultimately show ?thesis by simp
qed

text \<open>The request the peer gets for \<open>r\<close>, when its route \<open>np\<close> parses as \<open>u\<close>.\<close>

definition received :: "request \<Rightarrow> string \<Rightarrow> URL \<Rightarrow> http_request" where
  "received r np u =
     \<lparr>Method = rq_Method r,
      reqURL = (if rq_Query r \<noteq> [] then u\<lparr>url_Scheme := rq_Scheme r, url_RawQuery := Values_Encode (rq_Query r)\<rparr>
                else u\<lparr>url_Scheme := rq_Scheme r\<rparr>),
      reqHeader = (if sint (sent_length r) \<ge> 0
                   then kv_set ''Content-Length'' [FormatInt (sint (sent_length r))] (rq_Header r) else rq_Header r),
      Host = sent_host r, RequestURI = np, ContentLength = sent_length r\<rparr>"

lemma ReadRequest_enc:
  assumes "request_ok r" and "string_ok np" and "url_Parse auth np = Some u"
  shows "ReadRequest auth (enc_request r np @ rest) = Ret (Inr (received r np u), rest)"
proof -
  have ok: "string_ok (rq_Method r)" "string_ok (rq_Scheme r)" "kvv_ok (rq_Query r)" "kvv_ok (rq_Header r)"
    "http_header (rq_Header r)" "string_ok (sent_host r)"
    using assms(1) string_ok_values [of "rq_Header r"]
    by (auto simp: request_ok_def sent_host_def string_ok_def split: option.splits list.splits)
  have "fold (\<lambda>(k, vv) h. fold (kv_add k) vv h) (rq_Query r) [] = [] @ rq_Query r"
    using assms(1) by (intro kv_add_entries) (auto simp: request_ok_def list_all_iff)
  then have q: "fold (\<lambda>(k, vv) h. fold (\<lambda>v (m, b). (Values_Add k v m, b)) vv (case h of (m, _) \<Rightarrow> (m, True))) (rq_Query r) ([], False)
      = (rq_Query r, rq_Query r \<noteq> [])"
    by (simp only: fold_query_entries) simp
  have route: "ReadRoute (enc_len 0 @ enc_string np @ xs) = Ret (np, False, xs)" for xs
    using assms(2) by (simp add: ReadRoute_def ReadLen_enc ReadString_enc)
  have host: "ReadString ((if sent_host r = [] then enc_null else enc_string (sent_host r)) @ xs)
     = Ret (sent_host r, sent_host r = [], xs)" for xs
    using ok(6) by (simp add: codec_simps)
  have h: "(if sent_host r = [] then [] else sent_host r) = sent_host r" by simp
  show ?thesis
    unfolding ReadRequest_def enc_request_def append_assoc
      ReadString_enc [OF ok(1)] ReadString_enc [OF ok(2)] bnd.simps case_prod_conv route assms(3) option.simps
      read_entries_enc [OF ok(3)] read_entries_enc [OF ok(4)] q fold_header_entries [OF ok(5)] host ReadInt64_enc h
    by (simp add: received_def Let_def)
qed

text \<open>A cleaned path has no empty element, so only the root ends in a slash.\<close>

definition path_elem :: "string \<Rightarrow> bool" where
  "path_elem w \<longleftrightarrow> w \<noteq> [] \<and> CHR ''/'' \<notin> set w"

lemma split_at_no_sep: "w \<in> set (split_at d s) \<Longrightarrow> d \<notin> set w"
proof (induction s arbitrary: w)
  case (Cons c s)
  show ?case
  proof (cases "split_at d s")
    case Nil
    with Cons.prems show ?thesis by simp
  next
    case us: (Cons u us)
    then have "d \<notin> set v" if "v \<in> set (u # us)" for v using Cons.IH [of v] that by simp
    with Cons.prems us show ?thesis by (auto split: if_splits)
  qed
qed simp

lemma clean_elems:
  "list_all (\<lambda>w. CHR ''/'' \<notin> set w) ws \<Longrightarrow> list_all path_elem st \<Longrightarrow> list_all path_elem (fold (clean_step rooted) ws st)"
proof (induction ws arbitrary: st)
  case (Cons w ws)
  have "list_all path_elem (clean_step rooted w st)"
    using Cons.prems by (cases st) (simp_all add: clean_step_def path_elem_def list_all_iff)
  with Cons show ?case by simp
qed simp

lemma last_join: "list_all path_elem ws \<Longrightarrow> ws \<noteq> [] \<Longrightarrow> join_with (CHR ''/'') ws \<noteq> [] \<and> last (join_with (CHR ''/'') ws) \<noteq> CHR ''/''"
proof (induction ws rule: rev_induct)
  case (snoc w ws)
  then have w: "w \<noteq> []" "CHR ''/'' \<notin> set w" by (simp_all add: path_elem_def)
  then have "last w \<noteq> CHR ''/''" using last_in_set by metis
  with w(1)
  show ?case by (cases ws) (simp_all add: join_with_def)
qed simp

lemma path_Clean_last:
  assumes "has_prefix ''/'' p" and "path_Clean p \<noteq> ''/''"
  shows "last (path_Clean p) \<noteq> CHR ''/''"
proof -
  from assms(1) obtain q where p: "p = CHR ''/'' # q" by (cases p) (auto simp: has_prefix_def)
  let ?ws = "rev (fold (clean_step True) (split_at (CHR ''/'') p) [])"
  have c: "path_Clean p = CHR ''/'' # join_with (CHR ''/'') ?ws" by (simp add: path_Clean_def p Let_def)
  have "list_all path_elem (fold (clean_step True) (split_at (CHR ''/'') p) [])"
    by (rule clean_elems) (auto simp: list_all_iff dest: split_at_no_sep)
  then have e: "list_all path_elem ?ws" by (simp add: list_all_iff)
  have "?ws \<noteq> []"
  proof
    assume "?ws = []"
    then have "path_Clean p = ''/''" using c by (simp only:) (simp add: join_with_def)
    with assms(2) show False by contradiction
  qed
  from last_join [OF e this] show ?thesis by (simp add: c)
qed

lemma request_route_plain:
  assumes "plain_path p" and "path_Clean p = p \<or> path_Clean p @ ''/'' = p"
  shows "request_route p = Ret p"
proof -
  have "CHR 0x5C \<notin> set p" using assms(1)
    by (auto simp: plain_path_def list_all_iff path_char_def unreserved_def is_digit_def is_lower_def is_upper_def)
  then have m: "map (\<lambda>c. if c = CHR 0x5C then CHR ''/'' else c) p = p" by (intro map_idI) auto
  have ne: "p \<noteq> []" "\<not> has_prefix ''//'' p" using assms(1) by (auto simp: plain_path_def has_prefix_def)
  show ?thesis
  proof (cases "path_Clean p = p")
    case True
    have "last p \<noteq> CHR ''/''" if "p \<noteq> ''/''" using path_Clean_last [of p] that True assms(1) by (simp add: plain_path_def)
    with True show ?thesis using m ne by (simp add: request_route_def Let_def)
  next
    case False
    with assms(2) have p: "path_Clean p @ ''/'' = p" by simp
    then have "path_Clean p \<noteq> ''/''" using ne(2) by (auto simp: has_prefix_def)
    moreover have "last p = CHR ''/''" using p by (metis last_snoc)
    ultimately show ?thesis using m ne(1) p by (simp add: request_route_def Let_def)
  qed
qed

section \<open>Properties of requests\<close>

lemma fresh_frame:
  assumes "i \<le> MaxConnID E" and "sanitycheck E" and "NewFrameDataID E i = Ret fd"
  shows "fbytes fd = hdr_bytes (id_hdr i) @ []" "hdr_ok (id_hdr i)"
proof -
  have lim: "MaxConnID E \<le> MuxerConnID" using assms(2) by (rule sanity_MaxConnID)
  from NewFrameDataID_frame [OF assms(1) lim] assms(3) show "fbytes fd = hdr_bytes (id_hdr i) @ []"
    by (metis FrameData.select_convs(1) append_Nil2 go.inject(1))
  show "hdr_ok (id_hdr i)" using order_trans [OF assms(1) lim] by (simp add: unat_le_MuxerConnID)
qed

lemma WriteRequest_read_back:
  assumes "i \<le> MaxConnID E" and "sanitycheck E" and "NewFrameDataID E i = Ret fd" and "request_ok r"
    and "request_route (rq_Path r) = Ret np" and "string_ok np" and "url_Parse auth np = Some u"
  shows "\<exists>fd' err fp. FrameData_WriteRequest E fd r = Ret (fd', err)
    \<and> err = (if length (fbytes fd') \<le> FrameMaxSize then None else Some ErrFrameTooBig)
    \<and> bnd (NewFrameParser fd') ReadRecordType = Ret (RecordTypeHTTPRequest, fp)
    \<and> ReadRequest auth fp = Ret (Inr (received r np u), [])"
proof -
  note f = fresh_frame [OF assms(1-3)]
  from WriteRequest_frame [OF f assms(4-6), of E] obtain fd' err where
    w: "FrameData_WriteRequest E fd r = Ret (fd', err)" "err = (if length (fbytes fd') \<le> FrameMaxSize then None else Some ErrFrameTooBig)"
    and bytes: "fbytes fd' = hdr_bytes (id_hdr i\<lparr>h_head := True\<rparr>) @ RecordTypeHTTPRequest # enc_request r np"
    by auto
  have "bnd (NewFrameParser fd') ReadRecordType = Ret (RecordTypeHTTPRequest, enc_request r np)"
    by (simp add: NewFrameParser_def Payload_def FrameHeaderSize_def bytes slice_from_def ReadRecordType_def)
  with w ReadRequest_enc [OF assms(4,6,7), of "[]"] show ?thesis by (intro exI) simp
qed

text \<open>
  C7. A request survives the wire. For a request whose strings fit the format, with a clean rooted path
  of characters that stand for themselves, what \<^verbatim>\<open>WriteRequest\<close> appends to a fresh frame fits or is
  reported as \<^verbatim>\<open>ErrFrameTooBig\<close>, and \<^verbatim>\<open>ReadRequest\<close> makes of it a request with the same method, scheme,
  path and header, the query in its canonical encoding, the host and the length the request was
  sent with (from its fields, or else from its header), and leaves nothing of the payload.
\<close>

theorem request_roundtrip:
  assumes "i \<le> MaxConnID E" and "sanitycheck E" and "NewFrameDataID E i = Ret fd" and "request_ok r"
    and "plain_path (rq_Path r)" and "path_Clean (rq_Path r) = rq_Path r \<or> path_Clean (rq_Path r) @ ''/'' = rq_Path r"
    and "string_ok (rq_Path r)"
  shows "\<exists>fd' err fp req. FrameData_WriteRequest E fd r = Ret (fd', err)
    \<and> err = (if length (fbytes fd') \<le> FrameMaxSize then None else Some ErrFrameTooBig)
    \<and> bnd (NewFrameParser fd') ReadRecordType = Ret (RecordTypeHTTPRequest, fp)
    \<and> ReadRequest auth fp = Ret (Inr req, [])
    \<and> Method req = rq_Method r \<and> url_Scheme (reqURL req) = rq_Scheme r \<and> url_Path (reqURL req) = rq_Path r
    \<and> url_RawQuery (reqURL req) = Values_Encode (rq_Query r) \<and> RequestURI req = rq_Path r
    \<and> Host req = sent_host r \<and> ContentLength req = sent_length r
    \<and> kv_delete ''Content-Length'' (reqHeader req) = kv_delete ''Content-Length'' (rq_Header r)
    \<and> (sint (sent_length r) < 0 \<longrightarrow> reqHeader req = rq_Header r)
    \<and> (sint (sent_length r) \<ge> 0 \<longrightarrow> map_of (reqHeader req) ''Content-Length'' = Some [FormatInt (sint (sent_length r))])"
proof -
  let ?u = "empty_url\<lparr>url_Path := rq_Path r\<rparr>" and ?req = "received r (rq_Path r) (empty_url\<lparr>url_Path := rq_Path r\<rparr>)"
  from WriteRequest_read_back [OF assms(1-4) request_route_plain [OF assms(5,6)] assms(7) url_Parse_plain [OF assms(5)]]
  obtain fd' err fp where w: "FrameData_WriteRequest E fd r = Ret (fd', err)"
    "err = (if length (fbytes fd') \<le> FrameMaxSize then None else Some ErrFrameTooBig)"
    "bnd (NewFrameParser fd') ReadRecordType = Ret (RecordTypeHTTPRequest, fp)"
    "ReadRequest auth fp = Ret (Inr ?req, [])" by blast
  have q: "url_RawQuery (reqURL ?req) = Values_Encode (rq_Query r)"
    by (simp add: received_def empty_url_def Values_Encode_def sort_keys_def join_with_def)
  have d: "kv_delete k (kv_set k vv m) = kv_delete k m" "map_of (kv_set k vv m) k = Some vv" for k vv and m :: kvv
    by (induction m) (auto simp: kv_delete_def)
  show ?thesis
    by (rule exI [of _ fd'], rule exI [of _ err], rule exI [of _ fp], rule exI [of _ ?req])
      (use w q d in \<open>simp add: received_def\<close>)
qed

definition example_request :: request where
  "example_request = \<lparr>rq_Method = ''GET'', rq_Scheme = ''http'', rq_Path = ''/a/b'', rq_Query = [(''q'', [''x y''])],
     rq_Header = [(''Etag'', [''7''])], rq_Host = ''h'', rq_ContentLength = 0\<rparr>"

lemma example_request_ok: "request_ok example_request"
  by (simp add: example_request_def request_ok_def string_ok_def kvv_ok_def http_header_def
      CanonicalHeaderKey_def valid_header_byte_def is_digit_def is_lower_def
        is_upper_def Let_def to_upper_def to_lower_def)

theorem request_roundtrip_witness:
  "\<exists>fp req. ReadRequest (\<lambda>_. None) fp = Ret (Inr req, []) \<and> url_Path (reqURL req) = ''/a/b''
     \<and> url_RawQuery (reqURL req) = ''q=x+y'' \<and> Host req = ''h''"
proof -
  obtain fd where fd: "NewFrameDataID rap_default 1 = Ret fd"
    using NewFrameDataID_frame [of 1 rap_default] by (auto simp: MuxerConnID_eq)
  let ?r = example_request
  have p: "plain_path (rq_Path ?r)" "string_ok (rq_Path ?r)"
    by (simp_all add: example_request_def plain_path_def has_prefix_def path_char_def unreserved_def is_digit_def is_lower_def is_upper_def
        string_ok_def)
  have c: "path_Clean (rq_Path ?r) = rq_Path ?r"
    by (simp add: example_request_def path_Clean_def Let_def clean_step_def join_with_def)
  have q: "Values_Encode (rq_Query ?r) = ''q=x+y''"
    by (simp add: example_request_def Values_Encode_def sort_keys_def join_with_def QueryEscape_def unreserved_def is_digit_def
        is_lower_def is_upper_def)
  from request_roundtrip [OF _ rap_default_sane fd example_request_ok p(1) _ p(2), of "\<lambda>_. None"] c
  obtain fp req where "ReadRequest (\<lambda>_. None) fp = Ret (Inr req, [])" "url_Path (reqURL req) = rq_Path ?r"
    "url_RawQuery (reqURL req) = Values_Encode (rq_Query ?r)" "Host req = sent_host ?r" by auto
  then have "ReadRequest (\<lambda>_. None) fp = Ret (Inr req, []) \<and> url_Path (reqURL req) = ''/a/b''
     \<and> url_RawQuery (reqURL req) = ''q=x+y'' \<and> Host req = ''h''"
    using q by (simp add: example_request_def sent_host_def)
  then show ?thesis by blast
qed

text \<open>
  \<^verbatim>\<open>WriteRequest\<close> panics on a request whose URL has an empty path, as the URL of a request for a bare
  host has: the cleaned path is \<^verbatim>\<open>"."\<close>, and the last byte of the empty path is asked for.
\<close>

theorem WriteRequest_empty_path_panics:
  assumes "4 \<le> length (fbytes fd)" and "rq_Path r = []"
  shows "FrameData_WriteRequest E fd r = Panics IndexOutOfRange"
proof -
  from assms(1) obtain h p where "fbytes fd = hdr_bytes h @ p" "hdr_ok h" by (rule frame_cases) blast
  with WriteRecordType_frame obtain fd1 where "WriteRecordType E fd RecordTypeHTTPRequest = Ret fd1" by blast
  moreover have "request_route [] = Panics IndexOutOfRange" by (simp add: request_route_def path_Clean_def)
  ultimately show ?thesis using assms(2) by (simp add: FrameData_WriteRequest_def Let_def)
qed

theorem WriteRequest_empty_path_panics_witness:
  "FrameData_WriteRequest rap_default \<lparr>fbytes = [0, 0, 0, 1], fspare = []\<rparr> (example_request\<lparr>rq_Path := []\<rparr>) = Panics IndexOutOfRange"
  by (rule WriteRequest_empty_path_panics) simp_all

text \<open>
  C29. The route is decoded twice. \<^verbatim>\<open>WriteRequest\<close> sends the decoded path of the URL, and \<^verbatim>\<open>ReadRequest\<close>
  parses it as a URL again. So a request for the path \<^verbatim>\<open>/%41\<close> (written \<^verbatim>\<open>/%2541\<close> in its URL) is served as
  one for \<^verbatim>\<open>/A\<close>, a request without a query for the path \<^verbatim>\<open>/a?b\<close> as one for \<^verbatim>\<open>/a\<close> with the query \<^verbatim>\<open>b\<close>, and
  one for the path \<^verbatim>\<open>/%zz\<close> is refused as unparsable.
\<close>

theorem route_decoded_twice:
  assumes "request_ok r" and "rq_Query r = []"
  shows "(\<exists>req. ReadRequest auth (enc_request r ''/%41'' @ rest) = Ret (Inr req, rest) \<and> url_Path (reqURL req) = ''/A'')
    \<and> (\<exists>req. ReadRequest auth (enc_request r ''/a?b'' @ rest) = Ret (Inr req, rest)
         \<and> url_Path (reqURL req) = ''/a'' \<and> url_RawQuery (reqURL req) = ''b'')
    \<and> (\<exists>fp. ReadRequest auth (enc_request r ''/%zz'' @ rest) = Ret (Inl (ErrOther ''parse''), fp))
    \<and> request_route ''/%41'' = Ret ''/%41'' \<and> request_route ''/a?b'' = Ret ''/a?b'' \<and> request_route ''/%zz'' = Ret ''/%zz''"
proof -
  note defs = url_Parse_def url_parse_def url_ctl_def getScheme_def is_lower_def is_upper_def is_digit_def has_prefix_def
    setPath_def is_hex_def unhex_def empty_url_def
  have u1: "url_Path (the (url_Parse auth ''/%41'')) = ''/A'' \<and> url_Parse auth ''/%41'' \<noteq> None"
    by (simp add: defs char_of_def bit_simps)
  have u2: "url_Parse auth ''/a?b'' = Some (empty_url\<lparr>url_Path := ''/a'', url_RawPath := [], url_RawQuery := ''b''\<rparr>)"
    by (simp add: defs escape_path_def path_char_def unreserved_def)
  have u3: "url_Parse auth ''/%zz'' = None" by (simp add: defs)
  have s: "string_ok ''/%41''" "string_ok ''/a?b''" "string_ok ''/%zz''" by (simp_all add: string_ok_def)
  from u1 obtain u where u: "url_Parse auth ''/%41'' = Some u" "url_Path u = ''/A''" by auto
  have r1: "\<exists>req. ReadRequest auth (enc_request r ''/%41'' @ rest) = Ret (Inr req, rest) \<and> url_Path (reqURL req) = ''/A''"
    using ReadRequest_enc [OF assms(1) s(1) u(1), of rest] u(2) by (simp add: received_def)
  have r2: "\<exists>req. ReadRequest auth (enc_request r ''/a?b'' @ rest) = Ret (Inr req, rest)
         \<and> url_Path (reqURL req) = ''/a'' \<and> url_RawQuery (reqURL req) = ''b''"
    using ReadRequest_enc [OF assms(1) s(2) u2, of rest] assms(2) by (simp add: received_def)
  have ok: "string_ok (rq_Method r)" "string_ok (rq_Scheme r)" using assms(1) by (simp_all add: request_ok_def)
  have route: "ReadRoute (enc_len 0 @ enc_string ''/%zz'' @ xs) = Ret (''/%zz'', False, xs)" for xs
    by (simp only: ReadRoute_def ReadLen_enc [of 0, simplified] ReadString_enc [OF s(3)] bnd.simps case_prod_conv if_True refl)
  have r3: "\<exists>fp. ReadRequest auth (enc_request r ''/%zz'' @ rest) = Ret (Inl (ErrOther ''parse''), fp)"
    unfolding ReadRequest_def enc_request_def append_assoc ReadString_enc [OF ok(1)] ReadString_enc [OF ok(2)]
      bnd.simps case_prod_conv route u3 option.simps by blast
  have "request_route ''/%41'' = Ret ''/%41''" "request_route ''/a?b'' = Ret ''/a?b''" "request_route ''/%zz'' = Ret ''/%zz''"
    by (simp_all add: request_route_def path_Clean_def Let_def clean_step_def join_with_def)
  with r1 r2 r3 show ?thesis by blast
qed

theorem route_decoded_twice_witness:
  "\<exists>req. ReadRequest (\<lambda>_. None) (enc_request (example_request\<lparr>rq_Query := []\<rparr>) ''/%41'') = Ret (Inr req, [])
     \<and> url_Path (reqURL req) = ''/A''"
proof -
  have "request_ok (example_request\<lparr>rq_Query := []\<rparr>)" using example_request_ok by (simp add: request_ok_def kvv_ok_def)
  from route_decoded_twice [OF this, of "\<lambda>_. None" "[]"] show ?thesis by simp
qed

end
