(* ===== verification/Conn_Http.thy ===== *)
theory Conn_Http
  imports Conn_Wire Frame_Request
begin

text \<open>
  The part of \<^verbatim>\<open>src/conn.go\<close> that carries HTTP: \<^verbatim>\<open>WriteRequest\<close>, \<^verbatim>\<open>ProxyResponse\<close>, \<^verbatim>\<open>WriteResponse\<close> and
  \<^verbatim>\<open>Serve\<close>; and \<^verbatim>\<open>src/responsewriter.go\<close>, the \<^verbatim>\<open>http.ResponseWriter\<close> that \<^verbatim>\<open>Serve\<close> gives to a handler.
\<close>

section \<open>Requests and responses on a Conn\<close>

text \<open>
  \<^verbatim>\<open>io.CopyN(conn, body, n)\<close>: a Conn is an \<^verbatim>\<open>io.ReaderFrom\<close>, so it copies with \<^verbatim>\<open>Conn.ReadFrom\<close> from the body
  limited to \<open>n\<close> bytes. Reading a nil body is a nil dereference, once \<^verbatim>\<open>writeStart\<close> has let it come to that.
\<close>

definition io_CopyN ::
  "rap_config \<Rightarrow> 'm ConnMuxer \<Rightarrow> body option \<Rightarrow> nat \<Rightarrow> 'm sys \<Rightarrow> (goerr option \<times> 'm sys) go" where
  "io_CopyN E M bo n s =
     bnd (case bo of
            Some b \<Rightarrow> Conn_ReadFrom E M (Some (b\<lparr>b_limit := Some n\<rparr>)) s
          | None \<Rightarrow> bnd (WriteStart E s) (\<lambda>(err, s).
              case err of
                None \<Rightarrow> Panics NilDeref
              | Some e \<Rightarrow> Ret ((0, if e = ErrEOF then None else Some e), s)))
       (\<lambda>((written, err), s).
          Ret (if written = n then None else if written < n \<and> err = None then Some ErrEOF else err, s))"

definition Conn_WriteRequest ::
  "rap_config \<Rightarrow> 'm ConnMuxer \<Rightarrow> request \<Rightarrow> body option \<Rightarrow> 'm sys \<Rightarrow> (goerr option \<times> 'm sys) go" where
  "Conn_WriteRequest E M r rbody s =
     bnd (WriteStart E s) (\<lambda>(err, s).
       if err = None then
         bnd (FrameData_WriteRequest E (fdw_val s) r) (\<lambda>(fd, err).
           let s = s\<lparr>fdw := Some fd\<rparr> in
           if err = None then
             bnd (if sint (rq_ContentLength r) > 0
                  then io_CopyN E M rbody (nat (sint (rq_ContentLength r))) s
                  else bnd (Conn_ReadFrom E M rbody s) (\<lambda>((_, err), s). Ret (err, s))) (\<lambda>(err, s).
             bnd (Flush E M s) (\<lambda>(flushErr, s). Ret (if err = None then flushErr else err, s)))
           else Ret (err, s))
       else Ret (err, s))"

definition Conn_ProxyResponse ::
  "rap_config \<Rightarrow> 'm ConnMuxer \<Rightarrow> response_writer \<Rightarrow> 'm sys
     \<Rightarrow> ((nat \<times> goerr option \<times> response_writer) \<times> 'm sys) go" where
  "Conn_ProxyResponse E M w = lock_rmu (\<lambda>s.
     bnd (loadFrameReader E M s) (\<lambda>(err, s).
       if err \<noteq> None then Ret ((0, err, w), s)
       else bnd (HasHead (hdr_of (fdr s))) (\<lambda>head.
         if head then
           bnd (ReadRecordType (cfp s)) (\<lambda>(rt, fp).
             if rt = RecordTypeHTTPResponse then
               bnd (FrameParser_ProxyResponse fp w) (\<lambda>(code, w, fp). Ret ((code, None, w), s\<lparr>cfp := fp\<rparr>))
             else if rt = RecordTypeHijacked then Ret ((101, None, w), s\<lparr>cfp := fp\<rparr>)
             else Ret ((0, Some (ErrUnhandledRecordType rt), w), s\<lparr>cfp := fp\<rparr>))
         else Ret ((0, None, w), s))))"

definition Conn_WriteResponse ::
  "rap_config \<Rightarrow> 'm ConnMuxer \<Rightarrow> int \<Rightarrow> i64 \<Rightarrow> kvv \<Rightarrow> body option \<Rightarrow> 'm sys \<Rightarrow> (goerr option \<times> 'm sys) go" where
  "Conn_WriteResponse E M code cl hdr rbody = lock_wmu (\<lambda>s.
     bnd (writeResponseDataLocked E code cl hdr s) (\<lambda>(err, s).
       if err = None then
         bnd (case rbody of
                None \<Rightarrow> Ret (None, s)
              | Some b \<Rightarrow>
                  if sint cl > 0 then io_CopyN E M (Some b) (nat (sint cl)) s
                  else bnd (conn_readFrom E M b s) (\<lambda>((_, err), s). Ret (err, s))) (\<lambda>(err, s).
         bnd (flushLocked E M s) (\<lambda>(flushErr, s). Ret (if err = None then flushErr else err, s)))
       else Ret (err, s)))"

text \<open>
  \<^verbatim>\<open>Serve\<close> with a handler \<open>h\<close>: what \<^verbatim>\<open>ServeHTTP\<close> does with the request it is given, on the Conn that is
  both the request's body and the response writer behind it. The deferred \<^verbatim>\<open>closeIfNotHijacked\<close>
  runs last; its error is dropped.
\<close>

type_synonym 'm handler = "http_request \<Rightarrow> 'm sys \<Rightarrow> 'm sys go"

definition serve_record ::
  "rap_config \<Rightarrow> 'm ConnMuxer \<Rightarrow> (string \<Rightarrow> string option) \<Rightarrow> 'm handler \<Rightarrow> 'm sys \<Rightarrow> (goerr option \<times> 'm sys) go" where
  "serve_record E M auth h s =
     bnd (HasHead (hdr_of (fdr s))) (\<lambda>head.
       if head then
         bnd (ReadRecordType (cfp s)) (\<lambda>(rt, fp).
           if rt = RecordTypeHTTPRequest then
             bnd (ReadRequest auth fp) (\<lambda>(res, fp).
               let s = s\<lparr>cfp := fp\<rparr> in
               case res of
                 Inl err \<Rightarrow> Ret (Some err, s)
               | Inr req \<Rightarrow> bnd (h req s) (\<lambda>s. Flush E M s))
           else if rt = RecordTypeHijacked then Ret (None, snd (hijacking (s\<lparr>cfp := fp\<rparr>)))
           else Ret (Some (ErrUnhandledRecordType rt), s\<lparr>cfp := fp\<rparr>))
       else Ret (Some ErrMissingFrameHead, s))"

definition Serve ::
  "rap_config \<Rightarrow> 'm ConnMuxer \<Rightarrow> (string \<Rightarrow> string option) \<Rightarrow> 'm handler \<Rightarrow> 'm sys \<Rightarrow> (goerr option \<times> 'm sys) go" where
  "Serve E M auth h s =
     bnd (bnd (LoadFrameReader E M s) (\<lambda>(err, s).
            if err = None then serve_record E M auth h s else Ret (err, s))) (\<lambda>(err, s).
     bnd (closeIfNotHijacked E M s) (\<lambda>(_, s). Ret (err, s)))"

section \<open>The response writer\<close>

text \<open>
  \<^verbatim>\<open>ResponseWriter\<close>: its own fields; the embedded Conn is the state its operations run on. A nil header
  map is \<^const>\<open>None\<close>. A map with entries is ranged over in the order of the list.
\<close>

record ResponseWriter =
  Code :: int
  HeaderMap :: "kvv option"
  Flushed :: bool
  wroteHeader :: bool

definition NewResponseWriter :: ResponseWriter where
  "NewResponseWriter = \<lparr>Code = 200, HeaderMap = Some [], Flushed = False, wroteHeader = False\<rparr>"

definition RW_Header :: "ResponseWriter \<Rightarrow> kvv \<times> ResponseWriter" where
  "RW_Header rw = (case HeaderMap rw of None \<Rightarrow> ([], rw\<lparr>HeaderMap := Some []\<rparr>) | Some m \<Rightarrow> (m, rw))"

definition RW_WriteHeader ::
  "rap_config \<Rightarrow> int \<Rightarrow> ResponseWriter \<Rightarrow> 'm sys \<Rightarrow> (ResponseWriter \<times> 'm sys) go" where
  "RW_WriteHeader E code rw s =
     (if \<not> wroteHeader rw then
        let rw = rw\<lparr>Code := code\<rparr>; m = (case HeaderMap rw of None \<Rightarrow> [] | Some m \<Rightarrow> m) in
        bnd (case map_of m ''Content-Length'' of
               None \<Rightarrow> Ret (- 1)
             | Some cl \<Rightarrow> bnd (idx cl 0) (\<lambda>v.
                 Ret (case ParseInt64 v of Some n \<Rightarrow> word_of_int n | None \<Rightarrow> - 1))) (\<lambda>contentLength.
        bnd (WriteResponseData E (Code rw) contentLength m s) (\<lambda>(_, s).
          Ret (rw\<lparr>wroteHeader := True\<rparr>, s)))
      else Ret (rw, s))"

definition RW_Write ::
  "rap_config \<Rightarrow> 'm ConnMuxer \<Rightarrow> byte list \<Rightarrow> ResponseWriter \<Rightarrow> 'm sys
     \<Rightarrow> ((nat \<times> goerr option \<times> ResponseWriter) \<times> 'm sys) go" where
  "RW_Write E M buf rw s =
     bnd (if \<not> wroteHeader rw then RW_WriteHeader E 200 rw s else Ret (rw, s)) (\<lambda>(rw, s).
     bnd (Conn_Write E M buf s) (\<lambda>((n, err), s). Ret ((n, err, rw), s)))"

definition RW_Reset :: "ResponseWriter \<Rightarrow> ResponseWriter" where
  "RW_Reset rw = rw\<lparr>Code := 200, HeaderMap := None, Flushed := False, wroteHeader := False\<rparr>"

definition RW_Flush ::
  "rap_config \<Rightarrow> 'm ConnMuxer \<Rightarrow> ResponseWriter \<Rightarrow> 'm sys \<Rightarrow> (ResponseWriter \<times> 'm sys) go" where
  "RW_Flush E M rw s =
     (if \<not> Flushed rw then
        bnd (if \<not> wroteHeader rw then RW_WriteHeader E 200 rw s else Ret (rw, s)) (\<lambda>(rw, s).
        bnd (Close E M s) (\<lambda>(_, s). Ret (rw\<lparr>Flushed := True\<rparr>, s)))
      else Ret (rw, s))"

section \<open>Taking the next frame\<close>

context accepting_muxer
begin

lemma writeAckFrame_returns:
  assumes "conn_core E s" and "minv (mux s)"
  shows "\<exists>s'. writeAckFrame E M s = Ret s'"
proof -
  from alloc_frame_cases [OF assms(1)] obtain fd p where a: "alloc_frame E s = Ret (fd, s\<lparr>pool := p\<rparr>)"
    "blank_frame (connID s) fd" "conn_core E (s\<lparr>pool := p\<rparr>)" .
  have id: "connID s \<le> MuxerConnID" using core_id [OF assms(1)] by (auto intro: order_trans)
  note f = ack_frame [OF a(2) id]
  have "frame_ok (fbytes (upd_hdr (\<lambda>h. h\<lparr>h_flow := True\<rparr>) fd))" using f(2) by (simp add: wire_frame_def)
  from accepts [OF assms(2) this] obtain m where
    "ConnWrite M (choices s (tick s)) (upd_hdr (\<lambda>h. h\<lparr>h_flow := True\<rparr>) fd) (mux s) = Ret (None, m)" by blast
  with a f(1) show ?thesis by (simp add: writeAckFrame_def conn_write_def)
qed

text \<open>A reader takes the next frame of its queue when nothing else is ready.\<close>

lemma loadFrameReader_takes:
  assumes "conn_core E s" and "minv (mux s)" and "cfp s = []" and "readCh s = fd # fds" and "drop 4 (fbytes fd) \<noteq> []"
    and "\<not> cancel (readDeadline s)" and "\<not> localClosed s"
  shows "\<exists>s'. loadFrameReader E M s = Ret (None, s') \<and> fdr s' = Some fd \<and> cfp s' = drop 4 (fbytes fd) \<and> readCh s' = fds
    \<and> read_changes s s'"
proof -
  have fd: "4 \<le> length (fbytes fd)" "frame_room fd" using assms(1,4) by (simp_all add: conn_core_def in_frame_def)
  define s0 where "s0 = (if fdr s \<noteq> None then (free_frame (fdr s) s)\<lparr>fdr := None, cfp := []\<rparr> else s)"
  have s0: "mux s0 = mux s" "readCh s0 = readCh s" "read_changes s s0" "conn_core E s0"
    "cancel (readDeadline s0) = cancel (readDeadline s)" "localClosed s0 = localClosed s" "readChClosed s0 = readChClosed s"
    using assms(1) by (auto simp: s0_def free_frame_def read_changes_def conn_core_def)
  have ready: "read_ready M s0 = [CaseRead]"
    using assms(2,4,6,7) s0 by (simp add: read_ready_def never_aborted)
  let ?t = "s0\<lparr>tick := Suc (tick s0)\<rparr>"
  let ?u = "?t\<lparr>readCh := fds, fdr := Some fd, cfp := drop 4 (fbytes fd)\<rparr>"
  have u: "conn_core E ?u" "minv (mux ?u)" using s0 assms(2,4) fd by (simp_all add: conn_core_def)
  from writeAckFrame_returns [OF u] obtain s1 where w: "writeAckFrame E M ?u = Ret s1" by blast
  with writeAckFrame_safe [OF u] have s1: "read_changes ?u s1" "readCh s1 = fds" "cfp s1 = drop 4 (fbytes fd)" "fdr s1 = Some fd"
    by simp_all
  have r: "readFrame E M s = Ret (None, s1)"
    unfolding readFrame_def Let_def s0_def [symmetric] ready
    using w assms(4) s0(2) fd(1) by (simp add: select_def view_read)
  have "read_changes s ?u" using s0(3) by (simp add: read_changes_def)
  then have "read_changes s s1" using s1(1) by (rule read_changes_trans)
  moreover have "loadFrameReader E M s = Ret (None, s1)"
    using r assms(3,5) s1(3) by (simp add: loadFrameReader.simps [of E M s] loadFrameReader.simps [of E M s1])
  ultimately show ?thesis using s1 by blast
qed

text \<open>Exactly one frame is sent for it, an acknowledgement.\<close>

lemma loadFrameReader_acks:
  assumes "conn_core E s" and "minv (mux s)" and "cfp s = []" and "readCh s = fd # fds" and "drop 4 (fbytes fd) \<noteq> []"
    and "\<not> cancel (readDeadline s)" and "\<not> localClosed s"
  obtains s' ack where "loadFrameReader E M s = Ret (None, s')" and "fdr s' = Some fd" and "cfp s' = drop 4 (fbytes fd)" and "readCh s' = fds"
    and "read_post E s s'" and "sent (mux s') = sent (mux s) @ [ack]" and "wire_frame (connID s) ack" and "is_ack ack"
proof -
  from loadFrameReader_takes [OF assms] obtain s' where
    l: "loadFrameReader E M s = Ret (None, s')" "fdr s' = Some fd" "cfp s' = drop 4 (fbytes fd)" "readCh s' = fds" by blast
  from loadFrameReader_safe [OF assms(1,2)] l(1) have p: "read_post E s s'" by simp
  then obtain k where k: "fds = drop k (fd # fds)" "k \<le> Suc (length fds)" "acks_sent s s' k"
    using assms(4) l(4) by (auto simp: read_post_def)
  have "length fds = Suc (length fds) - k" using k(1) by (metis length_drop length_Cons)
  with k(2) have "k = 1" by simp
  with k(3) obtain fs where "sent (mux s') = sent (mux s) @ fs" "list_all (\<lambda>fd. wire_frame (connID s) fd \<and> is_ack fd) fs" "length fs = 1"
    using never_aborted by (auto simp: acks_sent_def)
  then obtain ack where "sent (mux s') = sent (mux s) @ [ack]" "wire_frame (connID s) ack" "is_ack ack"
    by (auto simp: length_Suc_conv)
  with l p that show thesis by blast
qed

lemma LoadFrameReader_takes:
  assumes "conn_inv E s" and "minv (mux s)" and "cfp s = []" and "readCh s = fd # fds" and "drop 4 (fbytes fd) \<noteq> []"
    and "\<not> cancel (readDeadline s)" and "\<not> localClosed s"
  obtains s' ack where "LoadFrameReader E M s = Ret (None, s')" and "fdr s' = Some fd" and "cfp s' = drop 4 (fbytes fd)" and "readCh s' = fds"
    and "conn_inv E s'" and "read_changes s s'" and "minv (mux s')"
    and "sent (mux s') = sent (mux s) @ [ack]" and "wire_frame (connID s) ack" and "is_ack ack"
proof -
  let ?s = "s\<lparr>rmu := True\<rparr>"
  have s: "conn_core E ?s" "minv (mux ?s)" "cfp ?s = []" "readCh ?s = fd # fds" "\<not> cancel (readDeadline ?s)" "\<not> localClosed ?s" "\<not> rmu s"
    using assms by (simp_all add: conn_inv_def)
  from loadFrameReader_acks [OF s(1-4) assms(5) s(5,6)] obtain s' ack where
    l: "loadFrameReader E M ?s = Ret (None, s')" "fdr s' = Some fd" "cfp s' = drop 4 (fbytes fd)" "readCh s' = fds"
    "read_post E ?s s'" "sent (mux s') = sent (mux s) @ [ack]" "wire_frame (connID s) ack" "is_ack ack" by auto
  have r: "LoadFrameReader E M s = Ret (None, s'\<lparr>rmu := False\<rparr>)" using l(1) s(7) by (simp add: LoadFrameReader_def lock_rmu_def)
  from unlock_r [OF assms(1) l(5)] have "conn_inv E (s'\<lparr>rmu := False\<rparr>)" "read_changes s (s'\<lparr>rmu := False\<rparr>)" "minv (mux (s'\<lparr>rmu := False\<rparr>))"
    by (simp_all add: reader_post_def read_post_def)
  with r l show thesis by (intro that [of "s'\<lparr>rmu := False\<rparr>" ack]) simp_all
qed

end

section \<open>Properties of serving\<close>

text \<open>A frame that carries the record \<open>rt\<close> with the payload \<open>p\<close>.\<close>

definition record_frame :: "RecordType \<Rightarrow> byte list \<Rightarrow> FrameData \<Rightarrow> bool" where
  "record_frame rt p fd \<longleftrightarrow> (\<exists>h. hdr_ok h \<and> h_head h \<and> fbytes fd = hdr_bytes h @ rt # p)"

lemma record_frame_view:
  assumes "record_frame rt p fd"
  shows "drop 4 (fbytes fd) = rt # p" "HasHead (hdr_of (Some fd)) = Ret True" "4 \<le> length (fbytes fd)"
  using assms by (auto simp: record_frame_def hdr_of_def hdr_read)

lemma ReadRecordType_Cons [simp]: "ReadRecordType (rt # p) = Ret (rt, p)"
  by (simp add: ReadRecordType_def slice_from_def)

lemma Serve_takes_request:
  assumes "accepting_muxer M minv sent" and "conn_inv E s" and "minv (mux s)"
    and "cfp s = []" and "readCh s = fd # fds" and "\<not> cancel (readDeadline s)" and "\<not> localClosed s"
    and "record_frame RecordTypeHTTPRequest (enc_request r np @ bs) fd"
    and "request_ok r" and "string_ok np" and "url_Parse auth np = Some u"
  shows "\<exists>s1. conn_inv E s1 \<and> unread s1 = bs @ payloads fds \<and> readCh s1 = fds \<and> minv (mux s1) \<and> read_changes s s1
    \<and> (\<exists>ack. sent (mux s1) = sent (mux s) @ [ack] \<and> IsAck (fbytes ack) = Ret True \<and> wire_frame (connID s) ack \<and> is_ack ack)
    \<and> Serve E M auth h s = bnd (bnd (h (received r np u) s1) (Flush E M))
        (\<lambda>(err, s2). bnd (closeIfNotHijacked E M s2) (\<lambda>(_, s3). Ret (err, s3)))"
proof -
  note v = record_frame_view [OF assms(8)]
  have "drop 4 (fbytes fd) \<noteq> []" by (simp add: v)
  from accepting_muxer.LoadFrameReader_takes [OF assms(1-5) this assms(6,7)] obtain s0 ack where
    l: "LoadFrameReader E M s = Ret (None, s0)" "fdr s0 = Some fd" "cfp s0 = RecordTypeHTTPRequest # enc_request r np @ bs" "readCh s0 = fds"
    and i: "conn_inv E s0" "read_changes s s0" "minv (mux s0)"
    and ack: "sent (mux s0) = sent (mux s) @ [ack]" "wire_frame (connID s) ack" "is_ack ack" by (auto simp: v)
  let ?s1 = "s0\<lparr>cfp := bs\<rparr>"
  have "conn_inv E ?s1" using i(1) by (simp add: conn_inv_def conn_core_def)
  moreover have "IsAck (fbytes ack) = Ret True" using ack wire_frame_in [OF ack(2)] by (simp add: view_read)
  moreover have "serve_record E M auth h s0 = bnd (h (received r np u) ?s1) (Flush E M)"
    using l v(2) ReadRequest_enc [OF assms(9-11), of bs] by (simp add: serve_record_def)
  ultimately show ?thesis
    using i ack l by (intro exI [of _ ?s1]) (simp add: unread_def Serve_def)
qed

text \<open>
  C6. A request that arrives on an idle Conn is handed to the handler as it was sent: when the next frame
  of the Conn carries a request record (with any body bytes behind it), \<^verbatim>\<open>Serve\<close> acknowledges the frame,
  calls the handler once, with the request the record stands for and the rest of the frame left to
  be read as its body, then flushes what the handler left unsent, and last closes the Conn unless it
  was hijacked. Its error is that of the flush.
\<close>

theorem Serve_dispatches_request:
  assumes "accepting_muxer M minv sent" and "conn_inv E s" and "minv (mux s)"
    and "cfp s = []" and "readCh s = fd # fds" and "\<not> cancel (readDeadline s)" and "\<not> localClosed s"
    and "record_frame RecordTypeHTTPRequest (enc_request r np @ bs) fd"
    and "request_ok r" and "string_ok np" and "url_Parse auth np = Some u"
  shows "\<exists>s1. conn_inv E s1 \<and> unread s1 = bs @ payloads fds \<and> readCh s1 = fds
    \<and> (\<exists>ack. sent (mux s1) = sent (mux s) @ [ack] \<and> IsAck (fbytes ack) = Ret True)
    \<and> Serve E M auth h s = bnd (bnd (h (received r np u) s1) (Flush E M))
        (\<lambda>(err, s2). bnd (closeIfNotHijacked E M s2) (\<lambda>(_, s3). Ret (err, s3)))"
  using Serve_takes_request [OF assms] by blast

definition req_frame :: FrameData where
  "req_frame = \<lparr>fbytes = hdr_bytes \<lparr>h_size = length (enc_request example_request ''/a/b'') + 1, h_flow = False, h_body = False, h_head = True, h_id = 7\<rparr>
       @ RecordTypeHTTPRequest # enc_request example_request ''/a/b'',
     fspare = replicate (FrameMaxSize - 5 - length (enc_request example_request ''/a/b'')) 0\<rparr>"

lemma req_frame_ok: "record_frame RecordTypeHTTPRequest (enc_request example_request ''/a/b'' @ []) req_frame" "in_frame req_frame"
proof -
  have len: "length (enc_request example_request ''/a/b'') \<le> 100"
    by (simp add: enc_request_def example_request_def enc_string_def enc_len_def enc_kvv_def enc_entries_def enc_strings_def enc_null_def
        enc_int64_def zigzag_def enc_uint64.simps sent_host_def sent_length_def Let_def)
  then show "record_frame RecordTypeHTTPRequest (enc_request example_request ''/a/b'' @ []) req_frame"
    unfolding record_frame_def req_frame_def
    by (intro exI [of _ "\<lparr>h_size = length (enc_request example_request ''/a/b'') + 1, h_flow = False, h_body = False, h_head = True, h_id = 7\<rparr>"])
      (simp add: hdr_ok_def)
  show "in_frame req_frame" using len by (simp add: in_frame_def req_frame_def frame_room_def fcap_def frame_sizes)
qed

theorem Serve_dispatches_request_witness:
  "\<exists>s1. unread s1 = [] \<and> Serve rap_default wire_mux (\<lambda>_. None) (\<lambda>req t. if Host req = ''h'' then Ret t else Blocks)
      ((wire_conn rap_default 7 id)\<lparr>readCh := [req_frame]\<rparr>) =
    bnd (Flush rap_default wire_mux s1) (\<lambda>(err, s2). bnd (closeIfNotHijacked rap_default wire_mux s2) (\<lambda>(_, s3). Ret (err, s3)))"
proof -
  let ?s = "(wire_conn rap_default 7 id)\<lparr>readCh := [req_frame]\<rparr>" and ?h = "\<lambda>req t. if Host req = ''h'' then Ret t else Blocks"
  have inv: "conn_inv rap_default ?s" using default_conn_inv [of id] req_frame_ok(2) by (simp add: conn_inv_def conn_core_def)
  have p: "plain_path ''/a/b''" "string_ok ''/a/b''"
    by (simp_all add: plain_path_def has_prefix_def path_char_def unreserved_def is_digit_def is_lower_def is_upper_def string_ok_def)
  have host: "Host (received example_request np u) = ''h''" for np u
    by (simp add: received_def sent_host_def example_request_def)
  have "\<exists>s1. unread s1 = [] \<and> Serve rap_default wire_mux (\<lambda>_. None) ?h ?s = bnd (bnd (?h (received example_request ''/a/b'' (empty_url\<lparr>url_Path := ''/a/b''\<rparr>)) s1)
      (Flush rap_default wire_mux)) (\<lambda>(err, s2). bnd (closeIfNotHijacked rap_default wire_mux s2) (\<lambda>(_, s3). Ret (err, s3)))"
    using Serve_dispatches_request [OF wire_accepting inv _ _ _ _ _ req_frame_ok(1) example_request_ok p(2) url_Parse_plain [OF p(1)], where auth = "\<lambda>_. None" and h = ?h]
    by (auto simp: makeConnDeadline_def)
  then show ?thesis by (simp add: host)
qed

text \<open>
  Partial correctness of an outcome: the postcondition holds if the call returns. Panicking is
  allowed, as it is for the parsers on records of a peer that does not keep to the format.
\<close>

definition onret :: "'a go \<Rightarrow> ('a \<Rightarrow> bool) \<Rightarrow> bool" where
  "onret r Q \<longleftrightarrow> (case r of Ret x \<Rightarrow> Q x | _ \<Rightarrow> True)"

lemma onret_simps [simp]: "onret (Ret x) Q \<longleftrightarrow> Q x" "onret (Panics p) Q" "onret Blocks Q"
  by (simp_all add: onret_def)

lemma onret_bnd [simp]: "onret (bnd r f) Q \<longleftrightarrow> onret r (\<lambda>x. onret (f x) Q)"
  by (cases r) auto

lemma onretI: "(\<And>x. r = Ret x \<Longrightarrow> Q x) \<Longrightarrow> onret r Q"
  by (cases r) auto

lemma onret_safe: "safe r P \<Longrightarrow> (\<And>x. P x \<Longrightarrow> Q x) \<Longrightarrow> onret r Q"
  by (cases r) auto

lemma onret_mono: "onret r P \<Longrightarrow> (\<And>x. P x \<Longrightarrow> Q x) \<Longrightarrow> onret r Q"
  by (cases r) auto

text \<open>
  What holds between the steps of \<^verbatim>\<open>Serve\<close>, whatever the handler does that keeps it.
\<close>

definition served :: "('m \<Rightarrow> bool) \<Rightarrow> ('m \<Rightarrow> FrameData list) \<Rightarrow> rap_config \<Rightarrow> 'm sys \<Rightarrow> bool" where
  "served minv sent E t \<longleftrightarrow> conn_inv E t \<and> minv (mux t)
     \<and> (\<forall>f. onRecycle t = Some f \<longrightarrow> (\<forall>m. minv m \<longrightarrow> safe (f m) (\<lambda>m'. sent m' = sent m)))"

lemma served_upd [simp]:
  "served minv sent E (t\<lparr>cfp := p\<rparr>) = served minv sent E t" "served minv sent E (t\<lparr>hijacked := b\<rparr>) = served minv sent E t"
  by (simp_all add: served_def conn_inv_def conn_core_def)

context conn_muxer
begin

lemma served_iff: "served minv sent E t \<longleftrightarrow> conn_inv E t \<and> minv (mux t) \<and> recycle_ok t"
  by (simp add: served_def recycle_ok_def)

lemma user_post_served:
  assumes "user_post E s s' ok bs" and "served minv sent E s"
  shows "served minv sent E s'"
proof -
  from assms(1) have "conn_inv E s'" "write_changes s s'" "minv (mux s')"
    unfolding user_post_def write_post_def by blast+
  with assms(2) show ?thesis by (simp add: served_iff recycle_ok_def write_changes_def)
qed

lemma reader_post_served:
  assumes "reader_post E s s'" and "served minv sent E s"
  shows "served minv sent E s'"
proof -
  from assms(1) have "conn_inv E s'" "read_changes s s'" "minv (mux s')"
    unfolding reader_post_def read_post_def by blast+
  with assms(2) show ?thesis by (simp add: served_iff recycle_ok_def read_changes_def)
qed

lemma Flush_served:
  assumes "served minv sent E s"
  shows "onret (Flush E M s) (\<lambda>(err, s'). served minv sent E s')"
proof -
  have "conn_inv E s" "minv (mux s)" using assms by (simp_all add: served_iff)
  from Flush_safe [OF this] show ?thesis
    by (rule onret_safe) (use user_post_served assms in fastforce)
qed

lemma LoadFrameReader_served:
  assumes "served minv sent E s"
  shows "onret (LoadFrameReader E M s) (\<lambda>(err, s'). served minv sent E s')"
proof -
  have "conn_inv E s" "minv (mux s)" using assms by (simp_all add: served_iff)
  from LoadFrameReader_safe [OF this] show ?thesis
    by (rule onret_safe) (use reader_post_served assms in fastforce)
qed

lemma serve_record_served:
  assumes h: "\<And>req t. served minv sent E t \<Longrightarrow> onret (h req t) (served minv sent E)" and s: "served minv sent E s"
  shows "onret (serve_record E M auth h s) (\<lambda>(err, s'). served minv sent E s')"
proof -
  let ?done = "\<lambda>(err, s'). served minv sent E s'"
  have run: "onret (bnd (h req (s\<lparr>cfp := p\<rparr>)) (Flush E M)) ?done" for req p
    unfolding onret_bnd using s by (intro onret_mono [OF h]) (simp_all add: Flush_served)
  have req: "onret (bnd (ReadRequest auth p) (\<lambda>(res, p). case res of Inl err \<Rightarrow> Ret (Some err, s\<lparr>cfp := p\<rparr>)
      | Inr req \<Rightarrow> bnd (h req (s\<lparr>cfp := p\<rparr>)) (Flush E M))) ?done" for p
  proof (subst onret_bnd, rule onretI, unfold split_paired_all case_prod_conv)
    fix res p'
    show "onret (case res of Inl err \<Rightarrow> Ret (Some err, s\<lparr>cfp := p'\<rparr>) | Inr req \<Rightarrow> bnd (h req (s\<lparr>cfp := p'\<rparr>)) (Flush E M)) ?done"
      using s run by (cases res) (simp_all del: onret_bnd)
  qed
  show ?thesis
    unfolding serve_record_def Let_def
  proof (subst onret_bnd, rule onretI)
    fix head
    show "onret (if head then bnd (ReadRecordType (cfp s)) (\<lambda>(rt, fp).
           if rt = RecordTypeHTTPRequest then
             bnd (ReadRequest auth fp) (\<lambda>(res, fp). case res of Inl err \<Rightarrow> Ret (Some err, s\<lparr>cfp := fp\<rparr>)
               | Inr req \<Rightarrow> bnd (h req (s\<lparr>cfp := fp\<rparr>)) (\<lambda>s. Flush E M s))
           else if rt = RecordTypeHijacked then Ret (None, snd (hijacking (s\<lparr>cfp := fp\<rparr>)))
           else Ret (Some (ErrUnhandledRecordType rt), s\<lparr>cfp := fp\<rparr>))
       else Ret (Some ErrMissingFrameHead, s)) ?done"
    proof (cases head)
      case True
      show ?thesis
        unfolding if_P [OF True]
        by (subst onret_bnd, rule onretI, unfold split_paired_all case_prod_conv)
          (use s req in \<open>simp add: hijacking_def del: onret_bnd\<close>)
    qed (use s in simp)
  qed
qed

lemma closeIfNotHijacked_served:
  assumes "served minv sent E s"
  shows "onret (closeIfNotHijacked E M s) (\<lambda>(err, s'). conn_inv E s' \<and> (hijacked s' \<or> localClosed s' \<or> like_new E s'))"
proof (cases "hijacked s")
  case True
  with assms show ?thesis by (simp add: closeIfNotHijacked_def served_def)
next
  case False
  have "conn_inv E s" "minv (mux s)" "recycle_ok s" using assms by (simp_all add: served_iff)
  from Close_safe [OF this] have "onret (Close E M s) (\<lambda>(err, s'). conn_inv E s' \<and> (hijacked s' \<or> localClosed s' \<or> like_new E s'))"
    by (rule onret_safe) (auto split: if_splits)
  with False show ?thesis by (simp add: closeIfNotHijacked_def)
qed

lemma Serve_served:
  assumes h: "\<And>req t. served minv sent E t \<Longrightarrow> onret (h req t) (served minv sent E)" and s: "served minv sent E s"
  shows "onret (Serve E M auth h s) (\<lambda>(err, s'). conn_inv E s' \<and> (hijacked s' \<or> localClosed s' \<or> like_new E s'))"
proof -
  have close: "onret (bnd (closeIfNotHijacked E M t) (\<lambda>(_, s). Ret (err, s))) (\<lambda>(err, s'). conn_inv E s' \<and> (hijacked s' \<or> localClosed s' \<or> like_new E s'))"
    if "served minv sent E t" for t and err :: "goerr option"
    unfolding onret_bnd by (rule onret_mono [OF closeIfNotHijacked_served [OF that]]) (simp add: split_def)
  have "onret (bnd (LoadFrameReader E M s) (\<lambda>(err, s). if err = None then serve_record E M auth h s else Ret (err, s)))
      (\<lambda>(err, s'). served minv sent E s')"
    unfolding onret_bnd
    by (rule onret_mono [OF LoadFrameReader_served [OF s]], unfold split_paired_all case_prod_conv)
      (simp add: serve_record_served [OF h])
  then show ?thesis
    unfolding Serve_def onret_bnd [of "bnd _ _" "\<lambda>(err, s). bnd (closeIfNotHijacked E M s) (\<lambda>(_, s). Ret (err, s))"]
    by (rule onret_mono, unfold split_paired_all case_prod_conv) (rule close)
qed

end

text \<open>
  C21. \<^verbatim>\<open>Serve\<close> never leaves a Conn open behind it: whatever frame comes and whatever the handler does (as
  long as it keeps the invariant of the Conn), when \<^verbatim>\<open>Serve\<close> returns, with an error or without, the
  Conn satisfies its invariant and has been hijacked, is closed, or has been recycled.
\<close>

theorem Serve_closes:
  assumes "conn_muxer M minv sent" and "served minv sent E s"
    and "\<And>req t. served minv sent E t \<Longrightarrow> onret (h req t) (served minv sent E)"
  shows "onret (Serve E M auth h s) (\<lambda>(err, s'). conn_inv E s' \<and> (hijacked s' \<or> localClosed s' \<or> like_new E s'))"
  by (rule conn_muxer.Serve_served [OF assms(1,3,2)])

theorem Serve_closes_witness:
  "onret (Serve rap_default wire_mux (\<lambda>_. None) (\<lambda>req t. Ret t) ((wire_conn rap_default 7 id)\<lparr>readCh := [req_frame]\<rparr>))
     (\<lambda>(err, s'). conn_inv rap_default s' \<and> (hijacked s' \<or> localClosed s' \<or> like_new rap_default s'))"
proof (rule Serve_closes [OF wire_contract])
  show "served (\<lambda>_. True) (\<lambda>m. m) rap_default ((wire_conn rap_default 7 id)\<lparr>readCh := [req_frame]\<rparr>)"
    using default_conn_inv [of id] req_frame_ok(2) by (simp add: served_def conn_inv_def conn_core_def)
qed simp

text \<open>
  C28. A peer can bring the process down with one frame: a request record that ends after its type byte
  makes \<^verbatim>\<open>Serve\<close> panic, and a response record that ends there makes \<^verbatim>\<open>ProxyResponse\<close> panic; neither they
  nor the goroutine they run in recover.
\<close>

theorem malformed_record_panics:
  assumes "accepting_muxer M minv sent" and "conn_inv E s" and "minv (mux s)"
    and "cfp s = []" and "readCh s = fd # fds" and "\<not> cancel (readDeadline s)" and "\<not> localClosed s"
  shows "(record_frame RecordTypeHTTPRequest [] fd \<longrightarrow> Serve E M auth h s = Panics IndexOutOfRange)
    \<and> (record_frame RecordTypeHTTPResponse [] fd \<longrightarrow> Conn_ProxyResponse E M w s = Panics IndexOutOfRange)"
proof (intro conjI impI)
  assume r: "record_frame RecordTypeHTTPRequest [] fd"
  note v = record_frame_view [OF r]
  have "drop 4 (fbytes fd) \<noteq> []" by (simp add: v)
  from accepting_muxer.LoadFrameReader_takes [OF assms(1-5) this assms(6,7)] obtain s0 where
    "LoadFrameReader E M s = Ret (None, s0)" "fdr s0 = Some fd" "cfp s0 = [RecordTypeHTTPRequest]" by (auto simp: v)
  then show "Serve E M auth h s = Panics IndexOutOfRange"
    by (simp add: Serve_def serve_record_def v(2) ReadRequest_def ReadString_def ReadLen_def)
next
  assume r: "record_frame RecordTypeHTTPResponse [] fd"
  note v = record_frame_view [OF r]
  let ?s = "s\<lparr>rmu := True\<rparr>"
  have "drop 4 (fbytes fd) \<noteq> []" by (simp add: v)
  moreover have "conn_core E ?s" "\<not> rmu s" using assms(2) by (simp_all add: conn_inv_def)
  ultimately obtain s0 where "loadFrameReader E M ?s = Ret (None, s0)" "fdr s0 = Some fd" "cfp s0 = [RecordTypeHTTPResponse]"
    using accepting_muxer.loadFrameReader_takes [OF assms(1), of E ?s fd fds] assms(3-7) by (auto simp: v)
  with \<open>\<not> rmu s\<close> show "Conn_ProxyResponse E M w s = Panics IndexOutOfRange"
    by (simp add: Conn_ProxyResponse_def lock_rmu_def v(2) FrameParser_ProxyResponse_def ReadLen_def)
qed

definition short_frame :: FrameData where
  "short_frame = \<lparr>fbytes = [0, 1, 0x20, 7, RecordTypeHTTPRequest], fspare = replicate (FrameMaxSize - 5) 0\<rparr>"

theorem malformed_record_panics_witness:
  "Serve rap_default wire_mux (\<lambda>_. None) (\<lambda>_ t. Ret t) ((wire_conn rap_default 7 id)\<lparr>readCh := [short_frame]\<rparr>) = Panics IndexOutOfRange"
proof -
  have f: "in_frame short_frame" by (simp add: in_frame_def short_frame_def frame_room_def fcap_def frame_sizes)
  have r: "record_frame RecordTypeHTTPRequest [] short_frame"
    unfolding record_frame_def
    using frame_view [of short_frame]
    by (intro exI [of _ "fhdr short_frame"]) (simp add: short_frame_def bit_simps)
  have inv: "conn_inv rap_default ((wire_conn rap_default 7 id)\<lparr>readCh := [short_frame]\<rparr>)"
    using default_conn_inv [of id] f by (simp add: conn_inv_def conn_core_def)
  show ?thesis
    using malformed_record_panics [OF wire_accepting inv, of short_frame "[]"] r by (simp add: makeConnDeadline_def)
qed

lemma writeResponseDataLocked_ok:
  assumes "conn_core E s" and "\<not> remoteSentFinal s" and "\<not> localClosed s" and "\<not> cancel (writeDeadline s)" and "fdw s = None"
    and "code \<le> 0x7fff" and "kvv_ok hdr" and "length (enc_response code hdr cl) \<le> FrameMaxPayloadSize - 1"
  shows "\<exists>p fd h. writeResponseDataLocked E (int code) cl hdr s = Ret (None, s\<lparr>pool := p, fdw := Some fd\<rparr>)
    \<and> hdr_ok h \<and> h_head h \<and> fbytes fd = hdr_bytes h @ RecordTypeHTTPResponse # enc_response code hdr cl"
proof (cases rule: writeStart_cases [OF assms(1)])
  case (1 e t)
  with assms(2-4) show ?thesis by simp
next
  case (2 fd p)
  then have b: "blank_frame (connID s) fd" using assms(5) by simp
  have fd: "4 \<le> length (fbytes fd)" "length (fbytes fd) = 4" using b by (auto simp: blank_frame_def)
  note v = frame_view [OF fd(1)]
  from WriteResponse_frame [OF v assms(7,6), of E cl] obtain fd' err where
    w: "FrameData_WriteResponse E fd (int code) cl hdr = Ret (fd', err)" "err = None \<longleftrightarrow> length (fbytes fd') \<le> FrameMaxSize"
    "fbytes fd' = hdr_bytes (fhdr fd\<lparr>h_head := True\<rparr>) @ drop 4 (fbytes fd) @ RecordTypeHTTPResponse # enc_response code hdr cl"
    by blast
  have "err = None" using w(2,3) assms(8) fd(2) by (simp add: frame_sizes)
  with w(1,3) 2(1) v(2) fd(2) show ?thesis
    by (intro exI [of _ p] exI [of _ fd'] exI [of _ "fhdr fd\<lparr>h_head := True\<rparr>"]) (simp add: writeResponseDataLocked_def fdw_val_def)
qed

text \<open>
  C27. \<^verbatim>\<open>Conn.WriteResponse\<close> deadlocks on every response with a known length and a body: it holds \<^verbatim>\<open>wmu\<close> while
  \<^verbatim>\<open>io.CopyN\<close> calls \<^verbatim>\<open>Conn.ReadFrom\<close>, which locks \<^verbatim>\<open>wmu\<close> again. On an open Conn with a response record that
  fits its frame the call never returns, and the Conn can never be written to or closed again.
\<close>

theorem WriteResponse_deadlocks:
  assumes "conn_inv E s" and "\<not> remoteSentFinal s" and "\<not> localClosed s" and "\<not> cancel (writeDeadline s)" and "fdw s = None"
    and "code \<le> 0x7fff" and "kvv_ok hdr" and "length (enc_response code hdr cl) \<le> FrameMaxPayloadSize - 1" and "0 < sint cl"
  shows "Conn_WriteResponse E M (int code) cl hdr (Some b) s = Blocks"
proof -
  let ?s = "s\<lparr>wmu := True\<rparr>"
  have "conn_core E ?s" "\<not> wmu s" using assms(1) by (simp_all add: conn_inv_def)
  with writeResponseDataLocked_ok [of E ?s, OF _ _ _ _ _ assms(6-8)] assms(2-5) obtain p fd where
    w: "writeResponseDataLocked E (int code) cl hdr ?s = Ret (None, ?s\<lparr>pool := p, fdw := Some fd\<rparr>)" by auto
  have "readFrom_loop (readFromHelper E M) r 0 (?s\<lparr>pool := p, fdw := Some fd\<rparr>) = Some Blocks" for r
    by (simp add: readFrom_loop.simps readFromHelper_def lock_wmu_def)
  then show ?thesis
    using \<open>\<not> wmu s\<close> assms(9) w
    by (simp add: Conn_WriteResponse_def lock_wmu_def io_CopyN_def Conn_ReadFrom_def run_loop_def)
qed

theorem WriteResponse_deadlocks_witness:
  "Conn_WriteResponse rap_default wire_mux 200 1 [] (Some \<lparr>b_reads = [([42], None)], b_err = ErrEOF, b_limit = None\<rparr>)
     (wire_conn rap_default 7 id) = Blocks"
  using WriteResponse_deadlocks [OF default_conn_inv, of id 200 "[]" 1 wire_mux "\<lparr>b_reads = [([42], None)], b_err = ErrEOF, b_limit = None\<rparr>"]
  by (simp add: makeConnDeadline_def kvv_ok_def enc_response_def enc_len_def enc_kvv_def enc_entries_def enc_null_def enc_int64_def zigzag_def
      enc_uint64.simps frame_sizes)
section \<open>Properties of the response writer\<close>

lemma fhdr_append: "4 \<le> length (fbytes fd) \<Longrightarrow> fbytes fd' = fbytes fd @ q \<Longrightarrow> fhdr fd' = fhdr fd"
  by (auto elim: four_bytes)

lemma WriteResponse_head:
  assumes "4 \<le> length (fbytes fd)" and "FrameData_WriteResponse E fd code cl hdr = Ret (fd', err)"
  shows "h_head (fhdr fd')"
proof -
  let ?fd1 = "upd_hdr (\<lambda>h. h\<lparr>h_head := True\<rparr>) fd"
  have h: "on_header SetHead fd = Ret ?fd1" using assms(1) by (simp add: view_write)
  let ?fd2 = "append_bytes E ?fd1 [RecordTypeHTTPResponse]"
  let ?fd3 = "write_entries E (fst (WriteLen E ?fd2 code)) hdr"
  have fd': "fd' = WriteInt64 E (WriteStringNull E ?fd3) cl"
    using assms(2) h by (auto simp: FrameData_WriteResponse_def WriteRecordType_def Let_def)
  have "grows ?fd1 ?fd2" "grows ?fd2 (fst (WriteLen E ?fd2 code))" "grows (fst (WriteLen E ?fd2 code)) ?fd3"
    by (simp_all add: grows_writers)
  then have "grows ?fd1 ?fd3" by (blast intro: grows_trans)
  then obtain q where "fbytes ?fd3 = fbytes ?fd1 @ q" by (auto simp: grows_def)
  then have "fbytes fd' = fbytes ?fd1 @ q @ enc_null @ enc_int64 cl" by (simp add: fd')
  moreover have "4 \<le> length (fbytes ?fd1)" "h_head (fhdr ?fd1)" using assms(1) frame_view(2) [OF assms(1)]
    by (simp_all add: upd_hdr_def)
  ultimately show ?thesis using fhdr_append [of ?fd1 fd'] by simp
qed

context accepting_muxer
begin

text \<open>The header is put in the frame being written, and stays there until something sends the frame.\<close>

lemma WriteResponseData_pending:
  assumes "conn_inv E s" and "minv (mux s)" and "writable s"
  shows "\<exists>err s'. WriteResponseData E code cl hdr s = Ret (err, s') \<and> conn_inv E s' \<and> mux s' = mux s \<and> write_changes s s'
    \<and> has_pending s'"
proof -
  let ?s = "s\<lparr>wmu := True\<rparr>"
  have s: "conn_core E ?s" "\<not> wmu s" "minv (mux ?s)" "writable ?s"
    using assms by (simp_all add: conn_inv_def writable_def)
  from writeStart_returns [OF s(1,4)] obtain fd p where w: "writeStart E ?s = Ret (None, ?s\<lparr>pool := p, fdw := Some fd\<rparr>)"
    "conn_core E (?s\<lparr>pool := p, fdw := Some fd\<rparr>)" by blast
  have o: "open_frame (connID s) fd" using core_fdwD [OF w(2)] by simp
  from WriteResponse_open [OF o, of E code cl hdr] obtain fd' err where
    f: "FrameData_WriteResponse E fd code cl hdr = Ret (fd', err)" "open_frame (connID s) fd'" by blast
  have hd: "h_head (fhdr fd')" using WriteResponse_head [OF _ f(1)] o by (simp add: open_frame_def)
  let ?t = "s\<lparr>pool := p, fdw := Some fd'\<rparr>"
  have r: "WriteResponseData E code cl hdr s = Ret (err, ?t\<lparr>wmu := False\<rparr>)"
    using s(2) w(1) f(1) by (simp add: WriteResponseData_def lock_wmu_def writeResponseDataLocked_def fdw_val_def)
  from WriteResponseData_safe [OF assms(1,2), of code cl hdr] r have u: "user_post E s (?t\<lparr>wmu := False\<rparr>) False []" by simp
  then have "conn_inv E (?t\<lparr>wmu := False\<rparr>)" "write_changes s (?t\<lparr>wmu := False\<rparr>)"
    unfolding user_post_def write_post_def by blast+
  moreover have "has_pending (?t\<lparr>wmu := False\<rparr>)" "mux (?t\<lparr>wmu := False\<rparr>) = mux s" using hd by (simp_all add: has_pending_def)
  ultimately show ?thesis using r by blast
qed

text \<open>A response that fits is put whole in the frame being written.\<close>

lemma WriteResponseData_puts:
  assumes "conn_inv E s" and "minv (mux s)" and "writable s" and "fdw s = None"
    and "code \<le> 0x7fff" and "kvv_ok hdr" and "length (enc_response code hdr cl) \<le> FrameMaxPayloadSize - 1"
  shows "\<exists>p fd h. WriteResponseData E (int code) cl hdr s = Ret (None, s\<lparr>pool := p, fdw := Some fd\<rparr>)
    \<and> conn_inv E (s\<lparr>pool := p, fdw := Some fd\<rparr>) \<and> hdr_ok h \<and> h_head h
    \<and> fbytes fd = hdr_bytes h @ RecordTypeHTTPResponse # enc_response code hdr cl"
proof -
  let ?s = "s\<lparr>wmu := True\<rparr>"
  have s: "conn_core E ?s" "\<not> wmu s" "\<not> remoteSentFinal ?s" "\<not> localClosed ?s" "\<not> cancel (writeDeadline ?s)" "fdw ?s = None"
    using assms(1,3,4) by (simp_all add: conn_inv_def writable_def)
  from writeResponseDataLocked_ok [OF s(1,3-6) assms(5-7)] obtain p fd h where
    w: "writeResponseDataLocked E (int code) cl hdr ?s = Ret (None, ?s\<lparr>pool := p, fdw := Some fd\<rparr>)"
    "hdr_ok h" "h_head h" "fbytes fd = hdr_bytes h @ RecordTypeHTTPResponse # enc_response code hdr cl" by blast
  have r: "WriteResponseData E (int code) cl hdr s = Ret (None, s\<lparr>pool := p, fdw := Some fd, wmu := False\<rparr>)"
    using s(2) w(1) by (simp add: WriteResponseData_def lock_wmu_def)
  have e: "s\<lparr>pool := p, fdw := Some fd, wmu := False\<rparr> = s\<lparr>pool := p, fdw := Some fd\<rparr>" using s(2) by simp
  from WriteResponseData_safe [OF assms(1,2), of "int code" cl hdr] r
  have "conn_inv E (s\<lparr>pool := p, fdw := Some fd, wmu := False\<rparr>)" by (simp add: user_post_def)
  with r w(2-4) show ?thesis unfolding e by blast
qed

lemma RW_Flush_loses:
  assumes "conn_inv E s" and "minv (mux s)" and "writable s" and "onRecycle s = None" and "\<not> wroteHeader rw" and "\<not> Flushed rw"
    and "\<forall>m. HeaderMap rw = Some m \<longrightarrow> map_of m ''Content-Length'' \<noteq> Some []"
  shows "\<exists>rw' s'. RW_Flush E M rw s = Ret (rw', s') \<and> sent (mux s') = sent (mux s) \<and> Flushed rw'
    \<and> localSentFinal s' \<and> fdw s' = None"
proof -
  let ?m = "case HeaderMap rw of None \<Rightarrow> [] | Some m \<Rightarrow> m"
  obtain cl where cl: "(case map_of ?m ''Content-Length'' of None \<Rightarrow> Ret (- 1)
      | Some cl \<Rightarrow> bnd (idx cl 0) (\<lambda>v. Ret (case ParseInt64 v of Some n \<Rightarrow> word_of_int n | None \<Rightarrow> - 1))) = Ret (cl :: i64)"
  proof (cases "map_of ?m ''Content-Length''")
    case None
    with that show thesis by simp
  next
    case (Some v)
    then have "v \<noteq> []" using assms(7) by (auto split: option.splits)
    with Some that show thesis by (cases v) simp_all
  qed
  from WriteResponseData_pending [OF assms(1-3), of 200 cl ?m] obtain err s1 where
    w: "WriteResponseData E 200 cl ?m s = Ret (err, s1)" "conn_inv E s1" "mux s1 = mux s" "write_changes s s1" "has_pending s1" by blast
  have h: "RW_WriteHeader E 200 rw s = Ret (rw\<lparr>Code := 200, wroteHeader := True\<rparr>, s1)"
    using assms(5) cl w(1) by (simp add: RW_WriteHeader_def Let_def)
  have s1: "minv (mux s1)" "onRecycle s1 = None" "\<not> localClosed s1" "\<not> remoteSentFinal s1"
    using w(3,4) assms(2-4) by (simp_all add: write_changes_def writable_def)
  from Close_returns [OF w(2) s1(1,2)] obtain e s' where c: "Close E M s1 = Ret (e, s')" by auto
  have "recycle_ok s1" using s1(2) by (simp add: recycle_ok_def)
  from Close_safe [OF w(2) s1(1) this] c w(5) s1(3,4)
  have c2: "conn_inv E s'" "sent (mux s') = sent (mux s1)" "localClosed s'" by simp_all
  then have "localSentFinal s'" "fdw s' = None" by (simp_all add: conn_inv_def)
  with h c c2 w(3) assms(5,6) show ?thesis by (simp add: RW_Flush_def)
qed

end

text \<open>
  C26. \<^verbatim>\<open>ResponseWriter.Flush\<close> throws the response away. On an open Conn, when the handler has not written
  anything yet, \<^verbatim>\<open>Flush\<close> puts the response header in the frame being written and then closes the Conn,
  which discards that frame: no frame at all is sent, neither the header nor
  the final frame, and the Conn counts as having said its last word. The peer waits for ever.
\<close>

theorem RW_Flush_loses_response:
  assumes "accepting_muxer M minv sent" and "conn_inv E s" and "minv (mux s)"
    and "\<not> localClosed s" and "\<not> remoteSentFinal s" and "\<not> cancel (writeDeadline s)" and "onRecycle s = None"
    and "\<not> wroteHeader rw" and "\<not> Flushed rw" and "\<forall>m. HeaderMap rw = Some m \<longrightarrow> map_of m ''Content-Length'' \<noteq> Some []"
  shows "\<exists>rw' s'. RW_Flush E M rw s = Ret (rw', s') \<and> sent (mux s') = sent (mux s) \<and> Flushed rw'
    \<and> localSentFinal s' \<and> fdw s' = None"
  using accepting_muxer.RW_Flush_loses [OF assms(1-3) _ assms(7-10)] assms(4-6)
  by (simp add: accepting_muxer.writable_def [OF assms(1)])

theorem RW_Flush_loses_response_witness:
  "\<exists>rw' s'. RW_Flush rap_default wire_mux NewResponseWriter (wire_conn rap_default 7 id) = Ret (rw', s') \<and> mux s' = [] \<and> localSentFinal s'"
  using RW_Flush_loses_response [OF wire_accepting default_conn_inv, of id NewResponseWriter]
  by (auto simp: NewResponseWriter_def makeConnDeadline_def)

section \<open>Sending a request\<close>

lemma grows_write_entry: "grows fd (write_entry E fd k vv)"
  unfolding write_entry_def WriteStringNull_def
  by (rule grows_trans [OF grows_WriteString [of fd E k] grows_trans [OF grows_write_values grows_append]])

lemma grows_request_headers:
  "request_headers E m fd cl hc host hh = Ret (fd', x) \<Longrightarrow> grows fd fd'"
proof (induction m arbitrary: fd cl hc host hh)
  case (Cons e m)
  obtain k vv where e: "e = (k, vv)" by (cases e)
  from Cons.prems [unfolded e request_headers.simps] obtain y where
    "(case y of (cl, haveCL) \<Rightarrow> bnd (if \<not> hh \<and> k = ''Host'' then
            if host = [] then bnd (idx vv 0) (\<lambda>v. Ret (v, True)) else Ret (host, True)
          else Ret (host, hh)) (\<lambda>(host, haveHost).
     request_headers E m (write_entry E fd k vv) cl haveCL host haveHost)) = Ret (fd', x)" by (rule bnd_RetE)
  from this [unfolded split_def] obtain z where
    "request_headers E m (write_entry E fd k vv) (fst y) (snd y) (fst z) (snd z) = Ret (fd', x)" by (rule bnd_RetE)
  from Cons.IH [OF this] show ?case by (rule grows_trans [OF grows_write_entry])
qed simp

lemma WriteRequest_open:
  assumes "open_frame i fd" and "FrameData_WriteRequest E fd r = Ret (fd', err)"
  shows "open_frame i fd'"
proof -
  have "4 \<le> length (fbytes fd)" using assms(1) by (simp add: open_frame_def)
  then obtain fd1 where h: "on_header SetHead fd = Ret fd1" by (simp add: view_write)
  let ?fd2 = "append_bytes E fd1 [RecordTypeHTTPRequest]"
  let ?fd3 = "fst (WriteString E (fst (WriteString E ?fd2 (rq_Method r))) (rq_Scheme r))"
  from assms(2) [unfolded FrameData_WriteRequest_def WriteRecordType_def h bnd.simps Let_def] obtain np where a: "bnd (request_headers E (rq_Header r) (WriteStringNull E (write_entries E (fst (WriteRoute E ?fd3 np)) (rq_Query r)))
        (rq_ContentLength r) False (rq_Host r) False)
      (\<lambda>(fd, cl, haveCL, host). let fd = WriteStringNull E fd;
           fd = (if host = [] then WriteStringNull E fd else fst (WriteString E fd host));
           fd = WriteInt64 E fd (if haveCL \<or> sint cl \<ge> 0 then cl else - 1)
       in Ret (fd, if length (fbytes fd) > FrameMaxSize then Some ErrFrameTooBig else None)) = Ret (fd', err)"
    unfolding Let_def by (rule bnd_RetE)
  let ?fd4 = "WriteStringNull E (write_entries E (fst (WriteRoute E ?fd3 np)) (rq_Query r))"
  from a obtain fd5 cl hc host where b: "request_headers E (rq_Header r) ?fd4 (rq_ContentLength r) False (rq_Host r) False = Ret (fd5, cl, hc, host)"
    and fd': "fd' = WriteInt64 E (if host = [] then WriteStringNull E (WriteStringNull E fd5) else fst (WriteString E (WriteStringNull E fd5) host))
      (if hc \<or> sint cl \<ge> 0 then cl else - 1)"
    by (elim bnd_RetE) (auto simp: Let_def split_def)
  have "grows fd1 ?fd2" "grows ?fd2 (fst (WriteString E ?fd2 (rq_Method r)))" "grows (fst (WriteString E ?fd2 (rq_Method r))) ?fd3"
    "grows ?fd3 (fst (WriteLen E ?fd3 0))" "grows (fst (WriteLen E ?fd3 0)) (fst (WriteRoute E ?fd3 np))"
    "grows (fst (WriteRoute E ?fd3 np)) (write_entries E (fst (WriteRoute E ?fd3 np)) (rq_Query r))"
    "grows (write_entries E (fst (WriteRoute E ?fd3 np)) (rq_Query r)) ?fd4"
    by (simp_all add: grows_writers WriteRoute_def WriteStringNull_def)
  then have "grows fd1 ?fd4" by (meson grows_trans)
  moreover have "grows ?fd4 fd5" by (rule grows_request_headers [OF b])
  moreover have n: "grows f (WriteStringNull E f)" for f by (simp add: WriteStringNull_def)
  moreover have "grows fd5 fd'"
    unfolding fd' WriteInt64_def Let_def
    by (rule grows_trans [OF _ grows_WriteUint64]) (auto intro: grows_trans [OF n] simp: n grows_WriteString)
  ultimately have "grows fd1 fd'" by (meson grows_trans)
  from on_header_open [OF assms(1) h this] show ?thesis by simp
qed

text \<open>A frame that starts with a record, with its size in the header.\<close>

lemma sized_record:
  assumes "open_frame i fd" and "fbytes fd = hdr_bytes h @ rt # p" and "hdr_ok h" and "h_head h" and "length (fbytes fd) \<le> FrameMaxSize"
  shows "record_frame rt p (Conn_Laws.sized fd)" "wire_frame i (Conn_Laws.sized fd)" "is_data (Conn_Laws.sized fd)"
proof -
  have hd: "fhdr fd = h" using assms(2,3) by simp
  show "wire_frame i (Conn_Laws.sized fd)" "is_data (Conn_Laws.sized fd)" using sized_wire [OF assms(1) _ assms(5)] assms(4) hd by simp_all
  have "length (fbytes fd) - 4 < 65536" using assms(5) by (simp add: frame_sizes)
  then have "hdr_ok (h\<lparr>h_size := length (fbytes fd) - 4\<rparr>)" using assms(3) by (simp add: hdr_ok_def)
  moreover have "fbytes (Conn_Laws.sized fd) = hdr_bytes (h\<lparr>h_size := length (fbytes fd) - 4\<rparr>) @ rt # p"
    unfolding Conn_Laws.sized_def upd_hdr_def hd by simp (simp add: assms(2))
  ultimately show "record_frame rt p (Conn_Laws.sized fd)"
    unfolding record_frame_def using assms(4) by (intro exI [of _ "h\<lparr>h_size := length (fbytes fd) - 4\<rparr>"]) simp
qed

context accepting_muxer
begin

text \<open>A frame with content is sent as it is, with its size in the header.\<close>

lemma Flush_sends:
  assumes "conn_inv E s" and "minv (mux s)" and "writable s" and "0 < credit s"
    and "fdw s = Some fd" and "length (fbytes fd) \<le> FrameMaxSize" and "h_head (fhdr fd)"
  shows "\<exists>s'. Flush E M s = Ret (None, s') \<and> sent (mux s') = sent (mux s) @ [sized fd] \<and> conn_inv E s'
    \<and> minv (mux s') \<and> write_changes s s' \<and> fdw s' = None \<and> credit s' = credit s - 1 \<and> runstate s' \<noteq> runStateUnused"
proof -
  let ?s = "s\<lparr>wmu := True\<rparr>" and ?t = "s\<lparr>wmu := True, fdw := None\<rparr>"
  have s: "conn_core E ?s" "\<not> wmu s" using assms(1) by (simp_all add: conn_inv_def)
  have o: "open_frame (connID s) fd" using core_fdwD [OF s(1), of fd] assms(5) by simp
  have t: "conn_core E ?t" "minv (mux ?t)" "writable ?t" "0 < credit ?t"
    using s(1) assms(2-4) by (simp_all add: core_fdw writable_def credit_def)
  note w = sized_wire(1) [OF o disjI2 [OF assms(7)] assms(6)]
  then have f: "frame_ok (fbytes (sized fd))" "frame_room (sized fd)" by (simp_all add: wire_frame_def)
  from write_loop_returns [OF t f(1)] obtain s' where r: "write_loop E M (sized fd) ?t = Ret (None, s')" "runstate s' \<noteq> runStateUnused" by blast
  with write_loop_safe [OF t(1,2) f] have m: "sent (mux s') = sent (mux s) @ [sized fd]" "minv (mux s')" "send_changes ?t s'" "credit s' = credit s - 1"
    by (simp_all add: send_post_def credit_def)
  have fl: "Flush E M s = Ret (None, s'\<lparr>wmu := False\<rparr>)"
    using s(2) r(1) assms(5-7) by (simp add: Flush_def lock_wmu_def flushLocked_def writeFrame_eq [OF o])
  with Flush_safe [OF assms(1,2)] have "conn_inv E (s'\<lparr>wmu := False\<rparr>)" by (simp add: user_post_def)
  moreover have "write_changes s (s'\<lparr>wmu := False\<rparr>)" "fdw (s'\<lparr>wmu := False\<rparr>) = None"
    using m(3) s(2) by (simp_all add: send_changes_def write_changes_def)
  ultimately show ?thesis using fl m r(2) by (simp add: credit_def)
qed

lemma WriteRequest_sends:
  assumes "conn_inv E s" and "minv (mux s)" and "writable s" and "0 < credit s" and "fdw s = None"
    and "request_ok r" and "request_route (rq_Path r) = Ret np" and "string_ok np"
    and "length (enc_request r np) < FrameMaxPayloadSize" and "sint (rq_ContentLength r) \<le> 0"
    and "rbody = None \<or> rbody = Some \<lparr>b_reads = [], b_err = ErrEOF, b_limit = None\<rparr>"
  shows "\<exists>s' fd. Conn_WriteRequest E M r rbody s = Ret (if rbody = None then Some ErrEOF else None, s')
    \<and> sent (mux s') = sent (mux s) @ [fd] \<and> record_frame RecordTypeHTTPRequest (enc_request r np) fd \<and> wire_frame (connID s) fd
    \<and> conn_inv E s' \<and> minv (mux s') \<and> write_changes s s' \<and> credit s' = credit s - 1 \<and> runstate s' \<noteq> runStateUnused \<and> fdw s' = None"
proof -
  let ?s = "s\<lparr>wmu := True\<rparr>"
  have s: "conn_core E ?s" "\<not> wmu s" "writable ?s" using assms(1,3) by (simp_all add: conn_inv_def writable_def)
  from writeStart_returns [OF s(1,3)] obtain fd p where w: "writeStart E ?s = Ret (None, ?s\<lparr>pool := p, fdw := Some fd\<rparr>)"
    "conn_core E (?s\<lparr>pool := p, fdw := Some fd\<rparr>)" "blank_frame (connID s) fd" using assms(5) by auto
  let ?t = "s\<lparr>pool := p, fdw := Some fd, wmu := False\<rparr>"
  have ws: "WriteStart E s = Ret (None, ?t)" using w(1) s(2) by (simp add: WriteStart_def lock_wmu_def)
  have fd: "4 \<le> length (fbytes fd)" "length (fbytes fd) = 4" using w(3) by (auto simp: blank_frame_def)
  note v = frame_view [OF fd(1)]
  from WriteRequest_frame [OF v assms(6-8), of E] obtain fd' where q: "FrameData_WriteRequest E fd r = Ret (fd', None)"
    "fbytes fd' = hdr_bytes (fhdr fd\<lparr>h_head := True\<rparr>) @ RecordTypeHTTPRequest # enc_request r np" "length (fbytes fd') \<le> FrameMaxSize"
    using assms(9) fd(2) by (auto simp: frame_sizes)
  let ?u = "?t\<lparr>fdw := Some fd'\<rparr>"
  have "open_frame (connID s) fd" using core_fdwD [OF w(2)] by simp
  then have o: "open_frame (connID s) fd'" by (rule WriteRequest_open [OF _ q(1)])
  have u: "conn_inv E ?u" "minv (mux ?u)" "writable ?u" "0 < credit ?u"
    using assms(1-4) w(2) o by (auto simp: conn_inv_def writable_def credit_def conn_core_def)
  have hd: "fhdr fd' = fhdr fd\<lparr>h_head := True\<rparr>" using v(2) by (simp add: q(2))
  then have "h_head (fhdr fd')" by simp
  from Flush_sends [OF u _ q(3) this] obtain s' where f: "Flush E M ?u = Ret (None, s')" "sent (mux s') = sent (mux s) @ [sized fd']"
    "conn_inv E s'" "minv (mux s')" "write_changes ?u s'" "credit s' = credit s - 1" "runstate s' \<noteq> runStateUnused" "fdw s' = None" by (auto simp: credit_def)
  have ch: "write_changes s s'" using f(5) s(2) by (simp add: write_changes_def)
  have body: "Conn_ReadFrom E M rbody ?u = Ret ((0, if rbody = None then Some ErrEOF else None), ?u)"
  proof (cases rbody)
    case (Some b)
    with assms(11) have b: "b = \<lparr>b_reads = [], b_err = ErrEOF, b_limit = None\<rparr>" by simp
    have "writeStart E (?u\<lparr>wmu := True\<rparr>) = Ret (None, ?u\<lparr>wmu := True\<rparr>)"
      using assms(3) by (simp add: writeStart_def start_ready_def writable_def)
    then show ?thesis
      by (simp add: Some b Conn_ReadFrom_def run_loop_def readFrom_loop.simps readFromHelper_def lock_wmu_def readFromHelperLocked_def
          Body_Read_def)
  qed (simp add: Conn_ReadFrom_def)
  have rec: "record_frame RecordTypeHTTPRequest (enc_request r np) (sized fd')" "wire_frame (connID s) (sized fd')"
    using sized_record [OF o q(2) _ _ q(3)] v(2) by (simp_all add: hdr_ok_def)
  have "Conn_WriteRequest E M r rbody s = Ret (if rbody = None then Some ErrEOF else None, s')"
    using ws q(1) body f(1) assms(10) by (simp add: Conn_WriteRequest_def fdw_val_def)
  then show ?thesis using f(2-4,6-8) ch rec by blast
qed

end

text \<open>
  C20. A request without a body is sent as one frame: on an open Conn with room in its window,
  \<^verbatim>\<open>Conn.WriteRequest\<close> of a request that fits a frame and whose body is empty puts exactly one frame on
  the wire, a well-formed data frame of this Conn with the head flag that carries the request record.
  It reports success when the body is an empty reader; when \<^verbatim>\<open>r.Body\<close> is nil, as it is for a client
  request without a body, it reports \<^verbatim>\<open>io.EOF\<close> although the request has been sent.
\<close>

theorem WriteRequest_sends_record:
  assumes "accepting_muxer M minv sent" and "conn_inv E s" and "minv (mux s)"
    and "\<not> localClosed s" and "\<not> remoteSentFinal s" and "\<not> cancel (writeDeadline s)" and "0 < credit s" and "fdw s = None"
    and "request_ok r" and "request_route (rq_Path r) = Ret np" and "string_ok np"
    and "length (enc_request r np) < FrameMaxPayloadSize" and "sint (rq_ContentLength r) \<le> 0"
    and "rbody = None \<or> rbody = Some \<lparr>b_reads = [], b_err = ErrEOF, b_limit = None\<rparr>"
  shows "\<exists>s' fd. Conn_WriteRequest E M r rbody s = Ret (if rbody = None then Some ErrEOF else None, s')
    \<and> sent (mux s') = sent (mux s) @ [fd] \<and> record_frame RecordTypeHTTPRequest (enc_request r np) fd \<and> wire_frame (connID s) fd"
  using accepting_muxer.WriteRequest_sends [OF assms(1-3) _ assms(7-14)] assms(4-6)
  unfolding accepting_muxer.writable_def [OF assms(1)] by blast

theorem WriteRequest_sends_record_witness:
  "\<exists>s' fd. Conn_WriteRequest rap_default wire_mux example_request None (wire_conn rap_default 7 id) = Ret (Some ErrEOF, s')
     \<and> mux s' = [fd] \<and> record_frame RecordTypeHTTPRequest (enc_request example_request ''/a/b'') fd"
proof -
  have p: "request_route (rq_Path example_request) = Ret ''/a/b''" "string_ok ''/a/b''"
    by (simp_all add: example_request_def request_route_def path_Clean_def Let_def clean_step_def join_with_def string_ok_def)
  have "length (enc_request example_request ''/a/b'') \<le> 100"
    by (simp add: enc_request_def example_request_def enc_string_def enc_len_def enc_kvv_def enc_entries_def enc_strings_def enc_null_def
        enc_int64_def zigzag_def enc_uint64.simps sent_host_def sent_length_def Let_def)
  moreover have "sint (rq_ContentLength example_request) \<le> 0" by (simp add: example_request_def)
  ultimately show ?thesis
    using WriteRequest_sends_record [OF wire_accepting default_conn_inv _ _ _ _ _ _ example_request_ok p, of id None]
    by (auto simp: makeConnDeadline_def credit_def frame_sizes)
qed

end
