(* ===== verification/Conn_Calls.thy ===== *)
theory Conn_Calls
  imports Conn_Http
begin

text \<open>
  All methods of a Conn together: the calls of \<open>Conn_Safety\<close>, which need nothing but the invariant, and
  those that rely on what they are given (a frame, a callback, a request, a handler, a writer, the records
  of the peer), each with the condition under which it does not panic.
\<close>

section \<open>What a reader may meet\<close>

text \<open>
  \<open>Q fd p\<close> holds of the frame \<open>fd\<close> being read and the rest \<open>p\<close> of its payload, if there is one, and of
  every frame that waits to be read and its payload.
\<close>

definition may_read :: "(FrameData \<Rightarrow> byte list \<Rightarrow> bool) \<Rightarrow> 'm sys \<Rightarrow> bool" where
  "may_read Q s \<longleftrightarrow> (cfp s \<noteq> [] \<longrightarrow> (\<exists>fd. fdr s = Some fd \<and> Q fd (cfp s)))
     \<and> list_all (\<lambda>fd. Q fd (drop 4 (fbytes fd))) (readCh s)"

lemma readFrame_may_read:
  assumes "readFrame E M s = Ret (err, s')" and "may_read Q s" and "cfp s = []"
  shows "may_read Q s'"
  using assms
  by (auto simp: readFrame_def Let_def bnd_Ret_conv select_Ret writeAckFrame_def conn_write_Ret alloc_frame_Ret may_read_def
      NewFrameParser_def Payload_def slice_from_def FrameHeaderSize_def split: conn_case.splits list.splits if_splits)

lemma loadFrameReader_may_read:
  assumes "loadFrameReader E M s = Ret (err, s')" and "may_read Q s"
  shows "may_read Q s'"
  using assms
proof (induction "length (readCh s)" arbitrary: s rule: less_induct)
  case less
  show ?case
  proof (cases "cfp s = []")
    case True
    from less.prems(1) True obtain e1 s1 where r: "readFrame E M s = Ret (e1, s1)"
      "(if e1 = None then loadFrameReader E M s1 else Ret (e1, s1)) = Ret (err, s')"
      by (subst (asm) loadFrameReader.simps) (auto simp: bnd_Ret_conv)
    note m = readFrame_may_read [OF r(1) less.prems(2) True]
    show ?thesis
    proof (cases e1)
      case None
      with r have "length (readCh s1) < length (readCh s)" using readFrame_shorter by blast
      from less.hyps [OF this _ m] r(2) None show ?thesis by simp
    qed (use r(2) m in simp)
  qed (use less.prems in \<open>simp add: loadFrameReader.simps\<close>)
qed

text \<open>Records that the parsers get through: no read past the end of the payload.\<close>

definition response_parses :: "FrameData \<Rightarrow> byte list \<Rightarrow> bool" where
  "response_parses fd p \<longleftrightarrow> 4 \<le> length (fbytes fd)
     \<and> (h_head (fhdr fd) \<longrightarrow> safe (ReadRecordType p) (\<lambda>(rt, q).
          rt = RecordTypeHTTPResponse \<longrightarrow> (\<forall>w. safe (FrameParser_ProxyResponse q w) (\<lambda>_. True))))"

definition request_parses :: "(string \<Rightarrow> string option) \<Rightarrow> FrameData \<Rightarrow> byte list \<Rightarrow> bool" where
  "request_parses auth fd p \<longleftrightarrow> 4 \<le> length (fbytes fd)
     \<and> (h_head (fhdr fd) \<longrightarrow> safe (ReadRecordType p) (\<lambda>(rt, q).
          rt = RecordTypeHTTPRequest \<longrightarrow> safe (ReadRequest auth q) (\<lambda>_. True)))"

section \<open>The methods\<close>

datatype ('m, 'w) conn_method =
    Plain conn_call
  | CallSubmitFrame "FrameData option"
  | CallOnRecycle "('m \<Rightarrow> 'm go) option"
  | CallWriteTo "'w writer" 'w
  | CallWriteRequest request "body option"
  | CallProxyResponse response_writer
  | CallWriteResponse int i64 kvv "body option"
  | CallServe "string \<Rightarrow> string option" "'m handler"

fun run_method :: "rap_config \<Rightarrow> 'm ConnMuxer \<Rightarrow> ('m, 'w) conn_method \<Rightarrow> 'm sys \<Rightarrow> 'm sys go" where
  "run_method E M (Plain c) s = run_call E M c s"
| "run_method E M (CallSubmitFrame fdo) s = SubmitFrame E fdo s"
| "run_method E M (CallOnRecycle f) s = map_go snd (OnRecycle f s)"
| "run_method E M (CallWriteTo wr w) s = map_go snd (Conn_WriteTo E M wr w s)"
| "run_method E M (CallWriteRequest r b) s = map_go snd (Conn_WriteRequest E M r b s)"
| "run_method E M (CallProxyResponse w) s = map_go snd (Conn_ProxyResponse E M w s)"
| "run_method E M (CallWriteResponse code cl hdr b) s = map_go snd (Conn_WriteResponse E M code cl hdr b s)"
| "run_method E M (CallServe auth h) s = map_go snd (Serve E M auth h s)"

text \<open>
  When a method may be called: \<^verbatim>\<open>SubmitFrame\<close> with a frame that keeps to the protocol; \<^verbatim>\<open>OnRecycle\<close> with
  any callback; \<^verbatim>\<open>WriteTo\<close> with a writer that does not claim to have written more than it was given;
  \<^verbatim>\<open>WriteRequest\<close> with a path, a value for every header and, if a length is announced, a body;
  \<^verbatim>\<open>ProxyResponse\<close> and \<^verbatim>\<open>Serve\<close> when the records of the peer parse, and \<^verbatim>\<open>Serve\<close> with a handler that
  does not panic and keeps the invariant of the Conn. \<^verbatim>\<open>WriteResponse\<close> needs no more than the plain calls.
\<close>

fun method_ok ::
  "('m \<Rightarrow> bool) \<Rightarrow> ('m \<Rightarrow> FrameData list) \<Rightarrow> rap_config \<Rightarrow> ('m, 'w) conn_method \<Rightarrow> 'm sys \<Rightarrow> bool" where
  "method_ok minv sent E (CallSubmitFrame fdo) s \<longleftrightarrow> (\<exists>fd. fdo = Some fd \<and> may_submit E fd s)"
| "method_ok minv sent E (CallWriteTo wr w) s \<longleftrightarrow> (\<forall>w bs. fst (snd (wr w bs)) \<le> length bs)"
| "method_ok minv sent E (CallWriteRequest r b) s \<longleftrightarrow> rq_Path r \<noteq> [] \<and> (\<forall>vv \<in> snd ` set (rq_Header r). vv \<noteq> [])
     \<and> (sint (rq_ContentLength r) > 0 \<longrightarrow> b \<noteq> None)"
| "method_ok minv sent E (CallProxyResponse w) s \<longleftrightarrow> may_read response_parses s"
| "method_ok minv sent E (CallServe auth h) s \<longleftrightarrow> may_read (request_parses auth) s
     \<and> (\<forall>req t. served minv sent E t \<longrightarrow> safe (h req t) (served minv sent E))"
| "method_ok minv sent E _ s \<longleftrightarrow> True"

section \<open>Reading whole frames\<close>

context conn_muxer
begin

lemma drain_fp_safe:
  assumes "drain_fp wr fp w n err = Some g"
  shows "(\<forall>w bs. fst (snd (wr w bs)) \<le> length bs) \<longrightarrow> safe g (\<lambda>_. True)"
proof (rule drain_fp.raw_induct [OF _ assms], intro impI)
  fix loop :: "'b writer \<Rightarrow> FrameParser \<Rightarrow> 'b \<Rightarrow> nat \<Rightarrow> goerr option \<Rightarrow> ('b \<times> nat \<times> goerr option \<times> FrameParser) go option"
  fix wr fp w n err g
  assume IH: "\<And>wr fp w n err y. loop wr fp w n err = Some y \<Longrightarrow>
      (\<forall>w bs. fst (snd (wr w bs)) \<le> length bs) \<longrightarrow> safe y (\<lambda>_. True)"
    and g: "(if fp \<noteq> [] then
        (case wr w fp of (w, count, err) \<Rightarrow>
           (case slice_from fp count of
              Ret fp \<Rightarrow>
                if err \<noteq> None \<and> err \<noteq> Some ErrShortWrite then Some (Ret (w, n + count, err, fp))
                else loop wr fp w (n + count) err
            | Panics p \<Rightarrow> Some (Panics p)
            | Blocks \<Rightarrow> Some Blocks))
      else Some (Ret (w, n, err, fp))) = Some g"
    and c: "\<forall>w bs. fst (snd (wr w bs)) \<le> length bs"
  obtain w' count err' where wr: "wr w fp = (w', count, err')" by (metis surj_pair)
  with c have "count \<le> length fp" by (metis fst_conv snd_conv)
  with g wr IH c show "safe g (\<lambda>_. True)" by (auto simp: slice_from_def split: if_splits)
qed

lemma writeToHelper_safe:
  assumes "conn_inv E s" and "minv (mux s)" and "\<forall>w bs. fst (snd (wr w bs)) \<le> length bs"
  shows "safe (writeToHelper E M wr w s) (\<lambda>(x, s'). reader_post E s s' \<and> True)"
  unfolding writeToHelper_def
proof (rule locked_read [OF assms(1,2), where R = "\<lambda>_ _. True"])
  fix t :: "'m sys"
  assume t: "conn_core E t" "minv (mux t)"
  have d: "safe (run_loop (drain_fp wr p w 0 None)) (\<lambda>_. True)" for p
    by (rule run_loop_safe) (rule drain_fp_safe [THEN mp, OF _ assms(3)])
  show "safe (bnd (loadFrameReader E M t) (\<lambda>(err, s). if err \<noteq> None then Ret ((w, 0, err), s)
      else bnd (run_loop (drain_fp wr (cfp s) w 0 None)) (\<lambda>(w, n, err, fp). Ret ((w, n, err), s\<lparr>cfp := fp\<rparr>))))
    (\<lambda>(x, t'). read_post E t t' \<and> True)"
    by (rule safe_bndI [OF loadFrameReader_safe [OF t]], unfold split_paired_all case_prod_conv)
      (auto intro!: safe_mono [OF d] simp: read_post_cfp)
qed

lemma reader_post_inv: "reader_post E s s' \<Longrightarrow> conn_inv E s' \<and> minv (mux s')"
  by (simp add: reader_post_def read_post_def)

lemma Conn_WriteTo_safe:
  assumes "conn_inv E s" and "minv (mux s)" and "\<forall>w bs. fst (snd (wr w bs)) \<le> length bs"
  shows "safe (Conn_WriteTo E M wr w s) (\<lambda>(x, s'). conn_inv E s' \<and> minv (mux s'))"
proof -
  have round: "\<forall>w t. conn_inv E t \<and> minv (mux t) \<longrightarrow>
      safe (writeToHelper E M wr w t) (\<lambda>((w', n, err), t'). conn_inv E t' \<and> minv (mux t'))"
    using assms(3) by (auto intro!: safe_mono [OF writeToHelper_safe] dest: reader_post_inv)
  have "safe g (\<lambda>(x, s'). conn_inv E s' \<and> minv (mux s'))" if "writeTo_loop E M wr w 0 s = Some g" for g
    using writeTo_loop_keeps [OF that, where P = "\<lambda>t. conn_inv E t \<and> minv (mux t)"] round assms(1,2) by simp
  then show ?thesis unfolding Conn_WriteTo_def by (rule run_loop_safe)
qed

lemma Conn_ProxyResponse_safe:
  assumes "conn_inv E s" and "minv (mux s)" and "may_read response_parses s"
  shows "safe (Conn_ProxyResponse E M w s) (\<lambda>(x, s'). conn_inv E s' \<and> minv (mux s'))"
proof -
  let ?s = "s\<lparr>rmu := True\<rparr>"
  have s: "conn_core E ?s" "minv (mux ?s)" "\<not> rmu s" using assms(1,2) by (simp_all add: conn_inv_def)
  have "safe (Conn_ProxyResponse E M w s) (\<lambda>(x, s'). reader_post E s s')"
    unfolding Conn_ProxyResponse_def
  proof (rule lock_rmu_safe [OF s(3)], rule safe_bnd, rule safe_mono [OF loadFrameReader_safe [OF s(1,2)]],
      unfold split_paired_all case_prod_conv)
    fix err :: "goerr option" and t :: "'m sys"
    assume r: "loadFrameReader E M ?s = Ret (err, t)"
      and a: "read_post E ?s t \<and> unread t = unread ?s \<and> (err = None \<longleftrightarrow> cfp t \<noteq> [])
        \<and> (err = Some ErrEOF \<longrightarrow> unread ?s = [] \<and> remoteSentFinal ?s)"
    have post: "reader_post E s (t\<lparr>cfp := p, rmu := False\<rparr>)" for p
      using unlock_r [OF assms(1) read_post_cfp, of t p] a by simp
    then have post0: "reader_post E s (t\<lparr>rmu := False\<rparr>)" using unlock_r [OF assms(1)] a by simp
    have q: "may_read response_parses t" by (rule loadFrameReader_may_read [OF r]) (use assms(3) in \<open>simp add: may_read_def\<close>)
    show "safe (if err \<noteq> None then Ret ((0, err, w), t)
       else bnd (HasHead (hdr_of (fdr t))) (\<lambda>head.
         if head then
           bnd (ReadRecordType (cfp t)) (\<lambda>(rt, fp).
             if rt = RecordTypeHTTPResponse then
               bnd (FrameParser_ProxyResponse fp w) (\<lambda>(code, w, fp). Ret ((code, None, w), t\<lparr>cfp := fp\<rparr>))
             else if rt = RecordTypeHijacked then Ret ((101, None, w), t\<lparr>cfp := fp\<rparr>)
             else Ret ((0, Some (ErrUnhandledRecordType rt), w), t\<lparr>cfp := fp\<rparr>))
         else Ret ((0, None, w), t))) (\<lambda>(x, s'). reader_post E s (s'\<lparr>rmu := False\<rparr>))"
    proof (cases err)
      case None
      with a q obtain fd where fd: "fdr t = Some fd" "response_parses fd (cfp t)" by (auto simp: may_read_def)
      then have h: "HasHead (hdr_of (fdr t)) = Ret (h_head (fhdr fd))" by (simp add: response_parses_def hdr_of_def view_read)
      show ?thesis
      proof (cases "h_head (fhdr fd)")
        case True
        with fd(2) have "safe (ReadRecordType (cfp t)) (\<lambda>(rt, q).
          rt = RecordTypeHTTPResponse \<longrightarrow> (\<forall>w. safe (FrameParser_ProxyResponse q w) (\<lambda>_. True)))" by (simp add: response_parses_def)
        then show ?thesis
          using None h True post by (auto elim!: safe_mono split: prod.splits)
      qed (use None h post0 in simp)
    qed (use post0 in simp)
  qed
  then show ?thesis by (rule safe_mono) (auto dest: reader_post_inv)
qed

end

section \<open>Writing requests and responses\<close>

lemma request_headers_returns:
  assumes "\<forall>vv \<in> snd ` set m. vv \<noteq> []"
  shows "\<exists>x. request_headers E m fd cl hc host hh = Ret x"
  using assms
proof (induction m arbitrary: fd cl hc host hh)
  case (Cons e m)
  then obtain k v vv where "e = (k, v # vv)" by (cases e; cases "snd e") auto
  with Cons show ?case by (auto simp: split_def)
qed simp

lemma WriteRequest_returns:
  assumes "open_frame i fd" and "rq_Path r \<noteq> []" and "\<forall>vv \<in> snd ` set (rq_Header r). vv \<noteq> []"
  shows "\<exists>fd' err. FrameData_WriteRequest E fd r = Ret (fd', err) \<and> open_frame i fd'"
proof -
  have "4 \<le> length (fbytes fd)" using assms(1) by (simp add: open_frame_def)
  then obtain fd1 where h: "on_header SetHead fd = Ret fd1" by (simp add: view_write)
  have "\<exists>np. request_route (rq_Path r) = Ret np" using assms(2) by (simp add: request_route_def Let_def)
  then obtain np where "request_route (rq_Path r) = Ret np" ..
  then have "\<exists>q. FrameData_WriteRequest E fd r = Ret q"
    using request_headers_returns [OF assms(3)]
    by (auto simp: FrameData_WriteRequest_def WriteRecordType_def h Let_def bnd_Ret_conv split_def)
  with WriteRequest_open [OF assms(1)] show ?thesis by auto
qed

context conn_muxer
begin

lemma WriteStart_opens:
  assumes "conn_inv E s" and "minv (mux s)"
  shows "safe (WriteStart E s) (\<lambda>(err, t). conn_inv E t \<and> minv (mux t) \<and> (err = None \<longrightarrow> fdw t \<noteq> None))"
proof -
  have "safe (WriteStart E s) (\<lambda>(err, t). user_post E s t True [] \<and> (err = None \<longrightarrow> fdw t \<noteq> None))"
    unfolding WriteStart_def
    by (rule locked_write [OF assms, where ok = "\<lambda>_. True" and bs = "\<lambda>_. []" and R = "\<lambda>err f. err = None \<longrightarrow> f \<noteq> None"])
      (rule safe_mono [OF writeStart_safe], auto)
  then show ?thesis by (rule safe_mono) (auto dest: user_post_minv)
qed

lemma set_fdw_inv:
  assumes "conn_inv E t" and "fdw t = Some fd" and "open_frame (connID t) fd'"
  shows "conn_inv E (t\<lparr>fdw := Some fd'\<rparr>)"
  using assms by (auto simp: conn_inv_def core_fdw)

lemma io_CopyN_safe:
  assumes "conn_inv E s" and "minv (mux s)" and "b \<noteq> None"
  shows "safe (io_CopyN E M b n s) (\<lambda>(err, t). conn_inv E t \<and> minv (mux t))"
  using assms(3) unfolding io_CopyN_def
  by (cases b) (auto intro!: safe_mono [OF Conn_ReadFrom_safe [OF assms(1,2)]] dest: user_post_minv)

lemma Flush_keeps:
  "conn_inv E s \<Longrightarrow> minv (mux s) \<Longrightarrow> safe (Flush E M s) (\<lambda>(err, t). conn_inv E t \<and> minv (mux t))"
  by (rule safe_mono [OF Flush_safe]) (auto dest: user_post_minv)

lemma Conn_WriteRequest_safe:
  assumes "conn_inv E s" and "minv (mux s)" and "rq_Path r \<noteq> []" and "\<forall>vv \<in> snd ` set (rq_Header r). vv \<noteq> []"
    and "sint (rq_ContentLength r) > 0 \<longrightarrow> b \<noteq> None"
  shows "safe (Conn_WriteRequest E M r b s) (\<lambda>(err, t). conn_inv E t \<and> minv (mux t))"
  unfolding Conn_WriteRequest_def
proof (rule safe_bndI [OF WriteStart_opens [OF assms(1,2)]], unfold split_paired_all case_prod_conv)
  fix err :: "goerr option" and t :: "'m sys"
  assume t: "conn_inv E t \<and> minv (mux t) \<and> (err = None \<longrightarrow> fdw t \<noteq> None)"
  let ?Q = "\<lambda>(err :: goerr option, t). conn_inv E t \<and> minv (mux t)"
  show "safe (if err = None then
         bnd (FrameData_WriteRequest E (fdw_val t) r) (\<lambda>(fd, err).
           let s = t\<lparr>fdw := Some fd\<rparr> in
           if err = None then
             bnd (if sint (rq_ContentLength r) > 0
                  then io_CopyN E M b (nat (sint (rq_ContentLength r))) s
                  else bnd (Conn_ReadFrom E M b s) (\<lambda>((_, err), s). Ret (err, s))) (\<lambda>(err, s).
             bnd (Flush E M s) (\<lambda>(flushErr, s). Ret (if err = None then flushErr else err, s)))
           else Ret (err, s))
       else Ret (err, t)) ?Q"
  proof (cases err)
    case None
    with t obtain fd where fd: "fdw t = Some fd" by auto
    then have "open_frame (connID t) fd" using t core_fdwD [OF inv_core] by blast
    from WriteRequest_returns [OF this assms(3,4)] obtain fd' e where
      w: "FrameData_WriteRequest E fd r = Ret (fd', e)" "open_frame (connID t) fd'" by blast
    let ?u = "t\<lparr>fdw := Some fd'\<rparr>"
    have u: "conn_inv E ?u" "minv (mux ?u)" using set_fdw_inv [OF _ fd w(2)] t by simp_all
    have body: "safe (if sint (rq_ContentLength r) > 0 then io_CopyN E M b (nat (sint (rq_ContentLength r))) ?u
        else bnd (Conn_ReadFrom E M b ?u) (\<lambda>((_, err), s). Ret (err, s))) ?Q"
      using io_CopyN_safe [OF u] assms(5)
      by (auto intro!: safe_mono [OF Conn_ReadFrom_safe [OF u]] dest: user_post_minv)
    have "safe (bnd (if sint (rq_ContentLength r) > 0 then io_CopyN E M b (nat (sint (rq_ContentLength r))) ?u
        else bnd (Conn_ReadFrom E M b ?u) (\<lambda>((_, err), s). Ret (err, s))) (\<lambda>(err, s).
             bnd (Flush E M s) (\<lambda>(flushErr, s). Ret (if err = None then flushErr else err, s)))) ?Q"
      by (rule safe_bndI [OF body]) (auto intro!: safe_mono [OF Flush_keeps])
    with None fd w u show ?thesis by (simp add: fdw_val_def Let_def del: safe_bnd_iff)
  qed (use t in simp)
qed

lemma conn_readFrom_safe:
  assumes "conn_core E s" and "minv (mux s)"
  shows "safe (conn_readFrom E M b s) (\<lambda>(x, t). write_post E s t False [])"
proof -
  have step: "write_post E s t False [] \<Longrightarrow> write_post E t u False [] \<Longrightarrow> write_post E s u False []" for t u
    using write_post_trans [of E s t False "[]" u False "[]"] by simp
  have core: "write_post E s t ok [] \<Longrightarrow> conn_core E t \<and> minv (mux t)" for t ok by (simp add: write_post_def)
  have round: "\<forall>r t. write_post E s t False [] \<longrightarrow>
      safe (readFromHelperLocked E M r t) (\<lambda>((n, err, r'), t'). write_post E s t' False [])"
    by (intro allI impI) (rule safe_mono [OF readFromHelperLocked_safe], auto dest: core intro: step)
  have "safe g (\<lambda>(x, t). write_post E s t False [])" if "readFrom_loop (readFromHelperLocked E M) b 0 s = Some g" for g
    using readFrom_loop_keeps [OF that, where P = "\<lambda>t. write_post E s t False []"] round write_post_refl [OF assms] by simp
  then show ?thesis unfolding conn_readFrom_def by (rule run_loop_safe)
qed

end
context conn_muxer
begin

lemma Conn_WriteResponse_safe:
  assumes "conn_inv E s" and "minv (mux s)"
  shows "safe (Conn_WriteResponse E M code cl hdr b s) (\<lambda>(err, t). conn_inv E t \<and> minv (mux t))"
proof -
  let ?s = "s\<lparr>wmu := True\<rparr>"
  have s: "conn_core E ?s" "minv (mux ?s)" "\<not> wmu s" using assms by (simp_all add: conn_inv_def)
  let ?P = "\<lambda>(x, t). write_post E ?s t False []"
  have core: "write_post E ?s t ok [] \<Longrightarrow> conn_core E t \<and> minv (mux t) \<and> wmu t" for t ok
    by (simp add: write_post_def write_changes_def)
  have step: "write_post E ?s t False [] \<Longrightarrow> write_post E t u ok bs \<Longrightarrow> write_post E ?s u False []" for t u ok bs
    using write_post_trans [of E ?s t False "[]" u ok bs] by (auto intro: write_post_weaken)
  have body: "safe (case b of None \<Rightarrow> Ret (None, t)
      | Some b \<Rightarrow> if sint cl > 0 then io_CopyN E M (Some b) (nat (sint cl)) t
                  else bnd (conn_readFrom E M b t) (\<lambda>((_, err), s). Ret (err, s))) ?P"
    if t: "write_post E ?s t False []" for t
  proof (cases b)
    case (Some r)
    have "io_CopyN E M (Some r) n t = Blocks" for n
      using core [OF t] by (simp add: io_CopyN_def Conn_ReadFrom_def run_loop_def readFrom_loop.simps readFromHelper_def lock_wmu_def)
    with Some t core [OF t] show ?thesis by (auto intro!: safe_mono [OF conn_readFrom_safe] intro: step)
  qed (use t in simp)
  have flush: "safe (bnd (flushLocked E M t) (\<lambda>(flushErr, s). Ret (if err = None then flushErr else err, s))) ?P"
    if t: "write_post E ?s t False []" for t and err :: "goerr option"
    using core [OF t] by (auto intro!: safe_mono [OF flushLocked_safe] intro: step [OF t])
  have "safe (writeResponseDataLocked E code cl hdr ?s) (\<lambda>(err, s'). write_post E ?s s' False [])"
    using writeResponseDataLocked_safe [OF s(1,2)] by simp
  then have "safe (bnd (writeResponseDataLocked E code cl hdr ?s) (\<lambda>(err, s).
       if err = None then
         bnd (case b of None \<Rightarrow> Ret (None, s)
              | Some b \<Rightarrow> if sint cl > 0 then io_CopyN E M (Some b) (nat (sint cl)) s
                          else bnd (conn_readFrom E M b s) (\<lambda>((_, err), s). Ret (err, s))) (\<lambda>(err, s).
         bnd (flushLocked E M s) (\<lambda>(flushErr, s). Ret (if err = None then flushErr else err, s)))
       else Ret (err, s))) ?P"
    by (rule safe_bndI) (auto simp del: safe_bnd_iff split: if_split intro!: safe_bndI [OF body] flush)
  then have "safe (Conn_WriteResponse E M code cl hdr b s) (\<lambda>(err, t). user_post E s t False [])"
    unfolding Conn_WriteResponse_def
    by (intro lock_wmu_safe [OF s(3)]) (erule safe_mono, auto intro: unlock_w [OF assms(1)])
  then show ?thesis by (rule safe_mono) (auto dest: user_post_minv)
qed

end

section \<open>Serving\<close>

context conn_muxer
begin

lemma hijacking_served: "served minv sent E s \<Longrightarrow> served minv sent E (snd (hijacking s))"
  by (simp add: hijacking_def)

lemma serve_record_safe:
  assumes h: "\<And>req t. served minv sent E t \<Longrightarrow> safe (h req t) (served minv sent E)" and s: "served minv sent E s"
    and fd: "fdr s = Some fd" "request_parses auth fd (cfp s)"
  shows "safe (serve_record E M auth h s) (\<lambda>(err, s'). served minv sent E s')"
proof -
  let ?done = "\<lambda>(err :: goerr option, s'). served minv sent E s'"
  have head: "HasHead (hdr_of (fdr s)) = Ret (h_head (fhdr fd))" using fd by (simp add: request_parses_def hdr_of_def view_read)
  have fl: "safe (Flush E M t) ?done" if "served minv sent E t" for t
    using that by (intro safe_mono [OF Flush_safe]) (auto simp: served_iff [symmetric] intro: user_post_served, auto simp: served_iff)
  have run: "safe (bnd (h req (s\<lparr>cfp := p\<rparr>)) (Flush E M)) ?done" for req p
    by (rule safe_bndI [OF h fl]) (use s in simp_all)
  show ?thesis
  proof (cases "h_head (fhdr fd)")
    case False
    with s show ?thesis by (simp add: serve_record_def head)
  next
    case True
    with fd(2) have p: "safe (ReadRecordType (cfp s)) (\<lambda>(rt, q). rt = RecordTypeHTTPRequest \<longrightarrow> safe (ReadRequest auth q) (\<lambda>_. True))"
      by (simp add: request_parses_def)
    have req: "safe (bnd (ReadRequest auth q) (\<lambda>(res, q). let s = s\<lparr>cfp := q\<rparr> in case res of Inl err \<Rightarrow> Ret (Some err, s)
        | Inr req \<Rightarrow> bnd (h req s) (\<lambda>s. Flush E M s))) ?done" if "safe (ReadRequest auth q) (\<lambda>_. True)" for q
      by (rule safe_bndI [OF that]) (use run s in \<open>auto simp: Let_def simp del: safe_bnd_iff split: sum.splits\<close>)
    show ?thesis
      unfolding serve_record_def head bnd.simps if_P [OF True]
      by (rule safe_bndI [OF p]) (use req s in \<open>auto simp: hijacking_served simp del: safe_bnd_iff\<close>)
  qed
qed

lemma Serve_safe:
  assumes h: "\<And>req t. served minv sent E t \<Longrightarrow> safe (h req t) (served minv sent E)" and s: "served minv sent E s"
    and p: "may_read (request_parses auth) s"
  shows "safe (Serve E M auth h s) (\<lambda>(err, s'). conn_inv E s')"
proof -
  let ?s = "s\<lparr>rmu := True\<rparr>"
  have i: "conn_inv E s" "minv (mux s)" using s by (simp_all add: served_iff)
  then have c: "conn_core E ?s" "minv (mux ?s)" "\<not> rmu s" by (simp_all add: conn_inv_def)
  have load: "safe (LoadFrameReader E M s) (\<lambda>(err, t). served minv sent E t \<and> (err = None \<longrightarrow> cfp t \<noteq> [] \<and> may_read (request_parses auth) t))"
    unfolding LoadFrameReader_def
  proof (rule lock_rmu_safe [OF c(3)], rule safe_mono [OF loadFrameReader_safe [OF c(1,2)]], unfold split_paired_all case_prod_conv)
    fix err :: "goerr option" and t :: "'m sys"
    assume r: "loadFrameReader E M ?s = Ret (err, t)"
      and a: "read_post E ?s t \<and> unread t = unread ?s \<and> (err = None \<longleftrightarrow> cfp t \<noteq> [])
        \<and> (err = Some ErrEOF \<longrightarrow> unread ?s = [] \<and> remoteSentFinal ?s)"
    have "may_read (request_parses auth) t" by (rule loadFrameReader_may_read [OF r]) (use p in \<open>simp add: may_read_def\<close>)
    then show "served minv sent E (t\<lparr>rmu := False\<rparr>)
      \<and> (err = None \<longrightarrow> cfp (t\<lparr>rmu := False\<rparr>) \<noteq> [] \<and> may_read (request_parses auth) (t\<lparr>rmu := False\<rparr>))"
      using unlock_r [OF i(1), of t] a reader_post_served [OF _ s] by (simp add: may_read_def)
  qed
  have rec: "safe (if err = None then serve_record E M auth h t else Ret (err, t)) (\<lambda>(err, s'). served minv sent E s')"
    if t: "served minv sent E t \<and> (err = None \<longrightarrow> cfp t \<noteq> [] \<and> may_read (request_parses auth) t)" for err t
  proof (cases err)
    case None
    with t obtain fd where "fdr t = Some fd" "request_parses auth fd (cfp t)" by (auto simp: may_read_def)
    with t None serve_record_safe [where s = t and fd = fd and auth = auth, OF h] show ?thesis by simp
  qed (use t in simp)
  have body: "safe (bnd (LoadFrameReader E M s) (\<lambda>(err, s). if err = None then serve_record E M auth h s else Ret (err, s)))
      (\<lambda>(err, s'). served minv sent E s')"
    by (rule safe_bndI [OF load]) (use rec in auto)
  have fin: "safe (bnd (closeIfNotHijacked E M t) (\<lambda>(_, s). Ret (err, s))) (\<lambda>(err, s'). conn_inv E s')"
    if "served minv sent E t" for t and err :: "goerr option"
    using Close_safe [of E t] that by (auto simp: closeIfNotHijacked_def served_iff elim!: safe_mono)
  show ?thesis
    unfolding Serve_def by (rule safe_bndI [OF body]) (use fin in \<open>auto simp del: safe_bnd_iff\<close>)
qed

end

section \<open>Every method\<close>

context conn_muxer
begin

lemma run_method_safe:
  assumes "conn_inv E s" and "minv (mux s)" and "recycle_ok s" and "method_ok minv sent E c s"
  shows "safe (run_method E M c s) (conn_inv E)"
proof (cases c)
  case (Plain x)
  then show ?thesis using run_call_safe [OF assms(1-3)] by simp
next
  case (CallSubmitFrame fdo)
  with assms(4) obtain fd where fd: "fdo = Some fd" "may_submit E fd s" by auto
  from SubmitFrame_safe [OF assms(1) fd(2) assms(2,3)] show ?thesis using CallSubmitFrame fd(1) by (auto elim: safe_mono)
next
  case (CallOnRecycle f)
  with assms(1) show ?thesis by (simp add: OnRecycle_def lock_cmu_def conn_inv_def conn_core_def)
next
  case (CallWriteTo wr w)
  with Conn_WriteTo_safe [OF assms(1,2), of wr w] assms(4) show ?thesis by (auto elim: safe_mono)
next
  case (CallWriteRequest r b)
  with Conn_WriteRequest_safe [OF assms(1,2), of r b] assms(4) show ?thesis by (auto elim: safe_mono)
next
  case (CallProxyResponse w)
  with Conn_ProxyResponse_safe [OF assms(1,2), of w] assms(4) show ?thesis by (auto elim: safe_mono)
next
  case (CallWriteResponse code cl hdr b)
  with Conn_WriteResponse_safe [OF assms(1,2), of code cl hdr b] show ?thesis by (auto elim: safe_mono)
next
  case (CallServe auth h)
  have "served minv sent E s" using assms(1-3) by (simp add: served_iff)
  with CallServe Serve_safe [of E h s auth] assms(4) show ?thesis by (auto elim: safe_mono)
qed

end

text \<open>
  C1. No method of a Conn panics or breaks its invariant when it is called as its callers may call it.
  With a muxer that meets the contract \<open>conn_muxer\<close> and a recycle callback that does not panic, every
  method, and the callback of each timer, either waits or returns with the invariant intact: the window
  between 0 and \<^verbatim>\<open>SendWindowSize\<close>, the read channel closed exactly when the peer's final frame has
  come, the frame being written well formed and gone once the Conn is closed, all mutexes free. Reads,
  writes, flushes, deadlines, hijacking and closing need nothing more, whatever their arguments; the
  others need what \<open>method_ok\<close> says: \<^verbatim>\<open>SubmitFrame\<close> a frame within the protocol, \<^verbatim>\<open>WriteTo\<close> a writer that
  counts right, \<^verbatim>\<open>WriteRequest\<close> a path, values for the headers and a body if a length is announced,
  \<^verbatim>\<open>ProxyResponse\<close> and \<^verbatim>\<open>Serve\<close> records that parse, and \<^verbatim>\<open>Serve\<close> a handler that does not panic.
  This holds for every choice \<^verbatim>\<open>select\<close> makes.
\<close>

theorem conn_calls_safe:
  assumes "conn_muxer M minv sent" and "conn_inv E s" and "minv (mux s)"
    and "conn_muxer.recycle_ok minv sent s" and "method_ok minv sent E c s"
  shows "run_method E M c s = Blocks \<or> (\<exists>s'. run_method E M c s = Ret s' \<and> conn_inv E s')"
  by (rule safe_cases [OF conn_muxer.run_method_safe [OF assms]]) auto

lemma req_frame_parses: "request_parses (\<lambda>_. None) req_frame (drop 4 (fbytes req_frame))"
proof -
  have p: "plain_path ''/a/b''" "string_ok ''/a/b''"
    by (simp_all add: plain_path_def has_prefix_def path_char_def unreserved_def is_digit_def is_lower_def is_upper_def string_ok_def)
  note v = record_frame_view [OF req_frame_ok(1)]
  show ?thesis
    using v ReadRequest_enc [OF example_request_ok p(2) url_Parse_plain [OF p(1)], of "\<lambda>_. None" "[]"] req_frame_ok(2)
    by (simp add: request_parses_def in_frame_def)
qed

lemma Serve_returns:
  "\<exists>r. Serve rap_default wire_mux (\<lambda>_. None) (\<lambda>req t. Ret t) ((wire_conn rap_default 7 id)\<lparr>readCh := [req_frame]\<rparr>) = Ret r"
proof -
  let ?s = "(wire_conn rap_default 7 id)\<lparr>readCh := [req_frame]\<rparr>" and ?h = "\<lambda>req t. Ret t"
  have inv: "conn_inv rap_default ?s" using default_conn_inv [of id] req_frame_ok(2) by (simp add: conn_inv_def conn_core_def)
  have p: "plain_path ''/a/b''" "string_ok ''/a/b''"
    by (simp_all add: plain_path_def has_prefix_def path_char_def unreserved_def is_digit_def is_lower_def is_upper_def string_ok_def)
  obtain s1 where s1: "conn_inv rap_default s1" "read_changes ?s s1" "Serve rap_default wire_mux (\<lambda>_. None) ?h ?s =
      bnd (Flush rap_default wire_mux s1) (\<lambda>(err, s2). bnd (closeIfNotHijacked rap_default wire_mux s2) (\<lambda>(_, s3). Ret (err, s3)))"
    using Serve_takes_request [OF wire_accepting inv _ _ _ _ _ req_frame_ok(1) example_request_ok p(2) url_Parse_plain [OF p(1)],
        where auth = "\<lambda>_. None" and h = ?h]
    by (auto simp: makeConnDeadline_def)
  have c: "fdw s1 = None" "\<not> hijacked s1" "onRecycle s1 = None" "\<not> wmu s1" using s1(2) by (simp_all add: read_changes_def)
  then have "Flush rap_default wire_mux s1 = Ret (None, s1)" by (simp add: Flush_def lock_wmu_def flushLocked_def)
  moreover obtain x where "Close rap_default wire_mux s1 = Ret x" using wire.Close_returns [OF s1(1) TrueI c(3)] by blast
  ultimately show ?thesis using s1(3) c(2) by (simp add: closeIfNotHijacked_def split_def)
qed

theorem conn_calls_safe_witness:
  "(\<exists>s'. run_method rap_default wire_mux (Plain (CallWrite [1, 2]) :: (_, unit) conn_method) (wire_conn rap_default 7 id) = Ret s'
     \<and> conn_inv rap_default s')
   \<and> (\<exists>s'. run_method rap_default wire_mux (CallServe (\<lambda>_. None) (\<lambda>req t. Ret t) :: (_, unit) conn_method)
        ((wire_conn rap_default 7 id)\<lparr>readCh := [req_frame]\<rparr>) = Ret s' \<and> conn_inv rap_default s')"
proof -
  let ?s = "wire_conn rap_default 7 id" and ?w = "Plain (CallWrite [1, 2]) :: (FrameData list, unit) conn_method"
  let ?v = "CallServe (\<lambda>_. None) (\<lambda>req t. Ret t) :: (FrameData list, unit) conn_method"
  let ?t = "?s\<lparr>readCh := [req_frame]\<rparr>"
  have inv: "conn_inv rap_default ?t" using default_conn_inv [of id] req_frame_ok(2) by (simp add: conn_inv_def conn_core_def)
  have "run_method rap_default wire_mux ?w ?s \<noteq> Blocks"
    using wire.Conn_Write_returns [OF default_conn_inv [of id], of "[1, 2]"]
    by (auto simp: wire.writable_def makeConnDeadline_def credit_def frame_sizes)
  moreover have "run_method rap_default wire_mux ?v ?t \<noteq> Blocks" using Serve_returns by auto
  moreover have "method_ok (\<lambda>_. True) (\<lambda>m. m) rap_default ?v ?t" using req_frame_parses by (simp add: may_read_def)
  ultimately show ?thesis
    using conn_calls_safe [OF wire_contract default_conn_inv [of id], where c = ?w] conn_calls_safe [OF wire_contract inv, where c = ?v]
    by (auto simp: wire_recycle_ok simp del: run_method.simps)
qed

end
