(* ===== verification/Conn_Link.thy ===== *)
theory Conn_Link
  imports Conn_Http
begin

text \<open>
  Two Conns with the same ID, one at each end of a connection, and the frames travelling between
  them in order: the protocol of windows, acknowledgements and final frames as a whole. The states
  reachable by any interleaving of the calls allowed below and of deliveries satisfy an invariant from which it follows
  that no delivery ever panics, that each reader sees a prefix of what the other end sent, and that
  a Conn is recycled only when nothing is on its way to it.
\<close>

section \<open>The link\<close>

text \<open>
  The two ends are \<^const>\<open>True\<close> and \<^const>\<open>False\<close>. The muxer state of an end is the log of the frames
  it has sent; \<open>dl x\<close> of those of end \<open>x\<close> have been delivered. \<open>over x\<close>: the Conn at \<open>x\<close> has been
  recycled, which ends its part of the session; \<open>got x\<close> is what its reader has been given.
\<close>

record link =
  ep :: "bool \<Rightarrow> FrameData list sys"
  dl :: "bool \<Rightarrow> nat"
  over :: "bool \<Rightarrow> bool"
  got :: "bool \<Rightarrow> byte list"

datatype link_event = LCall bool conn_call | LRead bool nat | LClose bool | LDeliver bool

definition link_init :: "rap_config \<Rightarrow> ConnID \<Rightarrow> (bool \<Rightarrow> nat \<Rightarrow> nat) \<Rightarrow> link" where
  "link_init E i orc =
     \<lparr>ep = (\<lambda>x. wire_conn E i (orc x)), dl = (\<lambda>_. 0), over = (\<lambda>_. False), got = (\<lambda>_. [])\<rparr>"

fun link_run :: "rap_config \<Rightarrow> link_event \<Rightarrow> link \<Rightarrow> link go" where
  "link_run E (LCall x c) l =
     bnd (run_call E wire_mux c (ep l x)) (\<lambda>s. Ret (l\<lparr>ep := (ep l)(x := s)\<rparr>))"
| "link_run E (LRead x n) l =
     bnd (Conn_Read E wire_mux n (ep l x)) (\<lambda>((bs, err), s).
       Ret (l\<lparr>ep := (ep l)(x := s), got := (got l)(x := got l x @ bs)\<rparr>))"
| "link_run E (LClose x) l =
     bnd (Close E wire_mux (ep l x)) (\<lambda>(err, s).
       Ret (l\<lparr>ep := (ep l)(x := s),
              over := (over l)(x := \<not> localClosed (ep l x) \<and> remoteSentFinal (ep l x))\<rparr>))"
| "link_run E (LDeliver x) l =
     (if dl l x < length (mux (ep l x)) then
        let fd = mux (ep l x) ! dl l x; s = ep l (\<not> x) in
        bnd (SubmitFrame E (Some fd) s) (\<lambda>s'.
          Ret (l\<lparr>ep := (ep l)((\<not> x) := s'), dl := (dl l)(x := Suc (dl l x)),
                 over := (over l)((\<not> x) := over l (\<not> x) \<or> is_final fd \<and> localSentFinal s)\<rparr>))
      else Blocks)"

text \<open>
  What the users of the two ends do, in any order: any call of the write side and on deadlines, closing,
  and reading, but not a frame from the queue once the own end is closed (\<open>may_take\<close>): \<^verbatim>\<open>readFrame\<close> may
  then still pick the queue in its \<^verbatim>\<open>select\<close> and acknowledge the frame after the final frame has been sent,
  with the result shown at the end of this theory. The frames sent are delivered one by one.
\<close>

fun write_side :: "conn_call \<Rightarrow> bool" where
  "write_side (CallWrite p) = True"
| "write_side (CallWriteByte c) = True"
| "write_side CallWriteStart = True"
| "write_side CallFlush = True"
| "write_side (CallReadFrom r) = True"
| "write_side (CallWriteUserRecordType c) = True"
| "write_side (CallWriteResponseData code cl h) = True"
| "write_side CallHijack = True"
| "write_side (CallSetDeadline t) = True"
| "write_side (CallSetReadDeadline t) = True"
| "write_side (CallSetWriteDeadline t) = True"
| "write_side CallReadTimer = True"
| "write_side CallWriteTimer = True"
| "write_side _ = False"

definition may_take :: "FrameData list sys \<Rightarrow> bool" where
  "may_take s \<longleftrightarrow> (localClosed s \<longrightarrow> readCh s = [])"

fun allowed :: "link_event \<Rightarrow> link \<Rightarrow> bool" where
  "allowed (LCall x c) l \<longleftrightarrow> \<not> over l x \<and> (write_side c \<or> c = CallLoadFrameReader \<and> may_take (ep l x))"
| "allowed (LRead x n) l \<longleftrightarrow> \<not> over l x \<and> may_take (ep l x)"
| "allowed (LClose x) l \<longleftrightarrow> \<not> over l x"
| "allowed (LDeliver x) l \<longleftrightarrow> True"

inductive link_reach :: "rap_config \<Rightarrow> ConnID \<Rightarrow> link \<Rightarrow> bool" for E i where
  start: "link_reach E i (link_init E i orc)"
| step: "link_reach E i l \<Longrightarrow> allowed ev l \<Longrightarrow> link_run E ev l = Ret l' \<Longrightarrow> link_reach E i l'"

section \<open>The invariant\<close>

definition nd :: "FrameData list \<Rightarrow> nat" where "nd fs = length (filter is_data fs)"
definition na :: "FrameData list \<Rightarrow> nat" where "na fs = length (filter is_ack fs)"

text \<open>
  The direction from \<open>x\<close> to its peer: the log of frames, what the window of \<open>x\<close> and the queue of
  the peer say about it, and that a final frame is the last one.
\<close>

definition dir ::
  "rap_config \<Rightarrow> ConnID \<Rightarrow> FrameData list sys \<Rightarrow> FrameData list sys \<Rightarrow> nat \<Rightarrow> nat \<Rightarrow> bool \<Rightarrow> bool \<Rightarrow> byte list \<Rightarrow> bool" where
  "dir E i s t d e over_s over_t g \<longleftrightarrow>
     d \<le> length (mux s) \<and> list_all (wire_frame i) (mux s)
     \<and> (\<not> over_s \<longrightarrow> conn_inv E s \<and> connID s = i \<and> onRecycle s = None
          \<and> credit s + int (nd (mux s)) = SendWindowSize E + int (na (take e (mux t)))
          \<and> ((\<exists>fd \<in> set (mux s). is_final fd) \<longrightarrow> localClosed s))
     \<and> int (nd (mux s)) \<le> SendWindowSize E + int (na (take e (mux t)))
     \<and> (\<not> over_t \<longrightarrow> length (readCh t) + na (mux t) = nd (take d (mux s))
          \<and> (remoteSentFinal t \<longleftrightarrow> (\<exists>fd \<in> set (take d (mux s)). is_final fd))
          \<and> payloads (filter is_data (take d (mux s))) = g @ unread t)
     \<and> na (mux t) \<le> nd (take d (mux s))
     \<and> (\<forall>j < length (mux s). is_final (mux s ! j) \<longrightarrow> Suc j = length (mux s))
     \<and> (over_t \<longrightarrow> (\<exists>fd \<in> set (take d (mux s)). is_final fd)
          \<and> (\<exists>rest. payloads (filter is_data (mux s)) = g @ rest))"

definition dir_inv :: "rap_config \<Rightarrow> ConnID \<Rightarrow> link \<Rightarrow> bool \<Rightarrow> bool" where
  "dir_inv E i l x \<longleftrightarrow> dir E i (ep l x) (ep l (\<not> x)) (dl l x) (dl l (\<not> x)) (over l x) (over l (\<not> x)) (got l (\<not> x))"

definition link_inv :: "rap_config \<Rightarrow> ConnID \<Rightarrow> link \<Rightarrow> bool" where
  "link_inv E i l \<longleftrightarrow> (\<forall>x. dir_inv E i l x)"

lemma nd_simps [simp]:
  "nd [] = 0" "nd (fs @ gs) = nd fs + nd gs" "na [] = 0" "na (fs @ gs) = na fs + na gs"
  "nd [fd] = (if is_data fd then 1 else 0)" "na [fd] = (if is_ack fd then 1 else 0)"
  by (simp_all add: nd_def na_def)

lemma nd_take_le: "nd (take d L) \<le> nd L" and na_take_le: "na (take d L) \<le> na L"
proof -
  have "nd (take d L @ drop d L) = nd L" "na (take d L @ drop d L) = na L" by simp_all
  then show "nd (take d L) \<le> nd L" "na (take d L) \<le> na L" by (simp_all only: nd_simps)
qed

lemma all_data:
  "list_all (\<lambda>fd. wire_frame i fd \<and> is_data fd) fs \<Longrightarrow>
     nd fs = length fs \<and> na fs = 0 \<and> (\<forall>fd \<in> set fs. \<not> is_final fd) \<and> list_all (wire_frame i) fs"
  by (induction fs) (auto simp: nd_def na_def frame_kinds_disjoint)

lemma all_acks:
  "list_all (\<lambda>fd. wire_frame i fd \<and> is_ack fd) fs \<Longrightarrow>
     na fs = length fs \<and> nd fs = 0 \<and> (\<forall>fd \<in> set fs. \<not> is_final fd) \<and> list_all (wire_frame i) fs
     \<and> filter is_data fs = []"
  by (induction fs) (auto simp: nd_def na_def dest: frame_kinds_disjoint)

lemma link_init_inv:
  assumes "sanitycheck E" and "i \<le> MaxConnID E"
  shows "link_inv E i (link_init E i orc)"
  using wire_conn_inv [OF assms] sanity_window [OF assms(1)]
  by (simp add: link_inv_def dir_inv_def dir_def link_init_def credit_def unread_def)

section \<open>Calls on the wire\<close>

text \<open>What a call of the write side does, seen from the link.\<close>

definition wrote :: "rap_config \<Rightarrow> FrameData list sys \<Rightarrow> FrameData list sys \<Rightarrow> bool" where
  "wrote E s s' \<longleftrightarrow> conn_inv E s' \<and> connID s' = connID s \<and> onRecycle s' = onRecycle s \<and> readCh s' = readCh s
     \<and> unread s' = unread s \<and> localClosed s' = localClosed s \<and> remoteSentFinal s' = remoteSentFinal s
     \<and> (\<exists>fs. wire.data_sent s s' fs)"

lemma user_post_wrote:
  assumes "wire.user_post E s s' ok bs"
  shows "wrote E s s'"
proof -
  from assms have c: "conn_inv E s'" "write_changes s s'" and d: "\<exists>fs. wire.data_sent s s' fs"
    unfolding wire.user_post_def wire.write_post_def by blast+
  from c d show ?thesis by (simp add: wrote_def write_changes_def unread_def)
qed

lemma deadline_wrote:
  assumes "conn_inv E s"
  shows "wrote E s (snd (SetDeadline t s))" "wrote E s (snd (SetReadDeadline t s))" "wrote E s (snd (SetWriteDeadline t s))"
    and "deadline_ok d \<Longrightarrow> wrote E s (s\<lparr>readDeadline := d\<rparr>)" "deadline_ok d \<Longrightarrow> wrote E s (s\<lparr>writeDeadline := d\<rparr>)"
  using SetDeadlines_inv [OF assms, of t] assms
  by (auto simp: wrote_def SetDeadline_def SetReadDeadline_def SetWriteDeadline_def unread_def wire.data_sent_def
      credit_def conn_inv_def conn_core_def intro!: exI [of _ "[]"])

lemma write_side_wrote:
  assumes "conn_inv E s" and "write_side c"
  shows "safe (run_call E wire_mux c s) (wrote E s)"
proof (cases c)
  case (CallWrite p)
  then show ?thesis using wire.Conn_Write_safe [OF assms(1), of p] by (auto elim!: safe_mono intro: user_post_wrote)
next
  case (CallWriteByte b)
  then show ?thesis using wire.Conn_WriteByte_safe [OF assms(1), of b] by (auto elim!: safe_mono intro: user_post_wrote)
next
  case CallWriteStart
  then show ?thesis using wire.WriteStart_safe [OF assms(1)] by (auto elim!: safe_mono intro: user_post_wrote)
next
  case CallFlush
  then show ?thesis using wire.Flush_safe [OF assms(1)] by (auto elim!: safe_mono intro: user_post_wrote)
next
  case (CallReadFrom r)
  then show ?thesis using wire.Conn_ReadFrom_safe [OF assms(1), of r] by (auto elim!: safe_mono intro: user_post_wrote)
next
  case (CallWriteUserRecordType b)
  then show ?thesis using wire.WriteUserRecordType_safe [OF assms(1), of b] by (auto elim!: safe_mono intro: user_post_wrote)
next
  case (CallWriteResponseData code cl h)
  then show ?thesis
    using wire.WriteResponseData_safe [OF assms(1), of code cl h] by (auto elim!: safe_mono intro: user_post_wrote)
next
  case CallHijack
  then show ?thesis using wire.Hijack_safe [OF assms(1)] by (auto elim!: safe_mono simp: wrote_def same_place_def)
next
  case CallReadTimer
  have "deadline_ok (readDeadline s)" using assms(1) by (simp add: conn_inv_def conn_core_def)
  then show ?thesis using CallReadTimer deadline_wrote(4) [OF assms(1)] by (auto intro: safe_mono [OF deadline_fire_ok])
next
  case CallWriteTimer
  have "deadline_ok (writeDeadline s)" using assms(1) by (simp add: conn_inv_def conn_core_def)
  then show ?thesis using CallWriteTimer deadline_wrote(5) [OF assms(1)] by (auto intro: safe_mono [OF deadline_fire_ok])
qed (use assms(2) deadline_wrote(1-3) [OF assms(1)] in simp_all)

section \<open>Steps of one end\<close>

text \<open>
  A step of an end that is not recycled: it has sent \<open>fs\<close> and its reader has been given \<open>bs\<close>. One
  definition for calls of the write side, reads and the first half of the close handshake.
\<close>

definition moved :: "rap_config \<Rightarrow> FrameData list sys \<Rightarrow> FrameData list \<Rightarrow> byte list \<Rightarrow> FrameData list sys \<Rightarrow> bool" where
  "moved E s fs bs s' \<longleftrightarrow>
     mux s' = mux s @ fs \<and> list_all (wire_frame (connID s)) fs
     \<and> conn_inv E s' \<and> connID s' = connID s \<and> onRecycle s' = onRecycle s
     \<and> credit s' + int (nd fs) = credit s
     \<and> (fs \<noteq> [] \<longrightarrow> \<not> localClosed s) \<and> (localClosed s \<longrightarrow> localClosed s')
     \<and> (\<forall>fd \<in> set fs. is_final fd \<longrightarrow> fs = [fd] \<and> localClosed s')
     \<and> length (readCh s') + na fs = length (readCh s) \<and> remoteSentFinal s' = remoteSentFinal s
     \<and> unread s = bs @ unread s'"

lemma moved_sender:
  assumes "dir E i s t d e False over_t g" and "moved E s fs bs s'"
  shows "dir E i s' t d e False over_t g"
proof -
  from assms(1) have d: "d \<le> length (mux s)" by (simp add: dir_def)
  from assms have fin: "\<not> (\<exists>fd \<in> set (mux s). is_final fd)" if "fs \<noteq> []" using that by (auto simp: dir_def moved_def)
  have last: "\<forall>j < length (mux s'). is_final (mux s' ! j) \<longrightarrow> Suc j = length (mux s')"
  proof (cases "fs = []")
    case True
    then show ?thesis using assms by (simp add: dir_def moved_def)
  next
    case False
    show ?thesis
    proof (intro allI impI)
      fix j assume j: "j < length (mux s')" "is_final (mux s' ! j)"
      have m: "mux s' = mux s @ fs" using assms(2) by (simp add: moved_def)
      have "\<not> j < length (mux s)"
      proof
        assume "j < length (mux s)"
        with j(2) m have "is_final (mux s ! j)" by (simp add: nth_append)
        with \<open>j < length (mux s)\<close> fin [OF False] show False using nth_mem by blast
      qed
      with j m have "fs ! (j - length (mux s)) \<in> set fs" "is_final (fs ! (j - length (mux s)))"
        by (auto simp: nth_append)
      moreover have "\<forall>fd \<in> set fs. is_final fd \<longrightarrow> fs = [fd]" using assms(2) by (simp add: moved_def)
      ultimately have "fs = [fs ! (j - length (mux s))]" by blast
      then have "length fs = 1" by (metis One_nat_def length_Cons list.size(3))
      with j(1) m \<open>\<not> j < length (mux s)\<close> show "Suc j = length (mux s')" by simp
    qed
  qed
  show ?thesis
    unfolding dir_def
  proof (intro conjI)
    show "\<forall>j < length (mux s'). is_final (mux s' ! j) \<longrightarrow> Suc j = length (mux s')" by (fact last)
    show "int (nd (mux s')) \<le> SendWindowSize E + int (na (take e (mux t)))"
    proof -
      have "0 \<le> credit s'" using assms(2) by (simp add: moved_def conn_inv_def conn_core_def credit_def)
      with assms show ?thesis by (simp add: dir_def moved_def)
    qed
    show "\<not> False \<longrightarrow> conn_inv E s' \<and> connID s' = i \<and> onRecycle s' = None
      \<and> credit s' + int (nd (mux s')) = SendWindowSize E + int (na (take e (mux t)))
      \<and> ((\<exists>fd \<in> set (mux s'). is_final fd) \<longrightarrow> localClosed s')"
      using assms by (auto simp: dir_def moved_def)
    show "over_t \<longrightarrow> (\<exists>fd \<in> set (take d (mux s')). is_final fd)
      \<and> (\<exists>rest. payloads (filter is_data (mux s')) = g @ rest)"
      using assms d by (auto simp: dir_def moved_def)
  qed (use assms d in \<open>simp_all add: dir_def moved_def\<close>)
qed

lemma moved_receiver:
  assumes "dir E i s t d e over_s False g" and "moved E t fs bs t'" and "e \<le> length (mux t)"
  shows "dir E i s t' d e over_s False (g @ bs)"
  using assms by (auto simp: dir_def moved_def)

text \<open>An end that recycles itself, having seen the final frame of its peer.\<close>

lemma over_sender:
  assumes "dir E i s t d e False over_t g" and "mux s' = mux s @ fs" and "\<not> localClosed s"
    and "fs = [] \<or> (\<exists>fd. fs = [fd] \<and> is_final fd \<and> wire_frame i fd)"
  shows "dir E i s' t d e True over_t g"
proof -
  from assms have d: "d \<le> length (mux s)" and fin: "\<not> (\<exists>fd \<in> set (mux s). is_final fd)" by (auto simp: dir_def)
  have nd: "nd fs = 0" "filter is_data fs = []" "list_all (wire_frame i) fs"
    using assms(4) frame_kinds_disjoint by (auto simp: nd_def)
  have last: "\<forall>j < length (mux s'). is_final (mux s' ! j) \<longrightarrow> Suc j = length (mux s')"
    using assms(2,4) fin by (auto simp: nth_append less_Suc_eq)
  show ?thesis unfolding dir_def using assms(1,2) d nd last by (simp add: dir_def)
qed

lemma over_receiver:
  assumes "dir E i s t d e over_s False g" and "mux t' = mux t @ fs" and "e \<le> length (mux t)"
    and "na fs = 0" and "\<exists>fd \<in> set (take d (mux s)). is_final fd"
  shows "dir E i s t' d e over_s True g"
proof -
  have "\<exists>rest. payloads (filter is_data (mux s)) = g @ rest"
  proof -
    have "payloads (filter is_data (take d (mux s) @ drop d (mux s))) = (g @ unread t) @ payloads (filter is_data (drop d (mux s)))"
      using assms(1) by (simp only: filter_append payloads_simps) (simp add: dir_def)
    then show ?thesis by simp
  qed
  with assms show ?thesis by (simp add: dir_def)
qed

section \<open>Delivery\<close>

lemma take_Suc_nth: "d < length L \<Longrightarrow> take (Suc d) L = take d L @ [L ! d]"
  by (rule take_Suc_conv_app_nth)

lemma undelivered_before_final:
  assumes "dir E i s t d e over_s over_t g" and "d < length (mux s)"
  shows "\<not> (\<exists>fd \<in> set (take d (mux s)). is_final fd)"
proof
  assume "\<exists>fd \<in> set (take d (mux s)). is_final fd"
  then obtain j where "j < d" "is_final (mux s ! j)" using assms(2) by (auto simp: in_set_conv_nth)
  moreover have "\<forall>j < length (mux s). is_final (mux s ! j) \<longrightarrow> Suc j = length (mux s)" using assms(1) by (simp add: dir_def)
  ultimately have "Suc j = length (mux s)" using assms(2) by auto
  with \<open>j < d\<close> assms(2) show False by simp
qed

lemma deliver_ok:
  assumes st: "dir E i s t d e over_s False g" and ts: "dir E i t s e d False over_s g'"
    and d: "d < length (mux s)" and E: "sanitycheck E"
  shows "may_submit E (mux s ! d) t"
proof -
  let ?fd = "mux s ! d"
  have nofin: "\<not> remoteSentFinal t" using undelivered_before_final [OF st d] st by (simp add: dir_def)
  have wf: "wire_frame (connID t) ?fd" using st ts d by (simp add: dir_def list_all_length)
  have w: "SendWindowSize E \<le> int MaxSendWindowSize" using sanity_window [OF E] by (simp add: MaxSendWindowSize_def)
  have "length (readCh t) < MaxSendWindowSize" if "is_data ?fd"
  proof -
    have "nd (take (Suc d) (mux s)) = Suc (nd (take d (mux s)))" using that d by (simp add: take_Suc_nth)
    moreover have "nd (take (Suc d) (mux s)) \<le> nd (mux s)" "na (take e (mux t)) \<le> na (mux t)" by (rule nd_take_le na_take_le)+
    ultimately show ?thesis using st w by (simp add: dir_def)
  qed
  moreover have "credit t < SendWindowSize E \<and> ackCh t < MaxSendWindowSize" if "is_ack ?fd"
  proof -
    have "na (take (Suc d) (mux s)) = Suc (na (take d (mux s)))" using that d by (simp add: take_Suc_nth)
    moreover have "na (take (Suc d) (mux s)) \<le> na (mux s)" "nd (take e (mux t)) \<le> nd (mux t)" by (rule nd_take_le na_take_le)+
    ultimately have "credit t < SendWindowSize E" using ts by (simp add: dir_def)
    moreover have "int (ackCh t) \<le> credit t" using ts by (simp add: dir_def conn_inv_def conn_core_def credit_def)
    ultimately show ?thesis using w by simp
  qed
  ultimately show ?thesis using nofin wf by (simp add: may_submit_def)
qed

text \<open>What a delivered frame does to the receiving end.\<close>

definition took :: "rap_config \<Rightarrow> FrameData \<Rightarrow> FrameData list sys \<Rightarrow> FrameData list sys \<Rightarrow> bool" where
  "took E fd s s' \<longleftrightarrow> mux s' = mux s \<and> (\<not> (is_final fd \<and> localSentFinal s) \<longrightarrow>
     conn_inv E s' \<and> connID s' = connID s \<and> onRecycle s' = onRecycle s \<and> localClosed s' = localClosed s
     \<and> credit s' = credit s + (if is_ack fd then 1 else 0)
     \<and> readCh s' = readCh s @ (if is_data fd then [fd] else [])
     \<and> cfp s' = cfp s \<and> remoteSentFinal s' = (remoteSentFinal s \<or> is_final fd))"

lemma SubmitFrame_took:
  assumes "conn_inv E s" and "may_submit E fd s" and "onRecycle s = None"
  shows "safe (SubmitFrame E (Some fd) s) (took E fd s)"
proof -
  have k: "is_data fd \<or> is_ack fd \<or> is_final fd" using assms(2) by (simp add: may_submit_def wire_frame_def)
  show ?thesis
    by (rule safe_mono [OF wire.SubmitFrame_safe [OF assms(1,2) TrueI wire_recycle_ok [OF assms(3)]]])
      (use k frame_kinds_disjoint [of fd] in \<open>auto simp: took_def same_place_def credit_def free_frame_def split: if_splits\<close>)
qed

lemma took_receiver:
  assumes "dir E i s t d e over_s False g" and "took E (mux s ! d) t t'" and "d < length (mux s)"
  shows "dir E i s t' (Suc d) e over_s (is_final (mux s ! d) \<and> localSentFinal t) g"
proof -
  let ?fd = "mux s ! d"
  have tk: "take (Suc d) (mux s) = take d (mux s) @ [?fd]" using assms(3) by (rule take_Suc_nth)
  have pf: "\<exists>rest. payloads (filter is_data (mux s)) = g @ rest"
  proof -
    have "payloads (filter is_data (take d (mux s) @ drop d (mux s))) = (g @ unread t) @ payloads (filter is_data (drop d (mux s)))"
      using assms(1) by (simp only: filter_append payloads_simps) (simp add: dir_def)
    then show ?thesis by simp
  qed
  have n: "nd (take d (mux s)) \<le> nd (take (Suc d) (mux s))" using tk by simp
  show ?thesis
  proof (cases "is_final ?fd \<and> localSentFinal t")
    case True
    then show ?thesis using assms pf n tk by (auto simp: dir_def took_def)
  next
    case False
    then show ?thesis using assms pf n tk by (auto simp: dir_def took_def unread_def)
  qed
qed

lemma took_sender:
  assumes "dir E i t s e d False over_s g" and "took E (mux s ! d) t t'" and "d < length (mux s)"
  shows "dir E i t' s e (Suc d) (is_final (mux s ! d) \<and> localSentFinal t) over_s g"
proof -
  have tk: "take (Suc d) (mux s) = take d (mux s) @ [mux s ! d]" using assms(3) by (rule take_Suc_nth)
  show ?thesis using assms tk by (auto simp: dir_def took_def)
qed

section \<open>Every step keeps the invariant\<close>

lemma link_inv_iff: "link_inv E i l \<longleftrightarrow> dir_inv E i l x \<and> dir_inv E i l (\<not> x)"
proof -
  have "(\<forall>y. dir_inv E i l y) \<longleftrightarrow> dir_inv E i l x \<and> dir_inv E i l (\<not> x)" by (cases x) (auto simp: all_bool_eq)
  then show ?thesis by (simp add: link_inv_def)
qed

lemma link_inv_end:
  assumes "link_inv E i l" and "\<not> over l x"
  shows "conn_inv E (ep l x)" "onRecycle (ep l x) = None" "connID (ep l x) = i"
  using assms by (auto simp: link_inv_def dir_inv_def dir_def)

lemma moved_inv:
  assumes inv: "link_inv E i l" and x: "\<not> over l x" and m: "moved E (ep l x) fs bs s'"
  shows "link_inv E i (l\<lparr>ep := (ep l)(x := s'), got := (got l)(x := got l x @ bs)\<rparr>)"
proof -
  have d: "dir E i (ep l x) (ep l (\<not> x)) (dl l x) (dl l (\<not> x)) False (over l (\<not> x)) (got l (\<not> x))"
    "dir E i (ep l (\<not> x)) (ep l x) (dl l (\<not> x)) (dl l x) (over l (\<not> x)) False (got l x)"
    using inv x by (simp_all add: link_inv_iff [of E i l x] dir_inv_def)
  moreover from d(1) have "dl l x \<le> length (mux (ep l x))" by (simp add: dir_def)
  ultimately show ?thesis
    using moved_sender [OF d(1) m] moved_receiver [OF d(2) m] x
    by (simp add: link_inv_iff [of E i _ x] dir_inv_def)
qed

lemma over_inv:
  assumes inv: "link_inv E i l" and x: "\<not> over l x" "\<not> localClosed (ep l x)" "remoteSentFinal (ep l x)"
    and m: "mux s' = mux (ep l x) @ fs" "fs = [] \<or> (\<exists>fd. fs = [fd] \<and> is_final fd \<and> wire_frame i fd)"
  shows "link_inv E i (l\<lparr>ep := (ep l)(x := s'), over := (over l)(x := True)\<rparr>)"
proof -
  have d: "dir E i (ep l x) (ep l (\<not> x)) (dl l x) (dl l (\<not> x)) False (over l (\<not> x)) (got l (\<not> x))"
    "dir E i (ep l (\<not> x)) (ep l x) (dl l (\<not> x)) (dl l x) (over l (\<not> x)) False (got l x)"
    using inv x by (simp_all add: link_inv_iff [of E i l x] dir_inv_def)
  have "na fs = 0" using m(2) frame_kinds_disjoint by (auto simp: na_def)
  moreover from d(1) have "dl l x \<le> length (mux (ep l x))" by (simp add: dir_def)
  moreover have "\<exists>fd \<in> set (take (dl l (\<not> x)) (mux (ep l (\<not> x)))). is_final fd" using d(2) x(3) by (simp add: dir_def)
  ultimately show ?thesis
    using over_sender [OF d(1) m(1) x(2) m(2)] over_receiver [OF d(2) m(1)]
    by (simp add: link_inv_iff [of E i _ x] dir_inv_def)
qed

lemma wrote_moved:
  assumes "wrote E s s'"
  shows "\<exists>fs. moved E s fs [] s'"
proof -
  from assms obtain fs where fs: "wire.data_sent s s' fs" by (auto simp: wrote_def)
  then have a: "list_all (\<lambda>fd. wire_frame (connID s) fd \<and> is_data fd) fs" by (simp add: wire.data_sent_def)
  have "moved E s fs [] s'" using assms fs all_data [OF a] by (simp add: moved_def wrote_def wire.data_sent_def)
  then show ?thesis ..
qed

lemma read_moved:
  assumes "wire.reader_post E s s'" and "unread s = bs @ unread s'" and "may_take s"
  shows "\<exists>fs. moved E s fs bs s'"
proof -
  from assms(1) obtain k where k: "readCh s' = drop k (readCh s)" "k \<le> length (readCh s)" "wire.acks_sent s s' k"
    by (auto simp: wire.reader_post_def wire.read_post_def)
  then obtain fs where fs: "mux s' = mux s @ fs" "list_all (\<lambda>fd. wire_frame (connID s) fd \<and> is_ack fd) fs" "length fs = k"
    by (auto simp: wire.acks_sent_def)
  moreover have "localClosed s \<longrightarrow> fs = []" using assms(3) k(2) fs(3) by (auto simp: may_take_def)
  ultimately have "moved E s fs bs s'" using assms(1,2) k fs all_acks [OF fs(2)]
    by (auto simp: moved_def wire.reader_post_def wire.read_post_def read_changes_def credit_def)
  then show ?thesis ..
qed

lemma deliver_safe:
  assumes E: "sanitycheck E" and inv: "link_inv E i l"
  shows "safe (link_run E (LDeliver x) l) (link_inv E i)"
proof (cases "dl l x < length (mux (ep l x))")
  case True
  let ?fd = "mux (ep l x) ! dl l x" and ?t = "ep l (\<not> x)"
  have d0: "dir E i (ep l x) ?t (dl l x) (dl l (\<not> x)) (over l x) (over l (\<not> x)) (got l (\<not> x))"
    using inv by (simp add: link_inv_iff [of E i l x] dir_inv_def)
  have o: "over l (\<not> x) = False" using undelivered_before_final [OF d0 True] d0 by (simp add: dir_def)
  have d: "dir E i (ep l x) ?t (dl l x) (dl l (\<not> x)) (over l x) False (got l (\<not> x))"
    "dir E i ?t (ep l x) (dl l (\<not> x)) (dl l x) False (over l x) (got l x)"
    using inv o by (simp_all add: link_inv_iff [of E i l x] dir_inv_def)
  have "safe (SubmitFrame E (Some ?fd) ?t) (took E ?fd ?t)"
    using SubmitFrame_took [OF link_inv_end(1) [OF inv] deliver_ok [OF d True E] link_inv_end(2) [OF inv]] o by simp
  then show ?thesis
    unfolding link_run.simps Let_def if_P [OF True]
  proof (rule safe_bndI)
    fix t' assume t: "took E ?fd ?t t'"
    show "safe (Ret (l\<lparr>ep := (ep l)((\<not> x) := t'), dl := (dl l)(x := Suc (dl l x)),
        over := (over l)((\<not> x) := over l (\<not> x) \<or> is_final ?fd \<and> localSentFinal ?t)\<rparr>)) (link_inv E i)"
      using took_receiver [OF d(1) t True] took_sender [OF d(2) t True]
      by (simp add: link_inv_iff [of E i _ x] dir_inv_def o)
  qed
qed simp

lemma close_safe:
  assumes inv: "link_inv E i l" and x: "\<not> over l x"
  shows "safe (link_run E (LClose x) l) (link_inv E i)"
proof -
  let ?s = "ep l x"
  note ends = link_inv_end [OF inv x]
  have "link_inv E i (l\<lparr>ep := (ep l)(x := s'), over := (over l)(x := \<not> localClosed ?s \<and> remoteSentFinal ?s)\<rparr>)"
    if r: "conn_inv E s' \<and> same_place ?s s' \<and>
    (if localClosed ?s then err = Some ErrClosedPipe \<and> s' = ?s
     else err = None \<and> (if has_pending ?s then mux s' = mux ?s else wire.final_sent ?s s' (remoteSentFinal ?s))
       \<and> (if remoteSentFinal ?s then like_new E s'
          else localClosed s' \<and> runstate s' = runStateWaitFin \<and> \<not> remoteSentFinal s' \<and> readCh s' = readCh ?s
            \<and> cfp s' = cfp ?s \<and> wire.lost ?s s' \<and> True))" for err s'
  proof (cases "localClosed ?s")
    case True
    with r x have "l\<lparr>ep := (ep l)(x := s'), over := (over l)(x := \<not> localClosed ?s \<and> remoteSentFinal ?s)\<rparr> = l"
      by (cases l) (auto simp: fun_eq_iff)
    with inv show ?thesis by simp
  next
    case False
    then obtain fs where fs: "mux s' = mux ?s @ fs" "fs = [] \<or> (\<exists>fd. fs = [fd] \<and> is_final fd \<and> wire_frame i fd)"
      using r ends(3) by (auto simp: wire.final_sent_def split: if_splits)
    show ?thesis
    proof (cases "remoteSentFinal ?s")
      case True
      with over_inv [OF inv x False _ fs] False show ?thesis by simp
    next
      case rem: False
      have "nd fs = 0" "na fs = 0" using fs(2) frame_kinds_disjoint by (auto simp: nd_def na_def)
      with r rem False fs ends have m: "moved E ?s fs [] s'"
        by (auto simp: moved_def same_place_def wire.lost_def unread_def)
      have "l\<lparr>ep := (ep l)(x := s'), over := (over l)(x := \<not> localClosed ?s \<and> remoteSentFinal ?s)\<rparr>
        = l\<lparr>ep := (ep l)(x := s'), got := (got l)(x := got l x @ [])\<rparr>"
        using x rem by (cases l) (auto simp: fun_eq_iff)
      with moved_inv [OF inv x m] show ?thesis by simp
    qed
  qed
  then show ?thesis
    unfolding link_run.simps
    by (intro safe_bndI [OF wire.Close_safe [OF ends(1) TrueI wire_recycle_ok [OF ends(2)]]]) (simp only: split_def safe_simps)
qed

lemma link_step_safe:
  assumes E: "sanitycheck E" and inv: "link_inv E i l" and a: "allowed ev l"
  shows "safe (link_run E ev l) (link_inv E i)"
proof (cases ev)
  case (LCall x c)
  with a have x: "\<not> over l x" "write_side c \<or> c = CallLoadFrameReader \<and> may_take (ep l x)" by simp_all
  have "link_inv E i (l\<lparr>ep := (ep l)(x := s')\<rparr>)" if w: "wrote E (ep l x) s'" for s'
  proof -
    from wrote_moved [OF w] obtain fs where "moved E (ep l x) fs [] s'" ..
    from moved_inv [OF inv x(1) this] show ?thesis by simp
  qed
  then have w: "write_side c \<Longrightarrow> safe (link_run E ev l) (link_inv E i)"
    using LCall by (auto intro: safe_mono [OF write_side_wrote [OF link_inv_end(1) [OF inv x(1)]]])
  have "link_inv E i (l\<lparr>ep := (ep l)(x := s')\<rparr>)"
    if r: "wire.reader_post E (ep l x) s'" "unread s' = unread (ep l x)" and t: "may_take (ep l x)" for s'
  proof -
    from read_moved [OF r(1) _ t, of "[]"] r(2) obtain fs where "moved E (ep l x) fs [] s'" by auto
    from moved_inv [OF inv x(1) this] show ?thesis by simp
  qed
  then have "c = CallLoadFrameReader \<Longrightarrow> may_take (ep l x) \<Longrightarrow> safe (link_run E ev l) (link_inv E i)"
    using LCall by (auto intro!: safe_mono [OF wire.LoadFrameReader_safe [OF link_inv_end(1) [OF inv x(1)] TrueI]])
  with w x(2) show ?thesis by blast
next
  case (LRead x n)
  with a have x: "\<not> over l x" "may_take (ep l x)" by simp_all
  have "link_inv E i (l\<lparr>ep := (ep l)(x := s'), got := (got l)(x := got l x @ bs)\<rparr>)"
    if r: "wire.reader_post E (ep l x) s'" "unread (ep l x) = bs @ unread s'" for bs s'
  proof -
    from read_moved [OF r x(2)] obtain fs where "moved E (ep l x) fs bs s'" ..
    from moved_inv [OF inv x(1) this] show ?thesis .
  qed
  then show ?thesis
    unfolding LRead link_run.simps
    by (intro safe_bndI [OF wire.Conn_Read_safe [OF link_inv_end(1) [OF inv x(1)] TrueI, of n]]) (simp add: split_def)
next
  case (LClose x)
  with close_safe [OF inv] a show ?thesis by simp
next
  case (LDeliver x)
  with deliver_safe [OF E inv] show ?thesis by simp
qed

lemma link_reach_inv:
  assumes "link_reach E i l" and "sanitycheck E" and "i \<le> MaxConnID E"
  shows "link_inv E i l"
  using assms(1)
proof induction
  case (start orc)
  show ?case by (rule link_init_inv [OF assms(2,3)])
next
  case (step l ev l')
  from link_step_safe [OF assms(2) step.IH step.hyps(2)] step.hyps(3) show ?case by simp
qed

section \<open>Properties of the link\<close>

text \<open>
  C2. Two Conns talking to each other never panic, as long as nobody takes a frame from the read queue of
  an end after closing that end: in every state two ends can reach by calls of their write sides, reads
  (with the own end open, or nothing left in its queue), deadlines, closing and the in-order delivery of
  the frames they send, every further step of that kind either waits or leads to such a state again. In
  particular no acknowledgement is ever one too many, no data frame finds the queue full, and no frame
  follows a final frame. The condition on reads is needed: the code lets \<^verbatim>\<open>Read\<close> take a queued frame after
  the own \<^verbatim>\<open>Close\<close> and acknowledge it behind the final frame, and theory \<open>Conn_Late_Read\<close> has a run in
  which this makes the peer's next session panic.
\<close>

theorem link_never_panics:
  assumes "sanitycheck E" and "i \<le> MaxConnID E" and "link_reach E i l" and "allowed ev l"
  shows "link_run E ev l = Blocks \<or> (\<exists>l'. link_run E ev l = Ret l' \<and> link_reach E i l')"
proof -
  have "safe (link_run E ev l) (link_inv E i)"
    using link_step_safe [OF assms(1) link_reach_inv [OF assms(3,1,2)] assms(4)] .
  then show ?thesis by (rule safe_cases) (auto intro: link_reach.step [OF assms(3,4)])
qed

theorem link_never_panics_witness:
  "\<exists>l'. link_run rap_default (LCall True (CallWrite [1, 2, 3])) (link_init rap_default 7 (\<lambda>_. id)) = Ret l'
     \<and> link_reach rap_default 7 l' \<and> mux (ep l' True) \<noteq> []"
proof -
  let ?s = "wire_conn rap_default 7 id" and ?l = "link_init rap_default 7 (\<lambda>_. id)" and ?ev = "LCall True (CallWrite [1, 2, 3])"
  obtain s' where w: "Conn_Write rap_default wire_mux [1, 2, 3] ?s = Ret ((3, None), s')"
    using wire.Conn_Write_returns [OF default_conn_inv [of id], of "[1, 2, 3]"]
    by (auto simp: wire.writable_def makeConnDeadline_def credit_def frame_sizes)
  with wire.Conn_Write_safe [OF default_conn_inv [of id] TrueI, of "[1, 2, 3]"]
  have "wire.user_post rap_default ?s s' True [1, 2, 3]" "fdw s' = None" by simp_all
  then have "mux s' \<noteq> []" by (auto simp: wire.user_post_def wire.write_post_def wire.data_sent_def pend_def)
  moreover have "link_run rap_default ?ev ?l = Ret (?l\<lparr>ep := (ep ?l)(True := s')\<rparr>)" using w by (simp add: link_init_def)
  ultimately show ?thesis
    using link_never_panics [OF _ _ link_reach.start, of rap_default 7 ?ev "\<lambda>_. id"] by (auto simp: link_init_def)
qed

text \<open>
  C3. A link is a pipe with a bounded window: at every moment what the reader at one end has been given
  is a prefix of what the other end has sent, the data frames sent and not yet acknowledged are at
  most \<^verbatim>\<open>SendWindowSize\<close>, and a reader that has come to the end of the stream has been given everything.
\<close>

theorem link_is_a_pipe:
  assumes "sanitycheck E" and "i \<le> MaxConnID E" and "link_reach E i l"
  shows "(\<exists>rest. payloads (filter is_data (mux (ep l x))) = got l (\<not> x) @ rest)
    \<and> int (nd (mux (ep l x))) - int (na (take (dl l (\<not> x)) (mux (ep l (\<not> x))))) \<le> SendWindowSize E
    \<and> (\<not> over l (\<not> x) \<and> remoteSentFinal (ep l (\<not> x)) \<and> unread (ep l (\<not> x)) = []
        \<longrightarrow> got l (\<not> x) = payloads (filter is_data (mux (ep l x))))"
proof -
  let ?s = "ep l x" and ?t = "ep l (\<not> x)" and ?d = "dl l x"
  have d: "dir E i ?s ?t ?d (dl l (\<not> x)) (over l x) (over l (\<not> x)) (got l (\<not> x))"
    using link_reach_inv [OF assms(3,1,2)] by (simp add: link_inv_iff [of E i l x] dir_inv_def)
  have split: "payloads (filter is_data (mux ?s)) = payloads (filter is_data (take ?d (mux ?s))) @ payloads (filter is_data (drop ?d (mux ?s)))"
    using filter_append [of is_data "take ?d (mux ?s)" "drop ?d (mux ?s)"] by (simp del: filter_append)
  have "got l (\<not> x) = payloads (filter is_data (mux ?s))"
    if "\<not> over l (\<not> x)" "remoteSentFinal ?t" "unread ?t = []"
  proof -
    have "\<exists>fd \<in> set (take ?d (mux ?s)). is_final fd" using d that by (simp add: dir_def)
    with undelivered_before_final [OF d] have "\<not> ?d < length (mux ?s)" by blast
    with d that show ?thesis by (simp add: dir_def)
  qed
  moreover have "\<exists>rest. payloads (filter is_data (mux ?s)) = got l (\<not> x) @ rest"
    using d split by (cases "over l (\<not> x)") (simp_all add: dir_def)
  moreover have "int (nd (mux ?s)) \<le> SendWindowSize E + int (na (take (dl l (\<not> x)) (mux ?t)))"
    using d by (simp add: dir_def)
  ultimately show ?thesis by simp
qed

theorem link_is_a_pipe_witness:
  "\<exists>rest. payloads (filter is_data (mux (ep (link_init rap_default 7 (\<lambda>_. id)) True))) =
     got (link_init rap_default 7 (\<lambda>_. id)) False @ rest"
  using link_is_a_pipe [OF _ _ link_reach.start, of rap_default 7 "\<lambda>_. id" True] by simp

lemma closing_both_recycles: "\<exists>l. link_reach rap_default 7 l \<and> over l False"
proof -
  let ?l0 = "link_init rap_default 7 (\<lambda>_. id)"
  let ?s = "wire_conn rap_default 7 id"
  have e: "ep ?l0 x = ?s" "over ?l0 x = False" "dl ?l0 x = 0" for x by (simp_all add: link_init_def)
  obtain err s1 where s1: "Close rap_default wire_mux ?s = Ret (err, s1)"
    using wire.Close_returns [OF default_conn_inv [of id] TrueI] by auto
  have "\<not> has_pending ?s" "\<not> localClosed ?s" "\<not> remoteSentFinal ?s" by (simp_all add: has_pending_def)
  with wire.Close_safe [OF default_conn_inv [of id] TrueI wire_recycle_ok] s1
  obtain fd where fd: "mux s1 = [fd]" "wire_frame 7 fd" "is_final fd" by (auto simp: wire.final_sent_def)
  let ?l1 = "?l0\<lparr>ep := (ep ?l0)(True := s1)\<rparr>"
  have "link_run rap_default (LClose True) ?l0 = Ret ?l1"
    using s1 by (simp add: e link_init_def fun_eq_iff)
  then have l1: "link_reach rap_default 7 ?l1" by (rule link_reach.step [OF link_reach.start, rotated]) (simp add: e)
  obtain s2 where s2: "SubmitFrame rap_default (Some fd) ?s = Ret s2" "remoteSentFinal s2" "\<not> localClosed s2"
    using SubmitFrame_final [OF fd(2,3), of ?s rap_default] by (simp add: Let_def free_frame_def)
  let ?l2 = "?l1\<lparr>ep := (ep ?l1)(False := s2), dl := (dl ?l1)(True := 1), over := (over ?l1)(False := False)\<rparr>"
  have "link_run rap_default (LDeliver True) ?l1 = Ret ?l2" using s2 fd by (simp add: e)
  then have l2: "link_reach rap_default 7 ?l2" by (rule link_reach.step [OF l1, rotated]) simp
  have inv: "link_inv rap_default 7 ?l2" by (rule link_reach_inv [OF l2]) simp_all
  have "\<not> over ?l2 False" "ep ?l2 False = s2" by (simp_all add: e)
  then have "conn_inv rap_default s2" "onRecycle s2 = None" using link_inv_end [OF inv, of False] by simp_all
  then obtain err s3 where s3: "Close rap_default wire_mux s2 = Ret (err, s3)" using wire.Close_returns by fastforce
  then obtain l3 where l3: "link_run rap_default (LClose False) ?l2 = Ret l3" "over l3 False" using s2 by simp
  have "link_reach rap_default 7 l3" by (rule link_reach.step [OF l2 _ l3(1)]) (simp add: e)
  with l3(2) show ?thesis by blast
qed

text \<open>
  C24. A Conn is recycled only when the old session has nothing left to say to it, as long as nobody takes
  a frame from the read queue of an end after closing that end: once one end has been recycled, every
  frame its peer has sent has been delivered, and a peer that is still open sends none any more, so the
  next session on the ID starts with a clean channel in that direction. Without the condition it fails:
  in the run of theory \<open>Conn_Late_Read\<close> the acknowledgement of a frame read after \<^verbatim>\<open>Close\<close> is still on its
  way when the other end is recycled, and the next session on the ID gets it.
\<close>

theorem recycled_end_quiet:
  assumes "sanitycheck E" and "i \<le> MaxConnID E" and "link_reach E i l" and "over l x"
  shows "dl l (\<not> x) = length (mux (ep l (\<not> x))) \<and> link_run E (LDeliver (\<not> x)) l = Blocks
    \<and> (\<not> over l (\<not> x) \<longrightarrow> localClosed (ep l (\<not> x)))"
proof -
  have d: "dir E i (ep l (\<not> x)) (ep l x) (dl l (\<not> x)) (dl l x) (over l (\<not> x)) (over l x) (got l x)"
    using link_reach_inv [OF assms(3,1,2)] by (simp add: link_inv_iff [of E i l x] dir_inv_def)
  with assms(4) have f: "\<exists>fd \<in> set (take (dl l (\<not> x)) (mux (ep l (\<not> x)))). is_final fd" by (simp add: dir_def)
  with undelivered_before_final [OF d] have "\<not> dl l (\<not> x) < length (mux (ep l (\<not> x)))" by blast
  moreover have "\<exists>fd \<in> set (mux (ep l (\<not> x))). is_final fd" using f by (auto dest: in_set_takeD)
  ultimately show ?thesis using d by (simp add: dir_def)
qed

theorem recycled_end_quiet_witness:
  "\<exists>l. link_reach rap_default 7 l \<and> over l False \<and> link_run rap_default (LDeliver True) l = Blocks"
proof -
  obtain l where l: "link_reach rap_default 7 l" "over l False" using closing_both_recycles by blast
  from recycled_end_quiet [OF _ _ l] show ?thesis using l by auto
qed

end
