(* ===== verification/Conn_Late_Read.thy ===== *)
theory Conn_Late_Read
  imports Conn_Link
begin

text \<open>
  Why the users of a link may not take a frame from the read queue once they have closed their end: a
  run of two Conns in which one of them does, and the program of the other end panics.
\<close>

section \<open>Writing one byte\<close>

text \<open>One byte written on an open Conn with nothing waiting to be sent: a data frame that holds it.\<close>

lemma WriteByte_sends:
  assumes "pool_ok (pool s)" and "connID s \<le> MaxConnID E" and "MaxConnID E \<le> MuxerConnID"
    and "fdw s = None" and "\<not> wmu s" and "\<not> localClosed s" and "\<not> remoteSentFinal s" and "\<not> cancel (writeDeadline s)"
  obtains fd p where "Conn_WriteByte E wire_mux b s =
      bnd (write_loop E wire_mux fd (s\<lparr>wmu := True, pool := p, fdw := None\<rparr>)) (\<lambda>(err, t). Ret (err, t\<lparr>wmu := False\<rparr>))"
    and "wire_frame (connID s) fd" and "is_data fd" and "drop 4 (fbytes fd) = [b]" and "pool_ok p"
proof -
  obtain fd p where a: "FrameDataAllocID E (connID s) (pool s) = Ret (fd, p)" "blank_frame (connID s) fd" "pool_ok p"
    using AllocID_blank [OF assms(1-3)] by metis
  have i: "connID s \<le> MuxerConnID" using assms(2,3) by (rule order_trans)
  note o = blank_open [OF a(2) i] and av = blank_available [OF a(2)]
  let ?t = "s\<lparr>wmu := True, pool := p, fdw := Some fd\<rparr>"
  let ?fd = "append_bytes E (upd_hdr (\<lambda>h. h\<lparr>h_body := True\<rparr>) fd) [b]"
  have ws: "writeStart E (s\<lparr>wmu := True\<rparr>) = Ret (None, ?t)"
    using assms(4-8) a(1) by (simp add: writeStart_def start_ready_def alloc_frame_def)
  have "Conn_Available ?t > 0" using av by (simp add: Conn_Available_def fdw_val_def frame_sizes)
  then have ap: "conn_writeByte E wire_mux b (s\<lparr>wmu := True\<rparr>) = Ret (None, ?t\<lparr>fdw := Some ?fd\<rparr>)"
    using ws fdw_append_eq [of ?t fd E "[b]"] o(1) by (simp add: conn_writeByte_def)
  have len: "length (fbytes fd) = 4" using a(2) by (auto simp: blank_frame_def)
  have fd: "open_frame (connID s) ?fd" by (rule append_open [OF o(1)])
  have hd: "h_body (fhdr ?fd)" using o(2) by (simp del: fbytes_append)
  have pay: "drop 4 (fbytes ?fd) = [b]" "length (fbytes ?fd) \<le> FrameMaxSize" using o(4) len by (simp_all add: frame_sizes)
  have fl: "flushLocked E wire_mux (?t\<lparr>fdw := Some ?fd\<rparr>) = write_loop E wire_mux (Conn_Laws.sized ?fd) (s\<lparr>wmu := True, pool := p, fdw := None\<rparr>)"
    using writeFrame_eq [OF fd] hd pay(2) by (simp add: flushLocked_def)
  have "Conn_WriteByte E wire_mux b s = bnd (write_loop E wire_mux (Conn_Laws.sized ?fd) (s\<lparr>wmu := True, pool := p, fdw := None\<rparr>))
      (\<lambda>(err, t). Ret (err, t\<lparr>wmu := False\<rparr>))"
    using assms(5) ap fl by (simp add: Conn_WriteByte_def lock_wmu_def)
  then show thesis
    by (rule that) (use sized_wire [OF fd _ pay(2)] hd pay(1) a(3) in simp_all)
qed

section \<open>Steps of the run\<close>

lemma WriteByte_once:
  assumes "conn_inv E s" and "fdw s = None" and "\<not> localClosed s" and "\<not> remoteSentFinal s"
    and "\<not> cancel (writeDeadline s)" and "ackCh s = 0" and "0 < sendWindow s"
  obtains s' fd where "Conn_WriteByte E wire_mux b s = Ret (None, s')" and "conn_inv E s'" and "mux s' = mux s @ [fd]"
    and "wire_frame (connID s) fd" and "is_data fd" and "drop 4 (fbytes fd) = [b]" and "write_changes s s'" and "fdw s' = None"
proof -
  have s: "pool_ok (pool s)" "connID s \<le> MaxConnID E" "MaxConnID E \<le> MuxerConnID" "\<not> wmu s"
    using assms(1) core_id [OF inv_core [OF assms(1)]] by (simp_all add: conn_inv_def conn_core_def)
  obtain fd p where w: "Conn_WriteByte E wire_mux b s =
      bnd (write_loop E wire_mux fd (s\<lparr>wmu := True, pool := p, fdw := None\<rparr>)) (\<lambda>(err, t). Ret (err, t\<lparr>wmu := False\<rparr>))"
    "wire_frame (connID s) fd" "is_data fd" "drop 4 (fbytes fd) = [b]"
    using WriteByte_sends [OF s(1-3) assms(2) s(4) assms(3-5)] by metis
  have "\<exists>s'. Conn_WriteByte E wire_mux b s = Ret (None, s') \<and> mux s' = mux s @ [fd] \<and> fdw s' = None"
    using assms(3-7) by (simp add: w(1) write_loop.simps [where fd = fd] write_ready_def conn_write_def Let_def starting_def)
  then obtain s' where r: "Conn_WriteByte E wire_mux b s = Ret (None, s')" "mux s' = mux s @ [fd]" "fdw s' = None" by blast
  with wire.Conn_WriteByte_safe [OF assms(1), of b] have "wire.user_post E s s' True [b]" by simp
  then have "conn_inv E s'" "write_changes s s'" by (simp_all add: wire.user_post_def wire.write_post_def)
  with r w(2-4) that show thesis by blast
qed

lemma Close_once:
  assumes "conn_inv E s" and "onRecycle s = None" and "\<not> localClosed s" and "\<not> has_pending s" and "\<not> remoteSentFinal s"
  obtains s' fd where "Close E wire_mux s = Ret (None, s')" and "conn_inv E s'" and "same_place s s'" and "mux s' = mux s @ [fd]"
    and "wire_frame (connID s) fd" and "is_final fd" and "localClosed s'" and "\<not> remoteSentFinal s'" and "readCh s' = readCh s"
    and "cfp s' = cfp s"
proof -
  obtain err s' where r: "Close E wire_mux s = Ret (err, s')"
    using wire.Close_returns [OF assms(1) TrueI assms(2)] by auto
  with wire.Close_safe [OF assms(1) TrueI wire_recycle_ok [OF assms(2)]] assms(3-5) that [of s']
  show thesis by (auto simp: wire.final_sent_def)
qed

text \<open>With the own end closed, the \<^verbatim>\<open>select\<close> of \<^verbatim>\<open>readFrame\<close> may pick the read queue all the same.\<close>

lemma late_Read:
  assumes "conn_inv E s" and "cfp s = []" and "readCh s = [fd]" and "drop 4 (fbytes fd) \<noteq> []" and "choices s = (\<lambda>_. 0)"
  obtains bs err s' ack where "Conn_Read E wire_mux n s = Ret ((bs, err), s')" and "mux s' = mux s @ [ack]"
    and "wire_frame (connID s) ack" and "is_ack ack"
proof -
  let ?s = "s\<lparr>rmu := True\<rparr>"
  define s0 where "s0 = (if fdr ?s \<noteq> None then (free_frame (fdr ?s) ?s)\<lparr>fdr := None, cfp := []\<rparr> else ?s)"
  have c: "conn_core E ?s" "\<not> rmu s" "4 \<le> length (fbytes fd)" "frame_room fd"
    using assms(1,3) by (simp_all add: conn_inv_def conn_core_def in_frame_def)
  have s0: "readCh s0 = [fd]" "cfp s0 = []" "mux s0 = mux s" "connID s0 = connID s" "choices s0 = (\<lambda>_. 0)"
    using assms by (simp_all add: s0_def) (simp_all add: free_frame_def)
  have core0: "conn_core E s0" using c(1) by (auto simp: s0_def conn_core_def free_frame_def)
  let ?u = "s0\<lparr>tick := Suc (tick s0), readCh := [], fdr := Some fd, cfp := drop 4 (fbytes fd)\<rparr>"
  have u: "conn_core E ?u" using core0 c(4) by (simp add: conn_core_def)
  obtain s1 where w: "writeAckFrame E wire_mux ?u = Ret s1" using wire.writeAckFrame_returns [OF u TrueI] by blast
  with wire.writeAckFrame_safe [OF u TrueI] have a: "cfp s1 = drop 4 (fbytes fd)" "wire.acks_sent ?u s1 1" by simp_all
  then obtain ack where ack: "mux s1 = mux s @ [ack]" "wire_frame (connID s) ack" "is_ack ack"
    using s0 by (auto simp: wire.acks_sent_def length_Suc_conv)
  have "readFrame E wire_mux ?s = Ret (None, s1)"
    using s0(1,5) c(3) w unfolding readFrame_def Let_def s0_def [symmetric]
    by (simp add: select_def read_ready_def view_read)
  then have "loadFrameReader E wire_mux ?s = Ret (None, s1)"
    using assms(2,4) a(1) by (subst loadFrameReader.simps) (simp add: loadFrameReader.simps)
  then have "\<exists>bs err. Conn_Read E wire_mux n s = Ret ((bs, err), s1\<lparr>cfp := drop n (cfp s1), rmu := False\<rparr>)"
    using c(2) by (simp add: Conn_Read_def lock_rmu_def conn_read_def FrameParser_Read_def)
  with ack that show thesis by fastforce
qed

lemma final_recycles:
  assumes "conn_inv E (s :: FrameData list sys)" and "wire_frame (connID s) fd" and "is_final fd" and "localClosed s" and "\<not> remoteSentFinal s"
    and "onRecycle s = None"
  obtains s' where "SubmitFrame E (Some fd) s = Ret s'" and "conn_inv E s'" and "like_new E s'" and "same_place s s'"
proof -
  have m: "may_submit E fd s" using assms(2,3,5) frame_kinds_disjoint [of fd] by (auto simp: may_submit_def)
  have i: "localSentFinal s" "fdw s = None" "\<not> cmu s" "\<not> wmu s" "\<not> rmu s" using assms(1,4) by (simp_all add: conn_inv_def)
  have "\<exists>s'. SubmitFrame E (Some fd) s = Ret s'"
    using SubmitFrame_final [OF assms(2,3,5) i(3), of E] i assms(4,6)
    by (simp add: Let_def recycle_def lock_wmu_def lock_rmu_def recycleLocked_def canRecycleLocked_def forceRecycleLocked_def
        fold_free_frame free_frame_def)
  then obtain s' where r: "SubmitFrame E (Some fd) s = Ret s'" ..
  have k: "\<not> is_data fd" "\<not> is_ack fd" using assms(3) frame_kinds_disjoint by blast+
  from wire.SubmitFrame_safe [OF assms(1) m TrueI wire_recycle_ok [OF assms(6)]] r k i(1) that show thesis by simp
qed

text \<open>One acknowledgement too many: the next write counts it and finds the window larger than it may be.\<close>

lemma stray_ack_panics:
  assumes "conn_inv E s" and "like_new E s" and "wire_frame (connID s) ack" and "is_ack ack"
  obtains s' where "SubmitFrame E (Some ack) s = Ret s'"
    and "Conn_WriteByte E wire_mux b s' = Panics (PanicMsg ''sendWindow > SendWindowSize'')"
proof -
  have n: "ackCh s = 0" "fdw s = None" "\<not> localClosed s" "\<not> remoteSentFinal s" "sendWindow s = SendWindowSize E"
    "\<not> cancel (writeDeadline s)" using assms(2) by (simp_all add: like_new_def makeConnDeadline_def)
  let ?s = "(free_frame (Some ack) s)\<lparr>ackCh := Suc (ackCh s)\<rparr>"
  have r: "SubmitFrame E (Some ack) s = Ret ?s"
    using n(1) by (intro SubmitFrame_ack [OF assms(3,4)]) (simp add: MaxSendWindowSize_def)
  have s: "pool_ok (pool ?s)" "connID ?s \<le> MaxConnID E" "MaxConnID E \<le> MuxerConnID" "\<not> wmu ?s"
    using assms(1,3) core_id [OF inv_core [OF assms(1)]] wire_frame_in [OF assms(3)]
    by (simp_all add: conn_inv_def conn_core_def free_frame_def)
  have o: "fdw ?s = None" "\<not> localClosed ?s" "\<not> remoteSentFinal ?s" "\<not> cancel (writeDeadline ?s)"
    "ackCh ?s = 1" "sendWindow ?s = SendWindowSize E" using n by (simp_all add: free_frame_def)
  obtain fd p where w: "Conn_WriteByte E wire_mux b ?s =
      bnd (write_loop E wire_mux fd (?s\<lparr>wmu := True, pool := p, fdw := None\<rparr>)) (\<lambda>(err, t). Ret (err, t\<lparr>wmu := False\<rparr>))"
    using WriteByte_sends [OF s(1-3) o(1) s(4) o(2-4)] by metis
  have "Conn_WriteByte E wire_mux b ?s = Panics (PanicMsg ''sendWindow > SendWindowSize'')"
    using o unfolding w by (subst write_loop.simps) (simp add: write_ready_def select_def consumeAck_def Let_def)
  with r that show thesis by blast
qed

section \<open>The run\<close>

fun link_runs :: "rap_config \<Rightarrow> link_event list \<Rightarrow> link \<Rightarrow> link go" where
  "link_runs E [] l = Ret l"
| "link_runs E (ev # evs) l = bnd (link_run E ev l) (link_runs E evs)"

text \<open>
  One end writes a byte; the frame is delivered; both ends close, each sending its final frame. Up to here
  every step is allowed. Now the other end reads the byte that is still in its queue, and acknowledges
  it, behind its final frame. The final frame is delivered and recycles the first Conn, the
  acknowledgement is delivered to the recycled Conn, and the first write of its next session panics.
\<close>

theorem late_read_panics:
  "\<exists>l l'. link_reach rap_default 7 l \<and> \<not> over l True \<and> localClosed (ep l True) \<and> \<not> may_take (ep l True)
     \<and> link_runs rap_default [LRead True 1, LDeliver True, LDeliver True] l = Ret l' \<and> over l' False
     \<and> Conn_WriteByte rap_default wire_mux 2 (ep l' False) = Panics (PanicMsg ''sendWindow > SendWindowSize'')"
proof -
  let ?E = rap_default and ?s = "wire_conn rap_default 7 (\<lambda>_. 0)"
  let ?l0 = "link_init ?E 7 (\<lambda>_ _. 0)"
  have e: "ep ?l0 x = ?s" "over ?l0 x = False" "dl ?l0 x = 0" for x by (simp_all add: link_init_def)
  obtain s1 d where s1: "Conn_WriteByte ?E wire_mux 1 ?s = Ret (None, s1)" "conn_inv ?E s1" "mux s1 = [d]"
    and d: "wire_frame 7 d" "is_data d" "drop 4 (fbytes d) = [1]" and ch: "write_changes ?s s1" and f: "fdw s1 = None"
    by (rule WriteByte_once [OF default_conn_inv, of "\<lambda>_. 0" 1]) (auto simp: makeConnDeadline_def)
  let ?l1 = "?l0\<lparr>ep := (ep ?l0)(False := s1)\<rparr>"
  have r1: "link_reach ?E 7 ?l1"
    by (rule link_reach.step [OF link_reach.start [of ?E 7 "\<lambda>_ _. 0"], where ev = "LCall False (CallWriteByte 1)"])
      (simp_all add: e s1(1))
  let ?t1 = "?s\<lparr>readCh := [d]\<rparr>"
  have sub: "SubmitFrame ?E (Some d) ?s = Ret ?t1"
    by (subst SubmitFrame_data [OF d(1,2)]) (simp_all add: MaxSendWindowSize_def)
  let ?l2 = "?l1\<lparr>ep := (ep ?l1)(True := ?t1), dl := (dl ?l1)(False := 1), over := (over ?l1)(True := False)\<rparr>"
  have r2: "link_reach ?E 7 ?l2"
    by (rule link_reach.step [OF r1, where ev = "LDeliver False"]) (simp_all add: e s1(3) sub)
  have t1: "conn_inv ?E ?t1" using default_conn_inv [of "\<lambda>_. 0"] wire_frame_in [OF d(1)] by (simp add: conn_inv_def conn_core_def)
  obtain t2 fin where t2: "Close ?E wire_mux ?t1 = Ret (None, t2)" "conn_inv ?E t2" "same_place ?t1 t2" "mux t2 = [fin]"
    "localClosed t2" "readCh t2 = [d]" "cfp t2 = []" and fin: "wire_frame 7 fin" "is_final fin"
    by (rule Close_once [OF t1]) (auto simp: has_pending_def)
  let ?l3 = "?l2\<lparr>ep := (ep ?l2)(True := t2), over := (over ?l2)(True := False)\<rparr>"
  have r3: "link_reach ?E 7 ?l3"
    by (rule link_reach.step [OF r2, where ev = "LClose True"]) (simp_all add: e t2(1))
  have o: "onRecycle s1 = None" "\<not> localClosed s1" "\<not> remoteSentFinal s1" "connID s1 = 7" using ch by (simp_all add: write_changes_def)
  obtain s2 fin2 where s2: "Close ?E wire_mux s1 = Ret (None, s2)" "conn_inv ?E s2" "same_place s1 s2" "localClosed s2" "\<not> remoteSentFinal s2"
    by (rule Close_once [OF s1(2) o(1,2) _ o(3)]) (simp_all add: has_pending_def f)
  let ?l4 = "?l3\<lparr>ep := (ep ?l3)(False := s2), over := (over ?l3)(False := False)\<rparr>"
  have r4: "link_reach ?E 7 ?l4"
    by (rule link_reach.step [OF r3, where ev = "LClose False"]) (simp_all add: e s2(1) o)
  have ch2: "choices t2 = (\<lambda>_. 0)" "connID t2 = 7" using t2(3) by (simp_all add: same_place_def wire_conn_def)
  obtain bs err t3 ack where t3: "Conn_Read ?E wire_mux 1 t2 = Ret ((bs, err), t3)" "mux t3 = [fin, ack]"
    and ack: "wire_frame 7 ack" "is_ack ack"
    by (rule late_Read [OF t2(2,7,6) _ ch2(1), of 1]) (auto simp: d(3) t2(4) ch2(2))
  have p2: "connID s2 = 7" "onRecycle s2 = None" using s2(3) o by (simp_all add: same_place_def)
  obtain s3 where s3: "SubmitFrame ?E (Some fin) s2 = Ret s3" "conn_inv ?E s3" "like_new ?E s3" "same_place s2 s3"
    by (rule final_recycles [OF s2(2) _ fin(2) s2(4,5) p2(2)]) (simp_all add: fin(1) p2(1))
  have p3: "connID s3 = 7" using s3(4) p2(1) by (simp add: same_place_def)
  obtain s4 where s4: "SubmitFrame ?E (Some ack) s3 = Ret s4"
    "Conn_WriteByte ?E wire_mux 2 s4 = Panics (PanicMsg ''sendWindow > SendWindowSize'')"
    by (rule stray_ack_panics [OF s3(2,3) _ ack(2), of 2]) (simp_all add: ack(1) p3)
  have "localSentFinal s2" using s2(2,4) by (simp add: conn_inv_def)
  then have "\<exists>l'. link_runs ?E [LRead True 1, LDeliver True, LDeliver True] ?l4 = Ret l' \<and> over l' False \<and> ep l' False = s4"
    using t3 s3(1) s4(1) fin(2) by (simp add: e)
  then obtain l' where "link_runs ?E [LRead True 1, LDeliver True, LDeliver True] ?l4 = Ret l'" "over l' False" "ep l' False = s4" by blast
  moreover have "\<not> over ?l4 True" "localClosed (ep ?l4 True)" "\<not> may_take (ep ?l4 True)" using t2(5,6) by (simp_all add: may_take_def)
  ultimately show ?thesis using r4 s4(2) by blast
qed

end
