(* ===== verification/Conn_Deadline.thy ===== *)
theory Conn_Deadline
  imports Conn_Laws
begin

text \<open>
  The deadlines of \<^verbatim>\<open>src/conn.go\<close> in detail. In \<open>Conn\<close> a deadline is a timer and whether its channel is closed. Here
  the channel is an object that \<^verbatim>\<open>wait\<close> hands out, \<^verbatim>\<open>set\<close> replaces it when it has been closed, and a timer that has expired
  has its callback still to run, in a goroutine of its own and without the lock: \<^verbatim>\<open>set\<close> then waits for it.
  The detailed operations refine those of \<open>Conn\<close>, and nobody waits on a channel that has been thrown away.
\<close>

section \<open>Channels and timers\<close>

text \<open>
  A timer is nil, or set for a time, or has expired with its callback about to run, or its callback has run.
  \<open>closed\<close> is the store of channels: whether each is closed. \<open>waiters\<close> are the channels that calls of \<^verbatim>\<open>wait\<close> have returned.
\<close>

datatype dl_timer = TimerNil | TimerSet int | TimerExpired int | TimerDone

record deadline_sys =
  dtimer :: dl_timer
  dcancel :: nat
  closed :: "bool list"
  waiters :: "nat list"
  dclock :: int

definition dl_make :: "int \<Rightarrow> deadline_sys" where
  "dl_make t = \<lparr>dtimer = TimerNil, dcancel = 0, closed = [False], waiters = [], dclock = t\<rparr>"

text \<open>A receive from a channel nobody sends on, with a default case: the case is ready when the channel is closed.\<close>

definition isClosedChan :: "nat \<Rightarrow> deadline_sys \<Rightarrow> bool" where
  "isClosedChan c y = closed y ! c"

definition close_chan :: "nat \<Rightarrow> deadline_sys \<Rightarrow> deadline_sys go" where
  "close_chan c y =
     (if closed y ! c then Panics (PanicMsg ''close of closed channel'') else Ret (y\<lparr>closed := (closed y)[c := True]\<rparr>))"

definition make_cancel :: "deadline_sys \<Rightarrow> deadline_sys" where
  "make_cancel y = y\<lparr>dcancel := length (closed y), closed := closed y @ [False]\<rparr>"

text \<open>
  \<^verbatim>\<open>d.timer != nil && !d.timer.Stop()\<close>: \<^verbatim>\<open>Stop\<close> is false when the timer has expired, and then \<^verbatim>\<open><-d.cancel\<close> waits until the
  callback has closed the channel.
\<close>

definition dl_stop :: "deadline_sys \<Rightarrow> deadline_sys go" where
  "dl_stop y =
     (case dtimer y of
        TimerNil \<Rightarrow> Ret y
      | TimerSet t \<Rightarrow> Ret y
      | _ \<Rightarrow> if closed y ! dcancel y then Ret y else Blocks)"

definition dl_set :: "int option \<Rightarrow> deadline_sys \<Rightarrow> deadline_sys go" where
  "dl_set t y =
     bnd (dl_stop y) (\<lambda>y.
       let y = y\<lparr>dtimer := TimerNil\<rparr>; cl = isClosedChan (dcancel y) y in
       case t of
         None \<Rightarrow> Ret (if cl then make_cancel y else y)
       | Some t \<Rightarrow>
           if t - dclock y > 0 then Ret ((if cl then make_cancel y else y)\<lparr>dtimer := TimerSet t\<rparr>)
           else if \<not> cl then close_chan (dcancel y) y else Ret y)"

definition dl_wait :: "deadline_sys \<Rightarrow> nat \<times> deadline_sys" where
  "dl_wait y = (dcancel y, y\<lparr>waiters := dcancel y # waiters y\<rparr>)"

text \<open>The runtime's part: time goes by, a timer expires, and its callback closes whatever \<^verbatim>\<open>d.cancel\<close> is then.\<close>

definition dl_expire :: "deadline_sys \<Rightarrow> deadline_sys" where
  "dl_expire y =
     (case dtimer y of TimerSet t \<Rightarrow> if t \<le> dclock y then y\<lparr>dtimer := TimerExpired t\<rparr> else y | _ \<Rightarrow> y)"

definition dl_callback :: "deadline_sys \<Rightarrow> deadline_sys go" where
  "dl_callback y =
     (case dtimer y of
        TimerExpired t \<Rightarrow> bnd (close_chan (dcancel y) y) (\<lambda>y. Ret (y\<lparr>dtimer := TimerDone\<rparr>))
      | _ \<Rightarrow> Ret y)"

text \<open>Everything that can happen to a deadline, in any order.\<close>

inductive dl_reach :: "deadline_sys \<Rightarrow> bool" where
  make: "dl_reach (dl_make t)"
| set: "dl_reach y \<Longrightarrow> dl_set t y = Ret y' \<Longrightarrow> dl_reach y'"
| wait: "dl_reach y \<Longrightarrow> dl_reach (snd (dl_wait y))"
| time: "dl_reach y \<Longrightarrow> dclock y \<le> t \<Longrightarrow> dl_reach (y\<lparr>dclock := t\<rparr>)"
| expire: "dl_reach y \<Longrightarrow> dl_reach (dl_expire y)"
| callback: "dl_reach y \<Longrightarrow> dl_callback y = Ret y' \<Longrightarrow> dl_reach y'"

section \<open>The invariant\<close>

text \<open>
  The present channel is open as long as a timer may close it; and a channel that is not the present one any more has
  been closed, so that whoever waits on it has been woken.
\<close>

definition dl_inv :: "deadline_sys \<Rightarrow> bool" where
  "dl_inv y \<longleftrightarrow> dcancel y < length (closed y)
     \<and> (case dtimer y of TimerNil \<Rightarrow> True | TimerDone \<Rightarrow> closed y ! dcancel y | TimerSet _ \<Rightarrow> \<not> closed y ! dcancel y
        | TimerExpired t \<Rightarrow> \<not> closed y ! dcancel y \<and> t \<le> dclock y)
     \<and> (\<forall>c < length (closed y). c = dcancel y \<or> closed y ! c)
     \<and> list_all (\<lambda>c. c < length (closed y)) (waiters y)"

text \<open>The ways in which \<^verbatim>\<open>set\<close> returns.\<close>

lemma dl_set_cases:
  assumes "dl_set t y = Ret y'"
  obtains (fresh) T where "closed y ! dcancel y" "y' = y\<lparr>dcancel := length (closed y), closed := closed y @ [False], dtimer := T\<rparr>"
      "t = None \<and> T = TimerNil \<or> (\<exists>u. t = Some u \<and> dclock y < u \<and> T = TimerSet u)"
  | (same) T where "\<not> closed y ! dcancel y" "y' = y\<lparr>dtimer := T\<rparr>"
      "t = None \<and> T = TimerNil \<or> (\<exists>u. t = Some u \<and> dclock y < u \<and> T = TimerSet u)"
  | (past) u where "\<not> closed y ! dcancel y" "y' = y\<lparr>dtimer := TimerNil, closed := (closed y)[dcancel y := True]\<rparr>" "t = Some u" "u \<le> dclock y"
  | (still) u where "closed y ! dcancel y" "y' = y\<lparr>dtimer := TimerNil\<rparr>" "t = Some u" "u \<le> dclock y"
proof -
  from assms have s: "dl_stop y = Ret y" by (auto simp: dl_set_def dl_stop_def elim!: bnd_RetE split: dl_timer.splits if_splits)
  show thesis
  proof (cases t)
    case None
    with assms s show thesis
      by (cases "closed y ! dcancel y")
        (auto simp: dl_set_def isClosedChan_def make_cancel_def intro: fresh [of TimerNil] same [of TimerNil])
  next
    case (Some u)
    show thesis
    proof (cases "u - dclock y > 0")
      case True
      with Some assms s show thesis
        by (cases "closed y ! dcancel y")
          (auto simp: dl_set_def isClosedChan_def make_cancel_def intro: fresh [of "TimerSet u"] same [of "TimerSet u"])
    next
      case False
      with Some assms s show thesis
        by (cases "closed y ! dcancel y") (auto simp: dl_set_def isClosedChan_def close_chan_def intro: past [of u] still [of u])
    qed
  qed
qed

lemma dl_set_inv:
  assumes "dl_inv y" and "dl_set t y = Ret y'"
  shows "dl_inv y'"
  using assms(2)
proof (cases rule: dl_set_cases)
  case (fresh T)
  have old: "closed y ! c" if "c < length (closed y)" for c using assms(1) fresh(1) that unfolding dl_inv_def by blast
  have "c = length (closed y) \<or> (closed y @ [False]) ! c" if "c < Suc (length (closed y))" for c
    using old [of c] that by (auto simp: nth_append less_Suc_eq)
  with fresh assms(1) show ?thesis by (auto simp: dl_inv_def list_all_iff intro: less_SucI)
next
  case (past u)
  with assms(1) show ?thesis by (auto simp: dl_inv_def nth_list_update)
qed (use assms(1) in \<open>auto simp: dl_inv_def\<close>)

lemma dl_callback_inv: "dl_inv y \<Longrightarrow> dl_callback y = Ret y' \<Longrightarrow> dl_inv y'"
  by (auto simp: dl_inv_def dl_callback_def close_chan_def nth_list_update split: dl_timer.splits if_splits)

lemma dl_reach_inv: "dl_reach y \<Longrightarrow> dl_inv y"
proof (induction rule: dl_reach.induct)
  case (time y t)
  then show ?case by (auto simp: dl_inv_def split: dl_timer.splits)
next
  case (expire y)
  then show ?case by (auto simp: dl_inv_def dl_expire_def split: dl_timer.splits)
next
  case (wait y)
  then show ?case by (cases "dtimer y") (simp_all add: dl_inv_def dl_wait_def)
qed (auto simp: dl_make_def intro: dl_set_inv dl_callback_inv, simp add: dl_inv_def)

section \<open>Refinement\<close>

text \<open>What \<open>Conn\<close> keeps of a deadline: a timer whose callback has not run is set.\<close>

definition dl_abs :: "deadline_sys \<Rightarrow> connDeadline" where
  "dl_abs y = \<lparr>timer = (case dtimer y of TimerNil \<Rightarrow> NoTimer | TimerSet t \<Rightarrow> Armed t | TimerExpired t \<Rightarrow> Armed t | TimerDone \<Rightarrow> Fired),
     cancel = closed y ! dcancel y\<rparr>"

lemma dl_abs_ok: "dl_inv y \<Longrightarrow> deadline_ok (dl_abs y)"
  by (auto simp: dl_inv_def dl_abs_def deadline_ok_def split: dl_timer.splits)

lemma dl_set_refines:
  assumes "dl_inv y" and "dl_set t y = Ret y'"
  shows "dl_abs y' = deadline_set (dclock y) (dl_abs y) t"
proof -
  have len: "dcancel y < length (closed y)" using assms(1) by (simp add: dl_inv_def)
  from assms(2) show ?thesis
    by (cases rule: dl_set_cases) (use len in \<open>auto simp: dl_abs_def deadline_set_def Let_def makeConnDeadline_def\<close>)
qed

lemma dl_set_waits: "dl_inv y \<Longrightarrow> dl_set t y = Blocks \<longleftrightarrow> (\<exists>u. dtimer y = TimerExpired u)"
  by (auto simp: dl_set_def dl_stop_def dl_inv_def close_chan_def Let_def split: dl_timer.splits option.splits if_splits)

lemma dl_set_panics: "dl_inv y \<Longrightarrow> dl_set t y \<noteq> Panics p"
  by (auto simp: dl_set_def dl_stop_def close_chan_def isClosedChan_def Let_def split: dl_timer.splits option.splits if_splits)

lemma dl_callback_refines:
  assumes "dl_inv y" and "dtimer y = TimerExpired u"
  shows "\<exists>y'. dl_callback y = Ret y' \<and> deadline_fire (dclock y) (dl_abs y) = Ret (dl_abs y') \<and> closed y' ! dcancel y' \<and> dl_inv y'"
proof -
  have "dl_callback y = Ret (y\<lparr>closed := (closed y)[dcancel y := True], dtimer := TimerDone\<rparr>)"
    using assms by (simp add: dl_callback_def close_chan_def dl_inv_def)
  with assms dl_callback_inv [OF assms(1)] show ?thesis
    by (auto simp: deadline_fire_def dl_abs_def dl_inv_def)
qed

text \<open>
  C23. Deadlines behave as their callers think, goroutines and all. In every state that calls of \<^verbatim>\<open>set\<close> and \<^verbatim>\<open>wait\<close>, the passing of
  time, expiring timers and their callbacks can bring about: neither \<^verbatim>\<open>set\<close> nor a callback panics by closing a closed
  channel; \<^verbatim>\<open>set\<close> waits exactly when a timer has expired whose callback has not run, and then the callback can run and \<^verbatim>\<open>set\<close>
  returns after it; \<^verbatim>\<open>set\<close> and the callback do what the abstract deadline of the Conn model does; and a channel that \<^verbatim>\<open>wait\<close> has
  handed out is still the one the deadline closes, or it has been closed: no reader or writer waits on a channel that
  nobody will close.
\<close>

theorem deadlines_refine:
  assumes "dl_reach y"
  shows "(\<forall>t p. dl_set t y \<noteq> Panics p) \<and> (\<forall>p. dl_callback y \<noteq> Panics p)
    \<and> (\<forall>t y'. dl_set t y = Ret y' \<longrightarrow> dl_abs y' = deadline_set (dclock y) (dl_abs y) t)
    \<and> (\<forall>t. dl_set t y = Blocks \<longrightarrow> (\<exists>y' y''. dl_callback y = Ret y' \<and> deadline_fire (dclock y) (dl_abs y) = Ret (dl_abs y') \<and> dl_set t y' = Ret y''))
    \<and> list_all (\<lambda>c. c = dcancel y \<or> isClosedChan c y) (waiters y)"
proof (intro conjI allI impI)
  note inv = dl_reach_inv [OF assms]
  show "dl_set t y \<noteq> Panics p" for t p by (rule dl_set_panics [OF inv])
  show "dl_callback y \<noteq> Panics p" for p
    using dl_callback_refines [OF inv] by (cases "dtimer y") (auto simp: dl_callback_def)
  show "dl_abs y' = deadline_set (dclock y) (dl_abs y) t" if "dl_set t y = Ret y'" for t y' using inv that by (rule dl_set_refines)
  show "\<exists>y' y''. dl_callback y = Ret y' \<and> deadline_fire (dclock y) (dl_abs y) = Ret (dl_abs y') \<and> dl_set t y' = Ret y''"
    if "dl_set t y = Blocks" for t
  proof -
    from that dl_set_waits [OF inv] obtain u where "dtimer y = TimerExpired u" by blast
    from dl_callback_refines [OF inv this] obtain y' where y': "dl_callback y = Ret y'" "deadline_fire (dclock y) (dl_abs y) = Ret (dl_abs y')"
      "closed y' ! dcancel y'" "dl_inv y'" by blast
    then have "dl_set t y' \<noteq> Blocks" using dl_set_waits [OF y'(4), of t] by (auto simp: dl_inv_def)
    then obtain y'' where "dl_set t y' = Ret y''" using dl_set_panics [OF y'(4), of t] by (cases "dl_set t y'") auto
    with y' show ?thesis by blast
  qed
  show "list_all (\<lambda>c. c = dcancel y \<or> isClosedChan c y) (waiters y)"
    using inv by (auto simp: dl_inv_def list_all_iff isClosedChan_def)
qed

text \<open>A reader waits, the deadline passes, and it is set anew before the callback has run.\<close>

definition late_deadline :: deadline_sys where
  "late_deadline = \<lparr>dtimer = TimerExpired 5, dcancel = 0, closed = [False], waiters = [0], dclock = 7\<rparr>"

theorem deadlines_refine_witness:
  "dl_set (Some 9) late_deadline = Blocks \<and> (\<exists>y' y''. dl_callback late_deadline = Ret y' \<and> dl_set (Some 9) y' = Ret y'')"
proof -
  have "dl_set (Some 5) (dl_make 3) = Ret ((dl_make 3)\<lparr>dtimer := TimerSet 5\<rparr>)"
    by (simp add: dl_set_def dl_stop_def dl_make_def isClosedChan_def Let_def)
  from dl_reach.set [OF dl_reach.make this] have "dl_reach (dl_expire ((snd (dl_wait ((dl_make 3)\<lparr>dtimer := TimerSet 5\<rparr>)))\<lparr>dclock := 7\<rparr>))"
    by (intro dl_reach.expire dl_reach.time dl_reach.wait) (simp_all add: dl_wait_def dl_make_def)
  moreover have "dl_expire ((snd (dl_wait ((dl_make 3)\<lparr>dtimer := TimerSet 5\<rparr>)))\<lparr>dclock := 7\<rparr>) = late_deadline"
    by (simp add: dl_expire_def dl_wait_def dl_make_def late_deadline_def)
  ultimately have r: "dl_reach late_deadline" by simp
  have b: "dl_set (Some 9) late_deadline = Blocks" by (simp add: dl_set_def dl_stop_def late_deadline_def)
  with deadlines_refine [OF r] show ?thesis by blast
qed

end
