(* ===== verification/Muxer.thy ===== *)
theory Muxer
  imports Conn_Wire
begin

unbundle bit_operations_syntax

text \<open>
  \<^verbatim>\<open>src/muxer.go\<close>. A Muxer carries many Conns over one stream: it hands incoming frames to the Conn
  they name, writes the frames of all Conns to the stream in the order they are handed over,
  answers control frames, and keeps the Conns that are not in use. This theory holds the
  definitions; their laws are in \<open>Muxer_Laws\<close>.
\<close>

section \<open>State\<close>

text \<open>
  A Conn is an object: \<open>heap\<close> is the store and a reference is an index into it, so that the lookup
  table, the channel of unused Conns and the users of the Muxer can share one.
\<close>

type_synonym connref = nat

text \<open>
  The part of the Muxer that its Conns reach through \<^verbatim>\<open>ConnMuxer\<close> and the recycle callback: the frames
  handed over on the unbuffered \<^verbatim>\<open>writeCh\<close> so far, whether the writing goroutine is there to take the
  next one, whether \<^verbatim>\<open>doneChan\<close> is closed, and the buffered channel \<^verbatim>\<open>conns\<close> with its capacity.
\<close>

record mux_chans =
  writeCh :: "FrameData list"
  writing :: bool
  doneChan :: bool
  conns :: "connref list"
  conns_cap :: nat

text \<open>
  \<open>collector\<close> is an optional \<^verbatim>\<open>StatsCollector\<close> with the bytes it has been told of, read and written;
  \<open>readers\<close> the count of \<^verbatim>\<open>readerWaitGroup\<close>; \<open>closeErr\<close> what closing the stream reports; \<open>spawned\<close> the
  Conns on which a goroutine has been started with \<^verbatim>\<open>Serve\<close>, oldest first. Times are in nanoseconds.
\<close>

record Muxer =
  chans :: mux_chans
  heap :: "mux_chans conn list"
  connLookup :: "connref option list"
  connLastID :: int
  ReadTimeout :: int
  WriteTimeout :: int
  hasHandler :: bool
  collector :: "(nat \<times> nat) option"
  mu :: bool
  readers :: nat
  streamClosed :: bool
  closeErr :: "goerr option"
  lastPingSent :: i64
  lastPongRcvd :: i64
  latency :: i64
  spawned :: "connref list"
  serials :: u32
  mpool :: frame_pool
  now :: int
  mchoices :: "nat \<Rightarrow> nat"
  mtick :: nat

definition lock_mu :: "(Muxer \<Rightarrow> ('a \<times> Muxer) go) \<Rightarrow> Muxer \<Rightarrow> ('a \<times> Muxer) go" where
  "lock_mu f x = (if mu x then Blocks else bnd (f (x\<lparr>mu := True\<rparr>)) (\<lambda>(r, x). Ret (r, x\<lparr>mu := False\<rparr>)))"

section \<open>What Conns use\<close>

text \<open>
  \<^verbatim>\<open>ConnWrite\<close>: a \<^verbatim>\<open>select\<close> between handing the frame over and a closed \<^verbatim>\<open>doneChan\<close>; the first argument picks.
\<close>

definition Muxer_ConnWrite :: "nat \<Rightarrow> FrameData \<Rightarrow> mux_chans \<Rightarrow> (goerr option \<times> mux_chans) go" where
  "Muxer_ConnWrite k fd m =
     (let ready = (if writing m then [True] else []) @ (if doneChan m then [False] else []) in
      if ready = [] then Blocks
      else if ready ! (k mod length ready) then Ret (None, m\<lparr>writeCh := writeCh m @ [fd]\<rparr>)
      else Ret (Some ServerClosedError, m))"

definition ConnAbortChannel :: "mux_chans \<Rightarrow> bool" where
  "ConnAbortChannel m = doneChan m"

definition muxer_conns :: "mux_chans ConnMuxer" where
  "muxer_conns = \<lparr>ConnWrite = Muxer_ConnWrite, ConnAborted = ConnAbortChannel\<rparr>"

definition ConnRelease :: "connref \<Rightarrow> mux_chans \<Rightarrow> mux_chans go" where
  "ConnRelease c m =
     (if length (conns m) < conns_cap m then Ret (m\<lparr>conns := conns m @ [c]\<rparr>)
      else Panics (PanicMsg ''can't release Conn''))"

text \<open>A method of the Conn \<open>c\<close>, run on the Conn's fields and the parts of the Muxer it shares.\<close>

definition conn_view :: "mux_chans conn \<Rightarrow> Muxer \<Rightarrow> mux_chans sys" where
  "conn_view c x = conn.extend c (sys.fields (chans x) (mpool x) (now x) (mchoices x) (mtick x))"

definition put_conn :: "connref \<Rightarrow> mux_chans sys \<Rightarrow> Muxer \<Rightarrow> Muxer" where
  "put_conn c s x = x\<lparr>chans := mux s, heap := (heap x)[c := conn.truncate s], mpool := pool s, mtick := tick s\<rparr>"

definition on_conn :: "connref \<Rightarrow> (mux_chans sys \<Rightarrow> ('a \<times> mux_chans sys) go) \<Rightarrow> Muxer \<Rightarrow> ('a \<times> Muxer) go" where
  "on_conn c f x =
     (if c < length (heap x) then bnd (f (conn_view (heap x ! c) x)) (\<lambda>(r, s). Ret (r, put_conn c s x))
      else Panics NilDeref)"

section \<open>Making Conns\<close>

definition alloc_conn :: "rap_config \<Rightarrow> ConnID \<Rightarrow> Muxer \<Rightarrow> (connref \<times> Muxer) go" where
  "alloc_conn E i x =
     bnd (NewConn E i (serials x + 1) (chans x) (mpool x) (now x) (mchoices x)) (\<lambda>s.
       Ret (length (heap x), x\<lparr>heap := heap x @ [conn.truncate s], serials := serials x + 1\<rparr>))"

fun fill_lookup :: "rap_config \<Rightarrow> nat list \<Rightarrow> Muxer \<Rightarrow> Muxer go" where
  "fill_lookup E [] x = Ret x"
| "fill_lookup E (i # is) x =
     bnd (alloc_conn E (of_nat i) x) (\<lambda>(c, x). fill_lookup E is (x\<lparr>connLookup := (connLookup x)[i := Some c]\<rparr>))"

definition NewMuxer :: "rap_config \<Rightarrow> u32 \<Rightarrow> frame_pool \<Rightarrow> int \<Rightarrow> (nat \<Rightarrow> nat) \<Rightarrow> Muxer go" where
  "NewMuxer E serial p t orc =
     fill_lookup E [0..<Suc (unat (MaxConnID E))]
       \<lparr>chans = \<lparr>writeCh = [], writing = False, doneChan = False, conns = [], conns_cap = unat (MaxConnID E)\<rparr>,
        heap = [], connLookup = replicate (Suc (unat (MaxConnID E))) None, connLastID = 0,
        ReadTimeout = DefaultReadTimeout, WriteTimeout = DefaultWriteTimeout, hasHandler = False, collector = None,
        mu = False, readers = 0, streamClosed = False, closeErr = None, lastPingSent = 0, lastPongRcvd = 0, latency = 0,
        spawned = [], serials = serial, mpool = p, now = t, mchoices = orc, mtick = 0\<rparr>"

text \<open>
  \<^verbatim>\<open>NewConn\<close> of a Muxer: a Conn from the channel, or else one with the next ID (the compare-and-swap
  loop ends in its first round unless another goroutine takes that ID, and then it is a call later).
\<close>

definition Muxer_NewConn :: "rap_config \<Rightarrow> Muxer \<Rightarrow> (connref option \<times> Muxer) go" where
  "Muxer_NewConn E x =
     (case conns (chans x) of
        c # cs \<Rightarrow> Ret (Some c, x\<lparr>chans := (chans x)\<lparr>conns := cs\<rparr>\<rparr>)
      | [] \<Rightarrow>
          if connLastID x \<ge> int (unat (MaxConnID E)) then Ret (None, x)
          else let nextID = connLastID x + 1; x = x\<lparr>connLastID := nextID\<rparr> in
            bnd (alloc_conn E (word_of_int nextID) x) (\<lambda>(c, x).
            bnd (on_conn c (OnRecycle (Some (ConnRelease c))) x) (\<lambda>(_, x).
            bnd (put (connLookup x) (nat nextID) (Some c)) (\<lambda>tbl.
              Ret (Some c, x\<lparr>connLookup := tbl\<rparr>)))))"

text \<open>\<^verbatim>\<open>NewConnWait\<close>: what other goroutines do while it waits is \<open>meanwhile\<close>; if that releases no Conn, the timer fires.\<close>

definition NewConnWait :: "rap_config \<Rightarrow> (Muxer \<Rightarrow> Muxer) \<Rightarrow> Muxer \<Rightarrow> (connref option \<times> Muxer) go" where
  "NewConnWait E meanwhile x =
     bnd (Muxer_NewConn E x) (\<lambda>(co, x).
       if co = None then
         let x = meanwhile x in
         case conns (chans x) of
           c # cs \<Rightarrow> Ret (Some c, x\<lparr>chans := (chans x)\<lparr>conns := cs\<rparr>\<rparr>)
         | [] \<Rightarrow> Ret (None, x)
       else Ret (co, x))"

definition AvailableConns :: "rap_config \<Rightarrow> Muxer \<Rightarrow> int" where
  "AvailableConns E x =
     int (length (conns (chans x))) +
     (if connLastID x < int (unat (MaxConnID E)) then int (unat (MaxConnID E)) - connLastID x else 0)"

definition getConn :: "rap_config \<Rightarrow> ConnID \<Rightarrow> Muxer \<Rightarrow> connref option go" where
  "getConn E i x = (if i > MaxConnID E then Ret None else idx (connLookup x) (unat i))"

section \<open>Control frames\<close>

definition mux_write :: "FrameData \<Rightarrow> Muxer \<Rightarrow> (goerr option \<times> Muxer) go" where
  "mux_write fd x =
     bnd (Muxer_ConnWrite (mchoices x (mtick x)) fd (chans x)) (\<lambda>(err, m).
       Ret (err, x\<lparr>chans := m, mtick := Suc (mtick x)\<rparr>))"

definition free_mux :: "FrameData \<Rightarrow> Muxer \<Rightarrow> Muxer" where
  "free_mux fd x = x\<lparr>mpool := FrameDataFree (Some fd) (mpool x)\<rparr>"

definition muxerControlPingHandler :: "FrameData \<Rightarrow> Muxer \<Rightarrow> (goerr option \<times> Muxer) go" where
  "muxerControlPingHandler fd x =
     bnd (on_header (\<lambda>fh. SetMuxerControl fh MuxerControlPong) fd) (\<lambda>fd. mux_write fd x)"

definition muxerControlPongHandler :: "FrameData \<Rightarrow> Muxer \<Rightarrow> (goerr option \<times> Muxer) go" where
  "muxerControlPongHandler fd x =
     (let t = word_of_int (now x); x = x\<lparr>lastPongRcvd := t\<rparr> in
      bnd (HasPayload (fbytes fd)) (\<lambda>pay.
      bnd (if pay then bnd (NewFrameParser fd) (\<lambda>fp. bnd (ReadInt64 fp) (\<lambda>(sent, _). Ret (x\<lparr>latency := t - sent\<rparr>)))
           else Ret x) (\<lambda>x. Ret (None, free_mux fd x))))"

definition muxerControlPanicHandler :: "FrameData \<Rightarrow> Muxer \<Rightarrow> (goerr option \<times> Muxer) go" where
  "muxerControlPanicHandler fd x =
     bnd (HasPayload (fbytes fd)) (\<lambda>pay.
     bnd (if pay then bnd (NewFrameParser fd) (\<lambda>fp. bnd (ReadString fp) (\<lambda>(msg, _, _). Ret msg)) else Ret []) (\<lambda>msg.
       Ret (Some (PanicError msg), free_mux fd x)))"

definition muxerControlReservedHandler :: "FrameData \<Rightarrow> Muxer \<Rightarrow> (goerr option \<times> Muxer) go" where
  "muxerControlReservedHandler fd x = Ret (Some ProtocolError, free_mux fd x)"

definition muxerControlHandlers :: "MuxerControl \<Rightarrow> FrameData \<Rightarrow> Muxer \<Rightarrow> (goerr option \<times> Muxer) go" where
  "muxerControlHandlers mc =
     (if mc = MuxerControlPanic then muxerControlPanicHandler
      else if mc = MuxerControlPing then muxerControlPingHandler
      else if mc = MuxerControlPong then muxerControlPongHandler
      else muxerControlReservedHandler)"

definition Ping :: "rap_config \<Rightarrow> Muxer \<Rightarrow> (unit \<times> Muxer) go" where
  "Ping E x =
     bnd (FrameDataAlloc (mpool x)) (\<lambda>(fd, p).
     bnd (WriteMuxerControl fd MuxerControlPing) (\<lambda>fd.
       let x = x\<lparr>mpool := p, lastPingSent := word_of_int (now x)\<rparr>;
           fd = WriteInt64 E fd (lastPingSent x) in
       bnd (FrameData_SetSizeValue fd) (\<lambda>fd.
       bnd (mux_write fd x) (\<lambda>(err, x).
         Ret ((), if err = None then x else free_mux fd x)))))"

definition Latency :: "Muxer \<Rightarrow> i64" where
  "Latency x =
     (if sint (lastPingSent x) > 0 \<and> sint (lastPingSent x) \<le> sint (lastPongRcvd x)
      then lastPongRcvd x - lastPingSent x else 0)"

section \<open>Reading from the stream\<close>

text \<open>\<^verbatim>\<open>mux.StatsCollector.AddBytesRead(n)\<close> and \<^verbatim>\<open>AddBytesWritten(n)\<close>.\<close>

definition AddBytesRead :: "nat \<Rightarrow> Muxer \<Rightarrow> Muxer" where
  "AddBytesRead n x = x\<lparr>collector := map_option (\<lambda>(r, w). (r + n, w)) (collector x)\<rparr>"

definition AddBytesWritten :: "nat \<Rightarrow> Muxer \<Rightarrow> Muxer" where
  "AddBytesWritten n x = x\<lparr>collector := map_option (\<lambda>(r, w). (r, w + n)) (collector x)\<rparr>"

text \<open>
  A frame for a Conn: when it is the first one, the deadlines are set (a timeout of zero clears
  them) and a goroutine is started with \<^verbatim>\<open>Serve\<close> if there is a handler. A nil entry of the lookup
  table is dereferenced.
\<close>

definition start_conn :: "Muxer \<Rightarrow> mux_chans sys \<Rightarrow> (bool \<times> mux_chans sys) go" where
  "start_conn x s =
     (case starting s of (first, s) \<Rightarrow>
        if first then
          let s = snd (SetReadDeadline (if ReadTimeout x \<noteq> 0 then Some (now x + ReadTimeout x) else None) s);
              s = snd (SetWriteDeadline (if WriteTimeout x \<noteq> 0 then Some (now x + WriteTimeout x) else None) s)
          in Ret (True, s)
        else Ret (False, s))"

definition dispatch_conn :: "rap_config \<Rightarrow> FrameData \<Rightarrow> Muxer \<Rightarrow> Muxer go" where
  "dispatch_conn E fd x =
     bnd (ConnIDOf (fbytes fd)) (\<lambda>i.
     bnd (idx (connLookup x) (unat i)) (\<lambda>co.
       case co of
         None \<Rightarrow> Panics NilDeref
       | Some c \<Rightarrow>
           bnd (on_conn c (start_conn x) x) (\<lambda>(first, x).
             let x = (if first \<and> hasHandler x then x\<lparr>spawned := spawned x @ [c]\<rparr> else x) in
             bnd (on_conn c (\<lambda>s. map_go (Pair ()) (SubmitFrame E (Some fd) s)) x) (\<lambda>(_, x). Ret x))))"

definition dispatch :: "rap_config \<Rightarrow> FrameData \<Rightarrow> Muxer \<Rightarrow> (goerr option \<times> Muxer) go" where
  "dispatch E fd x =
     bnd (IsMuxerControl (fbytes fd)) (\<lambda>ctl.
       if ctl then bnd (MuxerControlOf (fbytes fd)) (\<lambda>mc. muxerControlHandlers mc fd x)
       else bnd (dispatch_conn E fd x) (\<lambda>x. Ret (None, x)))"

text \<open>One frame off the stream, and the accounting of what was read.\<close>

definition report_read :: "nat \<Rightarrow> nat \<Rightarrow> Muxer \<Rightarrow> nat \<times> Muxer" where
  "report_read unreported m x =
     (if collector x \<noteq> None then
        let u = unreported + m in
        if u > 0 \<and> (m = 0 \<or> u > FrameMaxSize) then (0, AddBytesRead u x) else (u, x)
      else (unreported, x))"

partial_function (option) ReadFrom_loop ::
  "rap_config \<Rightarrow> reader \<Rightarrow> nat \<Rightarrow> nat \<Rightarrow> Muxer \<Rightarrow> ((nat \<times> goerr option \<times> reader) \<times> Muxer) go option" where
  "ReadFrom_loop E r n unreported x =
     (case bnd (FrameDataAlloc (mpool x)) (\<lambda>(fd, p).
             bnd (FrameData_ReadFrom fd r) (\<lambda>(fd, m, err, r). Ret (fd, m, err, r, x\<lparr>mpool := p\<rparr>))) of
        Ret (fd, m, err, r, x) \<Rightarrow>
          (case report_read unreported m x of (unreported, x) \<Rightarrow>
             if m = 0 \<and> doneChan (chans x) \<or> err \<noteq> None then Some (Ret ((n + m, err, r), free_mux fd x))
             else (case dispatch E fd x of
                     Ret (err, x) \<Rightarrow>
                       if err \<noteq> None then Some (Ret ((n + m, err, r), x))
                       else ReadFrom_loop E r (n + m) unreported x
                   | Panics p \<Rightarrow> Some (Panics p)
                   | Blocks \<Rightarrow> Some Blocks))
      | Panics p \<Rightarrow> Some (Panics p)
      | Blocks \<Rightarrow> Some Blocks)"

definition Muxer_ReadFrom :: "rap_config \<Rightarrow> reader \<Rightarrow> Muxer \<Rightarrow> ((nat \<times> goerr option \<times> reader) \<times> Muxer) go" where
  "Muxer_ReadFrom E r x =
     (if mu x then Blocks
      else if doneChan (chans x) then Ret ((0, None, r), x)
      else bnd (run_loop (ReadFrom_loop E r 0 0 (x\<lparr>readers := readers x + 1\<rparr>)))
             (\<lambda>(res, x). Ret (res, x\<lparr>readers := readers x - 1\<rparr>)))"

section \<open>Writing to the stream\<close>

text \<open>
  What the writing goroutine meets at its two \<^verbatim>\<open>select\<close> statements, round by round: a frame that is
  waiting already, or none, in which case it flushes its output and then waits for a frame or for
  \<^verbatim>\<open>doneChan\<close>; or a closed \<^verbatim>\<open>doneChan\<close> at the first one; or a nil frame at the first one, which sends
  it to the second one without the flush. A nil frame at the second one (\<^const>\<open>None\<close>) ends the loop.
\<close>

datatype write_event = WaitingFrame FrameData | DoneClosed | LateFrame "FrameData option" | LateDone
  | NilThenFrame "FrameData option" | NilThenDone

text \<open>The optional \<^verbatim>\<open>Flush\<close> of the output, run when nothing is waiting.\<close>

definition flush_output ::
  "('w \<Rightarrow> goerr option \<times> 'w) option \<Rightarrow> nat \<Rightarrow> 'w \<Rightarrow> Muxer \<Rightarrow> goerr option \<times> nat \<times> 'w \<times> Muxer" where
  "flush_output fl unreported w x =
     (case fl of
        None \<Rightarrow> (None, unreported, w, x)
      | Some f \<Rightarrow>
          (case f w of (err, w) \<Rightarrow>
             if err = None \<and> collector x \<noteq> None \<and> unreported > 0 then (None, 0, w, AddBytesWritten unreported x)
             else (err, unreported, w, x)))"

text \<open>The write of one frame, with the reporting of what has been written.\<close>

definition write_frame ::
  "'w writer \<Rightarrow> FrameData \<Rightarrow> nat \<Rightarrow> 'w \<Rightarrow> Muxer \<Rightarrow> (nat \<times> goerr option \<times> nat \<times> 'w \<times> Muxer) go" where
  "write_frame wr fd unreported w x =
     bnd (FrameData_WriteTo wr fd w) (\<lambda>(w, written, err).
       let x = free_mux fd x in
       if collector x \<noteq> None then
         let u = unreported + written in
         if u > FrameMaxSize then Ret (written, err, 0, w, AddBytesWritten u x) else Ret (written, err, u, w, x)
       else Ret (written, err, unreported, w, x))"

definition finish_output :: "('w \<Rightarrow> goerr option \<times> 'w) option \<Rightarrow> nat \<Rightarrow> goerr option \<Rightarrow> 'w \<Rightarrow> Muxer
     \<Rightarrow> ((nat \<times> goerr option \<times> 'w) \<times> Muxer) go" where
  "finish_output fl n err w x =
     (case fl of
        None \<Rightarrow> Ret ((n, err, w), x)
      | Some f \<Rightarrow> (case f w of (ferr, w) \<Rightarrow> Ret ((n, if err = None then ferr else err, w), x)))"

fun WriteTo_loop ::
  "'w writer \<Rightarrow> ('w \<Rightarrow> goerr option \<times> 'w) option \<Rightarrow> write_event list \<Rightarrow> nat \<Rightarrow> nat \<Rightarrow> 'w \<Rightarrow> Muxer
     \<Rightarrow> ((nat \<times> goerr option \<times> 'w) \<times> Muxer) go" where
  "WriteTo_loop wr fl [] n unreported w x = Blocks"
| "WriteTo_loop wr fl (WaitingFrame fd # es) n unreported w x =
     bnd (write_frame wr fd unreported w x) (\<lambda>(written, err, unreported, w, x).
       if err = None then WriteTo_loop wr fl es (n + written) unreported w x
       else finish_output fl (n + written) err w x)"
| "WriteTo_loop wr fl (DoneClosed # es) n unreported w x = Ret ((0, Some ServerClosedError, w), x)"
| "WriteTo_loop wr fl (LateFrame fdo # es) n unreported w x =
     (case flush_output fl unreported w x of (err, unreported, w, x) \<Rightarrow>
        if err \<noteq> None then finish_output fl n err w x
        else (case fdo of
                None \<Rightarrow> finish_output fl n None w x
              | Some fd \<Rightarrow>
                  bnd (write_frame wr fd unreported w x) (\<lambda>(written, err, unreported, w, x).
                    if err = None then WriteTo_loop wr fl es (n + written) unreported w x
                    else finish_output fl (n + written) err w x)))"
| "WriteTo_loop wr fl (LateDone # es) n unreported w x =
     (case flush_output fl unreported w x of (err, unreported, w, x) \<Rightarrow>
        finish_output fl n (if err \<noteq> None then err else Some ServerClosedError) w x)"
| "WriteTo_loop wr fl (NilThenFrame fdo # es) n unreported w x =
     (case fdo of
        None \<Rightarrow> finish_output fl n None w x
      | Some fd \<Rightarrow>
          bnd (write_frame wr fd unreported w x) (\<lambda>(written, err, unreported, w, x).
            if err = None then WriteTo_loop wr fl es (n + written) unreported w x
            else finish_output fl (n + written) err w x))"
| "WriteTo_loop wr fl (NilThenDone # es) n unreported w x = finish_output fl n (Some ServerClosedError) w x"

definition Muxer_WriteTo ::
  "'w writer \<Rightarrow> ('w \<Rightarrow> goerr option \<times> 'w) option \<Rightarrow> write_event list \<Rightarrow> 'w \<Rightarrow> Muxer
     \<Rightarrow> ((nat \<times> goerr option \<times> 'w) \<times> Muxer) go" where
  "Muxer_WriteTo wr fl es w x = WriteTo_loop wr fl es 0 0 w x"

section \<open>Closing\<close>

definition isClosed :: "Muxer \<Rightarrow> bool" where
  "isClosed x = doneChan (chans x)"

definition isClosedError :: "goerr option \<Rightarrow> bool" where
  "isClosedError err \<longleftrightarrow> err = Some ServerClosedError \<or> err = Some ErrClosedPipe \<or> err = Some ErrEOF"

definition closeDoneChanLocked :: "Muxer \<Rightarrow> bool \<times> Muxer" where
  "closeDoneChanLocked x =
     (if doneChan (chans x) then (False, x) else (True, x\<lparr>chans := (chans x)\<lparr>doneChan := True\<rparr>\<rparr>))"

definition closeDoneChan :: "Muxer \<Rightarrow> (bool \<times> Muxer) go" where
  "closeDoneChan = lock_mu (\<lambda>x. Ret (closeDoneChanLocked x))"

text \<open>
  Closing the stream makes the reading goroutine stop with an error, as the source has it, which ends
  the wait of \<^verbatim>\<open>readerWaitGroup\<close>: \<open>readers\<close> is 0 afterwards. A method runs as a whole here, so whenever
  \<^verbatim>\<open>Close\<close> runs, a reading goroutine is at its read of the stream; one that is held up inside \<^verbatim>\<open>ReadFrom\<close>, by
  a mutex of a Conn whose owner does not give it back, would make the code wait, and is outside the model.
\<close>

definition closeReaderLocked :: "Muxer \<Rightarrow> goerr option \<times> Muxer" where
  "closeReaderLocked x = (closeErr x, x\<lparr>streamClosed := True, readers := 0\<rparr>)"

definition closeReader :: "Muxer \<Rightarrow> (goerr option \<times> Muxer) go" where
  "closeReader = lock_mu (\<lambda>x. Ret (closeReaderLocked x))"

text \<open>The Conns in the channel are taken out one by one and forgotten.\<close>

fun drop_idle :: "connref list \<Rightarrow> Muxer \<Rightarrow> Muxer go" where
  "drop_idle [] x = Ret x"
| "drop_idle (c # cs) x =
     bnd (on_conn c (OnRecycle None) (x\<lparr>chans := (chans x)\<lparr>conns := cs\<rparr>\<rparr>)) (\<lambda>(_, x).
     bnd (put (connLookup x) (unat (connID (heap x ! c))) None) (\<lambda>tbl.
       drop_idle cs (x\<lparr>connLookup := tbl\<rparr>)))"

definition closeIdleConnsLocked :: "Muxer \<Rightarrow> (bool \<times> Muxer) go" where
  "closeIdleConnsLocked x =
     bnd (drop_idle (conns (chans x)) x) (\<lambda>x. Ret (list_all (\<lambda>co. co = None) (connLookup x), x))"

definition closeIdleConns :: "Muxer \<Rightarrow> (bool \<times> Muxer) go" where
  "closeIdleConns = lock_mu closeIdleConnsLocked"

fun close_active :: "rap_config \<Rightarrow> nat list \<Rightarrow> goerr option \<Rightarrow> Muxer \<Rightarrow> (goerr option \<times> Muxer) go" where
  "close_active E [] err x = Ret (err, x)"
| "close_active E (i # is) err x =
     bnd (idx (connLookup x) i) (\<lambda>co.
       case co of
         None \<Rightarrow> close_active E is err x
       | Some c \<Rightarrow>
           bnd (on_conn c (Close E muxer_conns) (x\<lparr>connLookup := (connLookup x)[i := None]\<rparr>)) (\<lambda>(eerr, x).
             close_active E is (if err = None \<and> \<not> isClosedError eerr then eerr else err) x))"

definition closeActiveConnsLocked :: "rap_config \<Rightarrow> Muxer \<Rightarrow> (goerr option \<times> Muxer) go" where
  "closeActiveConnsLocked E x = close_active E [0..<length (connLookup x)] None x"

definition Muxer_Close :: "rap_config \<Rightarrow> Muxer \<Rightarrow> (goerr option \<times> Muxer) go" where
  "Muxer_Close E = lock_mu (\<lambda>x.
     case closeDoneChanLocked x of (first, x) \<Rightarrow>
       if first then
         (case closeReaderLocked x of (err, x) \<Rightarrow>
            bnd (closeIdleConnsLocked x) (\<lambda>(_, x).
            bnd (closeActiveConnsLocked E x) (\<lambda>(err2, x).
              Ret (if err2 \<noteq> None \<and> err = None then err2 else err, x))))
       else Ret (None, x))"

text \<open>
  \<^verbatim>\<open>Shutdown\<close>: \<open>meanwhile k\<close> is what other goroutines do between rounds \<open>k\<close> and \<open>k + 1\<close> of its loop, and the
  ticker fires in round \<open>rounds\<close>. \<^verbatim>\<open>time.NewTicker\<close> panics unless its period is positive.
\<close>

fun Shutdown_loop :: "rap_config \<Rightarrow> (nat \<Rightarrow> Muxer \<Rightarrow> Muxer) \<Rightarrow> nat \<Rightarrow> Muxer \<Rightarrow> (goerr option \<times> Muxer) go" where
  "Shutdown_loop E meanwhile k x =
     bnd (closeIdleConns x) (\<lambda>(idle, x).
       if idle then Ret (None, x)
       else case k of
         0 \<Rightarrow> bnd (Muxer_Close E x) (\<lambda>(_, x). Ret (Some TimeoutError, x))
       | Suc k \<Rightarrow> Shutdown_loop E meanwhile k (meanwhile k x))"

definition Muxer_Shutdown :: "rap_config \<Rightarrow> (nat \<Rightarrow> Muxer \<Rightarrow> Muxer) \<Rightarrow> nat \<Rightarrow> Muxer \<Rightarrow> (goerr option \<times> Muxer) go" where
  "Muxer_Shutdown E meanwhile rounds x =
     bnd (closeDoneChan x) (\<lambda>(first, x).
       if ReadTimeout x \<le> 0 then Panics (PanicMsg ''non-positive interval for NewTicker'')
       else bnd (Shutdown_loop E meanwhile rounds x) (\<lambda>(err, x).
         if first then bnd (closeReader x) (\<lambda>(_, x). Ret (err, x)) else Ret (err, x)))"

text \<open>
  \<^verbatim>\<open>ServeHTTP\<close> starts the reading and the writing goroutine and waits for both: \<open>err\<close> is the result of the
  one that ends first, when the Muxer is in state \<open>x\<close>, and \<open>otherErr\<close> that of the other one.
\<close>

definition Muxer_ServeHTTP :: "rap_config \<Rightarrow> goerr option \<Rightarrow> goerr option \<Rightarrow> Muxer \<Rightarrow> (goerr option \<times> Muxer) go" where
  "Muxer_ServeHTTP E err otherErr x =
     bnd (if \<not> isClosed x then
            bnd (Muxer_Close E x) (\<lambda>(closeErr, x).
              Ret (if closeErr \<noteq> None \<and> (err = None \<or> isClosedError err) then closeErr else err, x))
          else Ret (err, x)) (\<lambda>(err, x).
       Ret (if otherErr \<noteq> None \<and> err = None then otherErr else err, x))"

end
