(* ===== verification/Conn_Exchange.thy ===== *)
theory Conn_Exchange
  imports Conn_Http
begin

text \<open>
  The two ends of one exchange on a Conn, over any muxer that takes every frame: the server's end answers a
  request and closes, the client's end takes the response, finds the end of the body, closes and is recycled.
\<close>

context accepting_muxer
begin

section \<open>The server's end\<close>

text \<open>
  A handler that answers a request with a status and a header: \<^verbatim>\<open>Serve\<close> acknowledges the request, sends the
  response, and closes the Conn.
\<close>

lemma Serve_answers:
  assumes "conn_inv E s" and "minv (mux s)" and "cfp s = []" and "readCh s = [fd]" and "\<not> cancel (readDeadline s)"
    and "writable s" and "fdw s = None" and "0 < credit s" and "\<not> hijacked s" and "onRecycle s = None"
    and "record_frame RecordTypeHTTPRequest (enc_request r np) fd" and "request_ok r" and "string_ok np" and "url_Parse auth np = Some u"
    and "\<And>t. h (received r np u) t = map_go snd (RW_WriteHeader E (int code) rw t)"
    and "\<not> wroteHeader rw" and "HeaderMap rw = Some m" and "map_of m ''Content-Length'' = None"
    and "code \<le> 0x7fff" and "kvv_ok m" and "length (enc_response code m (- 1)) \<le> FrameMaxPayloadSize - 1"
  shows "\<exists>s' ack resp fin. Serve E M auth h s = Ret (None, s') \<and> sent (mux s') = sent (mux s) @ [ack, resp, fin]
    \<and> wire_frame (connID s) ack \<and> is_ack ack
    \<and> wire_frame (connID s) resp \<and> is_data resp \<and> record_frame RecordTypeHTTPResponse (enc_response code m (- 1)) resp
    \<and> wire_frame (connID s) fin \<and> is_final fin
    \<and> conn_inv E s' \<and> minv (mux s') \<and> same_place s s' \<and> localClosed s' \<and> \<not> remoteSentFinal s' \<and> readCh s' = [] \<and> credit s' = credit s - 1
    \<and> runstate s' = runStateWaitFin"
proof -
  have nl: "\<not> localClosed s" using assms(6) by (simp add: writable_def)
  have rq: "record_frame RecordTypeHTTPRequest (enc_request r np @ []) fd" using assms(11) by simp
  from Serve_takes_request [OF accepting_muxer_axioms assms(1-5) nl rq assms(12-14), of h] obtain s1 ack where
    s1: "conn_inv E s1" "minv (mux s1)" "read_changes s s1" "readCh s1 = []" "sent (mux s1) = sent (mux s) @ [ack]" "wire_frame (connID s) ack" "is_ack ack"
    and sv: "Serve E M auth h s = bnd (bnd (h (received r np u) s1) (Flush E M))
        (\<lambda>(err, s2). bnd (closeIfNotHijacked E M s2) (\<lambda>(_, s3). Ret (err, s3)))" by blast
  have w1: "writable s1" "fdw s1 = None" "0 < credit s1" "\<not> hijacked s1" "onRecycle s1 = None" "connID s1 = connID s"
    using s1(3) assms(6-10) by (simp_all add: read_changes_def writable_def credit_def)
  from WriteResponseData_puts [OF s1(1,2) w1(1,2) assms(19-21)] obtain p fdr hh where
    wr: "WriteResponseData E (int code) (- 1) m s1 = Ret (None, s1\<lparr>pool := p, fdw := Some fdr\<rparr>)"
    "conn_inv E (s1\<lparr>pool := p, fdw := Some fdr\<rparr>)" "hdr_ok hh" "h_head hh" "fbytes fdr = hdr_bytes hh @ RecordTypeHTTPResponse # enc_response code m (- 1)"
    by blast
  let ?s2 = "s1\<lparr>pool := p, fdw := Some fdr\<rparr>"
  have hr: "h (received r np u) s1 = Ret ?s2" unfolding assms(15) using wr(1) assms(16-18) by (simp add: RW_WriteHeader_def Let_def)
  have o: "open_frame (connID s) fdr" using core_fdwD [OF inv_core [OF wr(2)], of fdr] w1(6) by simp
  have len: "length (fbytes fdr) \<le> FrameMaxSize" using assms(21) by (simp add: wr(5) frame_sizes)
  note rec = sized_record [OF o wr(5,3,4) len]
  have hd: "h_head (fhdr fdr)" using wr(3-5) by simp
  have s2: "minv (mux ?s2)" "writable ?s2" "0 < credit ?s2" "fdw ?s2 = Some fdr" using s1(2) w1(1,3) by (simp_all add: writable_def credit_def)
  from Flush_sends [OF wr(2) s2 len hd] obtain s3 where f: "Flush E M ?s2 = Ret (None, s3)"
    "sent (mux s3) = sent (mux s) @ [ack, Conn_Laws.sized fdr]" "conn_inv E s3" "minv (mux s3)" "write_changes ?s2 s3" "fdw s3 = None"
    "credit s3 = credit s - 1" using s1(3,5) by (auto simp: read_changes_def credit_def)
  have pl: "same_place s s3" "readCh s3 = []" using f(5) s1(3,4) by (simp_all add: same_place_def write_changes_def read_changes_def)
  have w3: "\<not> hijacked s3" "onRecycle s3 = None" "\<not> localClosed s3" "\<not> remoteSentFinal s3" "connID s3 = connID s" "\<not> has_pending s3"
    using f(5,6) w1 by (simp_all add: write_changes_def writable_def has_pending_def)
  from Close_returns [OF f(3,4) w3(2)] obtain e s4 where c: "Close E M s3 = Ret (e, s4)" by auto
  have "recycle_ok s3" using w3(2) by (simp add: recycle_ok_def)
  from Close_safe [OF f(3,4) this] c w3(3,4,6) have c4: "conn_inv E s4" "localClosed s4" "final_sent s3 s4 False"
    "same_place s3 s4" "runstate s4 = runStateWaitFin" "\<not> remoteSentFinal s4" "readCh s4 = readCh s3" "lost s3 s4" "minv (mux s4)" by simp_all
  then obtain fin where fin: "sent (mux s4) = sent (mux s3) @ [fin]" "wire_frame (connID s) fin" "is_final fin"
    using never_aborted w3(5) by (auto simp: final_sent_def)
  have "Serve E M auth h s = Ret (None, s4)" unfolding sv hr using f(1) c w3(1) by (simp add: closeIfNotHijacked_def)
  moreover have "same_place s s4" using pl(1) c4(4) by (simp add: same_place_def)
  moreover have "credit s4 = credit s - 1" using c4(8) f(7) never_aborted by (auto simp: lost_def)
  ultimately show ?thesis using fin f(2) s1(6,7) rec c4 pl(2) by (intro exI [of _ s4] exI [of _ ack] exI [of _ "Conn_Laws.sized fdr"] exI [of _ fin]) simp
qed


section \<open>The client's end\<close>

text \<open>The client takes a response out of its queue.\<close>

lemma ProxyResponse_takes:
  assumes "conn_inv E s" and "minv (mux s)" and "cfp s = []" and "readCh s = fd # fds" and "\<not> cancel (readDeadline s)" and "\<not> localClosed s"
    and "record_frame RecordTypeHTTPResponse (enc_response code m cl) fd" and "code \<le> 0x7fff" and "kvv_ok m" and "http_header m" and "rw_header w = []"
  obtains s' ack where "Conn_ProxyResponse E M w s = Ret ((code, None, w\<lparr>rw_header := with_length m cl, rw_status := rw_status w @ [code]\<rparr>), s')"
    and "conn_inv E s'" and "read_changes s s'" and "minv (mux s')" and "readCh s' = fds" and "cfp s' = []"
    and "sent (mux s') = sent (mux s) @ [ack]" and "wire_frame (connID s) ack" and "is_ack ack"
proof -
  let ?s = "s\<lparr>rmu := True\<rparr>"
  note v = record_frame_view [OF assms(7)]
  have s: "conn_core E ?s" "minv (mux ?s)" "cfp ?s = []" "readCh ?s = fd # fds" "drop 4 (fbytes fd) \<noteq> []"
    "\<not> cancel (readDeadline ?s)" "\<not> localClosed ?s" "\<not> rmu s" using assms(1-6) v by (simp_all add: conn_inv_def)
  from loadFrameReader_acks [OF s(1-7)] obtain s1 ack where l: "loadFrameReader E M ?s = Ret (None, s1)" "fdr s1 = Some fd"
    "cfp s1 = RecordTypeHTTPResponse # enc_response code m cl" "readCh s1 = fds" "read_post E ?s s1"
    "sent (mux s1) = sent (mux s) @ [ack]" "wire_frame (connID s) ack" "is_ack ack" by (auto simp: v)
  have p: "FrameParser_ProxyResponse (enc_response code m cl) w = Ret (code, w\<lparr>rw_header := with_length m cl, rw_status := rw_status w @ [code]\<rparr>, [])"
    using ProxyResponse_enc [OF assms(8-11), of cl "[]"] by simp
  let ?s' = "s1\<lparr>cfp := [], rmu := False\<rparr>"
  have r: "Conn_ProxyResponse E M w s = Ret ((code, None, w\<lparr>rw_header := with_length m cl, rw_status := rw_status w @ [code]\<rparr>), ?s')"
    using l(1-3) s(8) v(2) p by (simp add: Conn_ProxyResponse_def lock_rmu_def)
  from unlock_r [OF assms(1) read_post_cfp [OF l(5), of "[]"]] have "conn_inv E ?s'" "read_changes s ?s'" "minv (mux ?s')"
    by (simp_all add: reader_post_def read_post_def)
  with r l show thesis by (intro that [of ?s' ack]) simp_all
qed

text \<open>With the response taken and the peer's final frame in, the body is at its end: there is nothing to copy, and no error.\<close>

lemma WriteTo_at_end:
  assumes "conn_inv E s" and "minv (mux s)" and "cfp s = []" and "readCh s = []" and "readChClosed s" and "\<not> cancel (readDeadline s)" and "\<not> localClosed s"
  obtains s' where "Conn_WriteTo E M wr w s = Ret ((w, 0, None), s')" and "conn_inv E s'" and "read_changes s s'" and "mux s' = mux s"
    and "readCh s' = []"
proof -
  let ?s = "s\<lparr>rmu := True\<rparr>"
  define s0 where "s0 = (if fdr ?s \<noteq> None then (free_frame (fdr ?s) ?s)\<lparr>fdr := None, cfp := []\<rparr> else ?s)"
  let ?t = "s0\<lparr>tick := Suc (tick s0), fdr := None\<rparr>"
  have core: "conn_core E s" "\<not> rmu s" "localSentFinal s = localClosed s" "\<not> wmu s" "\<not> cmu s" using assms(1) by (simp_all add: conn_inv_def)
  then have s0: "mux s0 = mux s" "readCh s0 = []" "readChClosed s0" "\<not> cancel (readDeadline s0)" "\<not> localClosed s0" "cfp s0 = []" "rmu s0"
    "conn_core E ?t" "read_changes ?s ?t"
    using assms(3-7) by (auto simp: s0_def free_frame_def conn_core_def read_changes_def)
  have "read_ready M s0 = [CaseRead]" using s0 assms(2) by (simp add: read_ready_def never_aborted)
  then have "readFrame E M ?s = Ret (Some ErrEOF, ?t)"
    using s0(2) unfolding readFrame_def Let_def s0_def [symmetric] by (simp add: select_def)
  then have "loadFrameReader E M ?s = Ret (Some ErrEOF, ?t)" using assms(3) by (simp add: loadFrameReader.simps)
  then have h: "writeToHelper E M wr w s = Ret ((w, 0, Some ErrEOF), ?t\<lparr>rmu := False\<rparr>)"
    using core(2) by (simp add: writeToHelper_def lock_rmu_def)
  have "Conn_WriteTo E M wr w s = Ret ((w, 0, None), ?t\<lparr>rmu := False\<rparr>)"
    by (simp add: Conn_WriteTo_def run_loop_def writeTo_loop.simps h)
  moreover have ch: "read_changes s (?t\<lparr>rmu := False\<rparr>)" using s0(9) core(2) by (simp add: read_changes_def)
  moreover have "conn_inv E (?t\<lparr>rmu := False\<rparr>)" using s0(8) ch assms(1) by (auto simp: conn_inv_def read_changes_def)
  ultimately show thesis using s0(1,2) by (intro that [of "?t\<lparr>rmu := False\<rparr>"]) simp_all
qed

text \<open>
  Closing after the peer: the final frame goes out and the Conn, back to what a new one is, is handed to its
  owner, who finds the muxer as the final frame left it.
\<close>

lemma Close_recycles:
  assumes "conn_inv E s" and "minv (mux s)" and "\<not> localClosed s" and "remoteSentFinal s" and "fdw s = None"
    and "onRecycle s = Some f" and "\<And>m. minv m \<Longrightarrow> \<exists>m'. f m = Ret m' \<and> sent m' = sent m"
  obtains s' m fin where "Close E M s = Ret (None, s')" and "conn_inv E s'" and "like_new E s'" and "same_place s s'"
    and "minv m" and "sent m = sent (mux s) @ [fin]" and "wire_frame (connID s) fin" and "is_final fin" and "f m = Ret (mux s')"
proof -
  let ?s = "s\<lparr>cmu := True, localClosed := True, wmu := True, rmu := True\<rparr>"
  have s: "conn_core E ?s" "minv (mux ?s)" "localClosed ?s" "\<not> localSentFinal ?s" "\<not> wmu s" "\<not> rmu s" "\<not> cmu s"
    using assms(1-3) by (simp_all add: conn_inv_def)
  from writeFinalLocked_returns [OF s(1-3)] obtain err s1 where w: "writeFinalLocked E M True ?s = Ret (err, s1)" by (metis surj_pair)
  have np: "\<not> has_pending ?s" "\<not> has_pending s" using assms(5) by (simp_all add: has_pending_def)
  from writeFinalLocked_safe [OF s(1-4), of True] w np
  have c: "write_changes (?s\<lparr>localSentFinal := True\<rparr>) s1" "fdw s1 = None" "minv (mux s1)" "final_sent ?s s1 True" by simp_all
  from c(4) never_aborted obtain fin where fin: "sent (mux s1) = sent (mux s) @ [fin]" "wire_frame (connID s) fin" "is_final fin"
    by (auto simp: final_sent_def)
  from assms(7) [OF c(3)] obtain m' where m': "f (mux s1) = Ret m'" by blast
  have "\<exists>s2. recycleLocked E s1 = Ret s2 \<and> mux s2 = m'"
    using c(1,2) m' assms(4,6) by (simp add: recycleLocked_def canRecycleLocked_def forceRecycleLocked_def Let_def fold_free_frame write_changes_def)
  then obtain s2 where "recycleLocked E s1 = Ret s2" "mux s2 = m'" by blast
  then obtain s' where cl: "Close E M s = Ret (None, s')" "mux s' = m'"
    using assms(3,4) s w by (auto simp: Close_def lock_cmu_def lock_wmu_def lock_rmu_def)
  have "recycle_ok s" unfolding recycle_ok_def
  proof (intro allI impI)
    fix g m assume "onRecycle s = Some g" "minv m"
    with assms(6) assms(7) [of m] show "safe (g m) (\<lambda>m'. sent m' = sent m)" by auto
  qed
  from Close_safe [OF assms(1,2) this] cl(1) assms(3,4) have "conn_inv E s'" "like_new E s'" "same_place s s'" by simp_all
  with cl fin c(3) m' show thesis by (intro that [of s' "mux s1" fin]) simp_all
qed

end

end
