(* ===== verification/Muxer_Laws.thy ===== *)
theory Muxer_Laws
  imports Muxer Conn_Exchange "HOL-Library.Multiset"
begin

unbundle bit_operations_syntax

text \<open>
  The laws of a Muxer: that it is what its Conns rely on (the locale \<open>conn_muxer\<close>, interpreted here),
  and who holds which Conn. The laws of its two loops are in \<open>Muxer_Stream\<close>, those of closing it in
  \<open>Muxer_Close\<close>.
\<close>

section \<open>The contract with the Conns\<close>

text \<open>There is room in the channel of unused Conns.\<close>

definition conns_free :: "mux_chans \<Rightarrow> bool" where
  "conns_free m \<longleftrightarrow> length (conns m) < conns_cap m"

lemma muxer_conns_sel [simp]: "ConnWrite muxer_conns = Muxer_ConnWrite" "ConnAborted muxer_conns = doneChan"
  by (simp_all add: muxer_conns_def fun_eq_iff ConnAbortChannel_def)

lemma Muxer_ConnWrite_cases:
  "Muxer_ConnWrite k fd m = Blocks \<and> \<not> writing m \<and> \<not> doneChan m
   \<or> Muxer_ConnWrite k fd m = Ret (None, m\<lparr>writeCh := writeCh m @ [fd]\<rparr>) \<and> writing m
   \<or> Muxer_ConnWrite k fd m = Ret (Some ServerClosedError, m) \<and> doneChan m"
proof -
  have "k mod 2 = 0 \<or> k mod 2 = Suc 0" by arith
  then show ?thesis by (cases "writing m"; cases "doneChan m") (auto simp: Muxer_ConnWrite_def Let_def numeral_2_eq_2)
qed

interpretation mux_conn: conn_muxer muxer_conns conns_free writeCh
proof
  fix m fd k
  show "safe (ConnWrite muxer_conns k fd m) (\<lambda>(err, m'). conns_free m' \<and>
      (if err = None then writeCh m' = writeCh m @ [fd]
       else writeCh m' = writeCh m \<and> err = Some ServerClosedError \<and> ConnAborted muxer_conns m))"
    if "conns_free m" "frame_ok (fbytes fd)"
    using that Muxer_ConnWrite_cases [of k fd m] by (auto simp: conns_free_def)
qed

lemma ConnRelease_ok: "onRecycle s = None \<or> onRecycle s = Some (ConnRelease c) \<Longrightarrow> mux_conn.recycle_ok s"
  by (auto simp: mux_conn.recycle_ok_def ConnRelease_def conns_free_def)

text \<open>While its writing goroutine runs and nothing has closed it, a Muxer takes every frame of its Conns.\<close>

definition mux_running :: "mux_chans \<Rightarrow> bool" where
  "mux_running m \<longleftrightarrow> writing m \<and> \<not> doneChan m"

interpretation mux_run: accepting_muxer muxer_conns mux_running writeCh
proof
  fix m fd k
  assume m: "mux_running m"
  have run: "Muxer_ConnWrite k fd m = Ret (None, m\<lparr>writeCh := writeCh m @ [fd]\<rparr>)"
    using m Muxer_ConnWrite_cases [of k fd m] by (auto simp: mux_running_def)
  with m show "safe (ConnWrite muxer_conns k fd m) (\<lambda>(err, m'). mux_running m' \<and>
      (if err = None then writeCh m' = writeCh m @ [fd]
       else writeCh m' = writeCh m \<and> err = Some ServerClosedError \<and> ConnAborted muxer_conns m))"
    by (simp add: mux_running_def)
  show "\<exists>m'. ConnWrite muxer_conns k fd m = Ret (None, m')" using run by simp
  show "\<not> ConnAborted muxer_conns m" using m by (simp add: mux_running_def)
qed

section \<open>Objects\<close>

lemma conn_view_sel [simp]:
  "mux (conn_view k x) = chans x" "pool (conn_view k x) = mpool x" "clock (conn_view k x) = now x"
  "choices (conn_view k x) = mchoices x" "tick (conn_view k x) = mtick x"
  "conn.truncate (conn_view k x) = k" "connID (conn_view k x) = connID k" "onRecycle (conn_view k x) = onRecycle k"
  by (cases k; simp add: conn_view_def conn.defs sys.defs)+

lemma put_conn_sel [simp]:
  "chans (put_conn c s x) = mux s" "heap (put_conn c s x) = (heap x)[c := conn.truncate s]" "mpool (put_conn c s x) = pool s"
  "connLookup (put_conn c s x) = connLookup x" "connLastID (put_conn c s x) = connLastID x"
  "mu (put_conn c s x) = mu x" "ReadTimeout (put_conn c s x) = ReadTimeout x"
  by (simp_all add: put_conn_def)

lemma truncate_sel [simp]: "connID (conn.truncate s) = connID s" "onRecycle (conn.truncate s) = onRecycle s"
  by (cases s; simp add: conn.defs)+

section \<open>Who holds which Conn\<close>

text \<open>
  The Conns a Muxer has handed out (\<open>out\<close>) and has ready again are different objects with different
  IDs, all of them made by \<^verbatim>\<open>NewConn\<close> and entered in the lookup table under their ID; every ID up to
  \<^verbatim>\<open>connLastID\<close> is in one of the two places.
\<close>

definition ids :: "Muxer \<Rightarrow> connref list \<Rightarrow> nat list" where
  "ids x cs = map (\<lambda>c. unat (connID (heap x ! c))) cs"

lemma ids_append: "ids x (as @ bs) = ids x as @ ids x bs" and ids_Cons: "ids x (a # as) = unat (connID (heap x ! a)) # ids x as"
  by (simp_all add: ids_def)

definition entered :: "Muxer \<Rightarrow> connref \<Rightarrow> bool" where
  "entered x c \<longleftrightarrow> c < length (heap x) \<and> onRecycle (heap x ! c) = Some (ConnRelease c)
     \<and> connLookup x ! unat (connID (heap x ! c)) = Some c"

definition hold_inv :: "rap_config \<Rightarrow> Muxer \<Rightarrow> connref list \<Rightarrow> bool" where
  "hold_inv E x out \<longleftrightarrow>
     MaxConnID E \<le> ProtocolMaxConnID \<and> conns_cap (chans x) = unat (MaxConnID E)
     \<and> 0 \<le> connLastID x \<and> connLastID x \<le> int (unat (MaxConnID E))
     \<and> length (connLookup x) = Suc (unat (MaxConnID E))
     \<and> list_all (entered x) (conns (chans x) @ out)
     \<and> distinct (ids x (conns (chans x) @ out))
     \<and> set (ids x (conns (chans x) @ out)) = {1..nat (connLastID x)}"

lemma hold_id:
  assumes "hold_inv E x out" and "c \<in> set (conns (chans x) @ out)"
  shows "unat (connID (heap x ! c)) \<le> unat (MaxConnID E)"
proof -
  have "unat (connID (heap x ! c)) \<in> set (ids x (conns (chans x) @ out))" using assms(2) unfolding ids_def by auto
  then have "unat (connID (heap x ! c)) \<le> nat (connLastID x)" using assms(1) unfolding hold_inv_def by simp
  moreover have "connLastID x \<le> int (unat (MaxConnID E))" using assms(1) unfolding hold_inv_def by blast
  ultimately show ?thesis by linarith
qed

lemma hold_counts:
  assumes "hold_inv E x out"
  shows "length (conns (chans x)) + length out = nat (connLastID x)"
proof -
  have "distinct (ids x (conns (chans x) @ out))" using assms by (simp add: hold_inv_def)
  then have "card (set (ids x (conns (chans x) @ out))) = length (conns (chans x) @ out)"
    by (simp only: distinct_card) (simp add: ids_def)
  moreover have "set (ids x (conns (chans x) @ out)) = {1..nat (connLastID x)}" using assms by (simp add: hold_inv_def)
  ultimately show ?thesis by simp
qed

lemma hold_available:
  assumes "hold_inv E x out"
  shows "AvailableConns E x = int (unat (MaxConnID E)) - int (length out)" and "length out \<le> unat (MaxConnID E)"
proof -
  have le: "0 \<le> connLastID x" "connLastID x \<le> int (unat (MaxConnID E))" using assms unfolding hold_inv_def by blast+
  have eq: "int (length (conns (chans x))) + int (length out) = connLastID x" using hold_counts [OF assms] le(1) by linarith
  then show "AvailableConns E x = int (unat (MaxConnID E)) - int (length out)" unfolding AvailableConns_def using le(2) by auto
  show "length out \<le> unat (MaxConnID E)" using eq le(2) by linarith
qed

lemma hold_perm:
  assumes "hold_inv E x out" and "mset (cs' @ out') = mset (conns (chans x) @ out)"
  shows "hold_inv E (x\<lparr>chans := (chans x)\<lparr>conns := cs'\<rparr>\<rparr>) out'"
proof -
  let ?old = "conns (chans x) @ out" and ?x = "x\<lparr>chans := (chans x)\<lparr>conns := cs'\<rparr>\<rparr>"
  have st: "set (cs' @ out') = set ?old" using assms(2) by (metis set_mset_mset)
  have "mset (ids x (cs' @ out')) = mset (ids x ?old)" using assms(2) unfolding ids_def mset_map by simp
  then have "distinct (ids x (cs' @ out')) = distinct (ids x ?old)" "set (ids x (cs' @ out')) = set (ids x ?old)"
    by (metis mset_eq_imp_distinct_iff, metis set_mset_mset)
  moreover have "ids ?x = ids x" "entered ?x = entered x" by (simp_all add: ids_def entered_def fun_eq_iff)
  ultimately show ?thesis using assms(1) st unfolding hold_inv_def list_all_iff by simp
qed

lemma small_id: "0 \<le> n \<Longrightarrow> n \<le> int (unat (MaxConnID E)) \<Longrightarrow> unat (word_of_int n :: ConnID) = nat n"
proof -
  assume "0 \<le> n" "n \<le> int (unat (MaxConnID E))"
  moreover have "int (unat (MaxConnID E)) < 65536" using unat_u16_bound [of "MaxConnID E"] by linarith
  ultimately have "take_bit 16 n = n" by (intro take_bit_int_eq_self) simp_all
  then show ?thesis by (simp add: unsigned_of_int)
qed

lemma alloc_conn_Ret:
  assumes "unat i \<le> unat (MaxConnID E)" and "MaxConnID E \<le> ProtocolMaxConnID"
  shows "\<exists>k. alloc_conn E i x = Ret (length (heap x), x\<lparr>heap := heap x @ [k], serials := serials x + 1\<rparr>)
    \<and> connID k = i \<and> onRecycle k = None \<and> \<not> cmu k"
proof -
  have "i \<le> ProtocolMaxConnID" using assms by (simp add: word_le_nat_alt)
  then have "\<not> MuxerConnID \<le> i" by (auto simp: ProtocolMaxConnID_def MuxerConnID_eq word_le_nat_alt)
  then show ?thesis by (auto simp: alloc_conn_def NewConn_def conn.defs)
qed

lemma hold_add:
  assumes "hold_inv E x out" and "take (length (heap x)) (heap x') = heap x" and "length (heap x') = Suc (length (heap x))"
    and "unat (connID (heap x' ! length (heap x))) = nat (connLastID x + 1)"
    and "onRecycle (heap x' ! length (heap x)) = Some (ConnRelease (length (heap x)))"
    and "chans x' = chans x" and "connLastID x' = connLastID x + 1"
    and "connLookup x' = (connLookup x)[nat (connLastID x + 1) := Some (length (heap x))]"
    and "connLastID x < int (unat (MaxConnID E))"
  shows "hold_inv E x' (length (heap x) # out)"
proof -
  let ?all = "conns (chans x) @ out" and ?c = "length (heap x)"
  have old: "heap x' ! d = heap x ! d" if "d < ?c" for d using assms(2) that by (metis nth_take)
  have lst: "list_all (entered x) ?all" using assms(1) by (simp add: hold_inv_def)
  have small: "c < ?c" if "c \<in> set ?all" for c using lst that by (auto simp: list_all_iff entered_def)
  then have "ids x' ?all = ids x ?all" using old unfolding ids_def by simp
  then have idl: "ids x' (conns (chans x)) = ids x (conns (chans x))" "ids x' out = ids x out" by (simp_all add: ids_def)
  have "0 \<le> connLastID x" using assms(1) by (simp add: hold_inv_def)
  then have new: "{1..nat (connLastID x + 1)} = insert (nat (connLastID x + 1)) {1..nat (connLastID x)}"
    "nat (connLastID x + 1) \<notin> {1..nat (connLastID x)}" "0 \<le> connLastID x + 1" by auto
  have nids: "ids x' (conns (chans x) @ ?c # out) = ids x (conns (chans x)) @ nat (connLastID x + 1) # ids x out"
    unfolding ids_append ids_Cons idl assms(4) ..
  have st: "set (ids x ?all) = {1..nat (connLastID x)}" and d: "distinct (ids x ?all)" using assms(1) by (simp_all add: hold_inv_def)
  have "entered x' c" if c: "c \<in> set ?all" for c
  proof -
    have "unat (connID (heap x ! c)) \<in> set (ids x ?all)" using c unfolding ids_def by auto
    then have "unat (connID (heap x ! c)) \<noteq> nat (connLastID x + 1)" using new(2) st by metis
    then show ?thesis using lst c small [OF c] old assms(3,6,8) unfolding list_all_iff entered_def by (simp del: set_append add: less_SucI)
  qed
  moreover have "nat (connLastID x + 1) < length (connLookup x)" using assms(1,9) unfolding hold_inv_def by linarith
  then have "entered x' ?c" using assms(3,4,5,8) by (simp add: entered_def)
  ultimately have rec: "list_all (entered x') (conns (chans x') @ ?c # out)" using assms(6) by (auto simp: list_all_iff)
  have "set (ids x' (conns (chans x) @ ?c # out)) = {1..nat (connLastID x + 1)}"
    unfolding nids new(1) st [symmetric] by (simp add: ids_append)
  moreover have "distinct (ids x' (conns (chans x) @ ?c # out))"
    unfolding nids using new(2) d unfolding st [symmetric] by (simp add: ids_append)
  moreover have "connLastID x + 1 \<le> int (unat (MaxConnID E))" using assms(9) by linarith
  ultimately show ?thesis using assms(1,3-8) new(3) rec unfolding hold_inv_def by simp
qed

lemma NewConn_fresh:
  assumes "hold_inv E x out" and "conns (chans x) = []" and "connLastID x < int (unat (MaxConnID E))"
  shows "\<exists>c x'. Muxer_NewConn E x = Ret (Some c, x') \<and> hold_inv E x' (c # out)"
proof -
  let ?n = "connLastID x + 1" and ?c = "length (heap x)" and ?x1 = "x\<lparr>connLastID := connLastID x + 1\<rparr>"
  have inv: "MaxConnID E \<le> ProtocolMaxConnID" "0 \<le> connLastID x" "length (connLookup x) = Suc (unat (MaxConnID E))"
    using assms(1,2) by (simp_all add: hold_inv_def)
  have id: "unat (word_of_int ?n :: ConnID) = nat ?n" using assms(3) inv(2) by (intro small_id [where E = E]) simp_all
  have "unat (word_of_int ?n :: ConnID) \<le> unat (MaxConnID E)" unfolding id using assms(3) by linarith
  from alloc_conn_Ret [OF this inv(1), of ?x1] obtain k where
    k: "alloc_conn E (word_of_int ?n) ?x1 = Ret (?c, ?x1\<lparr>heap := heap x @ [k], serials := serials x + 1\<rparr>)"
    "connID k = word_of_int ?n" "onRecycle k = None" "\<not> cmu k" by auto
  let ?x2 = "?x1\<lparr>heap := heap x @ [k], serials := serials x + 1\<rparr>"
  have "\<not> cmu (conn_view k ?x2)" using k(4) by (cases k) (simp add: conn_view_def conn.defs)
  then have rec: "on_conn ?c (OnRecycle (Some (ConnRelease ?c))) ?x2 =
      Ret ((), put_conn ?c ((conn_view k ?x2)\<lparr>onRecycle := Some (ConnRelease ?c), cmu := False\<rparr>) ?x2)"
    by (simp add: on_conn_def OnRecycle_def lock_cmu_def)
  let ?s = "(conn_view k ?x2)\<lparr>onRecycle := Some (ConnRelease ?c), cmu := False\<rparr>"
  let ?x3 = "(put_conn ?c ?s ?x2)\<lparr>connLookup := (connLookup x)[nat ?n := Some ?c]\<rparr>"
  have "nat ?n < length (connLookup x)" using assms(3) inv(2,3) by linarith
  then have run: "Muxer_NewConn E x = Ret (Some ?c, ?x3)"
    using assms(2,3) k(1) rec by (simp add: Muxer_NewConn_def put_def Let_def)
  have hp: "heap ?x3 = heap x @ [conn.truncate ?s]" by (simp add: list_update_append)
  have new: "heap ?x3 ! ?c = conn.truncate ?s" unfolding hp by (simp add: nth_append)
  have "unat (connID (heap ?x3 ! ?c)) = nat ?n" "onRecycle (heap ?x3 ! ?c) = Some (ConnRelease ?c)"
    unfolding new truncate_sel using k(2) id by simp_all
  moreover have "take (length (heap x)) (heap ?x3) = heap x" "length (heap ?x3) = Suc (length (heap x))"
    unfolding hp by simp_all
  ultimately have "hold_inv E ?x3 (?c # out)" using assms(3) by (intro hold_add [OF assms(1)]) simp_all
  with run show ?thesis by blast
qed

text \<open>What a Conn does to the rest, and what else changes nothing of who holds which Conn.\<close>

definition elsewhere :: "Muxer \<Rightarrow> Muxer \<Rightarrow> bool" where
  "elsewhere x x' \<longleftrightarrow>
     conns (chans x') = conns (chans x) \<and> conns_cap (chans x') = conns_cap (chans x)
     \<and> connLastID x' = connLastID x \<and> connLookup x' = connLookup x
     \<and> map connID (heap x') = map connID (heap x) \<and> map onRecycle (heap x') = map onRecycle (heap x)"

lemma elsewhere_nth:
  assumes "elsewhere x x'"
  shows "length (heap x') = length (heap x)"
    and "c < length (heap x) \<Longrightarrow> connID (heap x' ! c) = connID (heap x ! c) \<and> onRecycle (heap x' ! c) = onRecycle (heap x ! c)"
proof -
  have m: "map connID (heap x') = map connID (heap x)" "map onRecycle (heap x') = map onRecycle (heap x)"
    using assms by (simp_all add: elsewhere_def)
  show l: "length (heap x') = length (heap x)" using m(1) by (rule map_eq_imp_length_eq)
  show "connID (heap x' ! c) = connID (heap x ! c) \<and> onRecycle (heap x' ! c) = onRecycle (heap x ! c)"
    if "c < length (heap x)" using that l m by (metis nth_map)
qed

lemma hold_elsewhere:
  assumes "hold_inv E x out" and "elsewhere x x'"
  shows "hold_inv E x' out"
proof -
  have small: "c < length (heap x)" if "c \<in> set (conns (chans x) @ out)" for c
    using assms(1) that unfolding hold_inv_def list_all_iff entered_def by blast
  have ch: "connLastID x' = connLastID x" "connLookup x' = connLookup x" "conns (chans x') = conns (chans x)"
    "conns_cap (chans x') = conns_cap (chans x)" using assms(2) by (simp_all add: elsewhere_def)
  have "ids x' (conns (chans x) @ out) = ids x (conns (chans x) @ out)"
    unfolding ids_def using small elsewhere_nth(2) [OF assms(2)] by (intro map_cong) auto
  moreover have "list_all (entered x') (conns (chans x) @ out)"
    unfolding list_all_iff entered_def using assms(1) small elsewhere_nth [OF assms(2)] ch(2)
    unfolding hold_inv_def list_all_iff entered_def by metis
  ultimately show ?thesis using assms(1) unfolding hold_inv_def ch by simp
qed

lemma recycleLocked_releases:
  assumes "onRecycle s = Some (ConnRelease c)" and "recycleLocked E s = Ret s'"
  shows "mux s' = (mux s)\<lparr>conns := conns (mux s) @ [c]\<rparr> \<and> connID s' = connID s \<and> onRecycle s' = onRecycle s"
proof -
  have fr: "mux (fold (\<lambda>fd. free_frame (Some fd)) fds t) = mux t" "connID (fold (\<lambda>fd. free_frame (Some fd)) fds t) = connID t"
    "onRecycle (fold (\<lambda>fd. free_frame (Some fd)) fds t) = onRecycle t" for fds and t :: "mux_chans sys"
    by (induction fds arbitrary: t) (simp_all add: free_frame_def)
  show ?thesis using assms
    by (simp add: recycleLocked_def forceRecycleLocked_def Let_def fr ConnRelease_def split: option.splits if_splits)
       (auto simp: fr)
qed

text \<open>
  What is elsewhere: handing a frame to the writer, a ping, statistics, and every call on a Conn that does
  not recycle it, such as the first frame for it.
\<close>

lemma mux_write_elsewhere: "mux_write fd x = Ret (err, x') \<Longrightarrow> elsewhere x x'"
  using Muxer_ConnWrite_cases [of "mchoices x (mtick x)" fd "chans x"]
  by (auto simp: mux_write_def elsewhere_def)

lemma elsewhere_trans: "elsewhere x y \<Longrightarrow> elsewhere y z \<Longrightarrow> elsewhere x z"
  by (simp add: elsewhere_def)

lemma Ping_elsewhere:
  assumes "Ping E x = Ret ((), x')"
  shows "elsewhere x x'"
proof -
  from assms obtain fd p y err where w: "mux_write fd (x\<lparr>mpool := p, lastPingSent := word_of_int (now x)\<rparr>) = Ret (err, y)"
    "x' = (if err = None then y else free_mux fd y)"
    by (auto simp: Ping_def Let_def elim!: bnd_RetE)
  have "elsewhere x (x\<lparr>mpool := p, lastPingSent := word_of_int (now x)\<rparr>)" "elsewhere y x'"
    using w(2) by (simp_all add: elsewhere_def free_mux_def)
  with mux_write_elsewhere [OF w(1)] show ?thesis by (blast intro: elsewhere_trans)
qed

lemma stats_elsewhere: "elsewhere x (AddBytesRead n x)" "elsewhere x (AddBytesWritten n x)"
  by (simp_all add: elsewhere_def AddBytesRead_def AddBytesWritten_def)

lemma on_conn_elsewhere:
  assumes "on_conn c f x = Ret (r, x')"
    and "\<And>s s'. f s = Ret (r, s') \<Longrightarrow> connID s' = connID s \<and> onRecycle s' = onRecycle s
      \<and> conns (mux s') = conns (mux s) \<and> conns_cap (mux s') = conns_cap (mux s)"
  shows "elsewhere x x'"
proof -
  from assms(1) obtain s where s: "c < length (heap x)" "f (conn_view (heap x ! c) x) = Ret (r, s)" "x' = put_conn c s x"
    by (auto simp: on_conn_def elim!: bnd_RetE split: if_splits)
  from assms(2) [OF s(2)] show ?thesis
    using s(1) by (simp add: s(3) elsewhere_def map_update list_update_same_conv)
qed

lemma start_conn_elsewhere: "on_conn c (start_conn y) x = Ret (r, x') \<Longrightarrow> elsewhere x x'"
  by (rule on_conn_elsewhere)
    (auto simp: start_conn_def starting_def SetReadDeadline_def SetWriteDeadline_def Let_def split: if_splits)

text \<open>A Conn in use that recycles itself is back in the channel.\<close>

lemma hold_release:
  assumes "hold_inv E x out" and "c \<in> set out"
    and "on_conn c (\<lambda>s. map_go (Pair ()) (recycleLocked E s)) x = Ret ((), x')"
  shows "hold_inv E x' (remove1 c out)"
proof -
  have c: "c < length (heap x)" "onRecycle (heap x ! c) = Some (ConnRelease c)"
    using assms(1,2) by (auto simp: hold_inv_def list_all_iff entered_def)
  let ?v = "conn_view (heap x ! c) x"
  obtain s where s: "recycleLocked E ?v = Ret s" and x': "x' = put_conn c s x"
    using assms(3) c(1) by (cases "recycleLocked E ?v") (auto simp: on_conn_def map_go_bnd)
  have eff: "mux s = (chans x)\<lparr>conns := conns (chans x) @ [c]\<rparr>" "connID s = connID (heap x ! c)"
    "onRecycle s = onRecycle (heap x ! c)"
    using recycleLocked_releases [OF _ s] c(2) by simp_all
  let ?y = "x\<lparr>chans := (chans x)\<lparr>conns := conns (chans x) @ [c]\<rparr>\<rparr>"
  have "hold_inv E ?y (remove1 c out)" using assms(1,2) by (intro hold_perm) simp_all
  moreover have "elsewhere ?y x'"
    unfolding x' elsewhere_def using eff c(1) by (simp add: map_update list_update_same_conv)
  ultimately show ?thesis by (rule hold_elsewhere)
qed

lemma fill_lookup_keeps:
  "fill_lookup E is x = Ret x' \<Longrightarrow> chans x' = chans x \<and> connLastID x' = connLastID x \<and> length (connLookup x') = length (connLookup x)
    \<and> mu x' = mu x \<and> ReadTimeout x' = ReadTimeout x"
proof (induction "is" arbitrary: x)
  case (Cons i "is")
  from Cons.prems obtain s :: "mux_chans sys" where "fill_lookup E is (x\<lparr>heap := heap x @ [conn.truncate s], serials := serials x + 1,
      connLookup := (connLookup x)[i := Some (length (heap x))]\<rparr>) = Ret x'"
    by (auto simp: alloc_conn_def elim!: bnd_RetE)
  from Cons.IH [OF this] show ?case by simp
qed simp

lemma hold_start:
  assumes "NewMuxer E serial p t orc = Ret x" and "MaxConnID E \<le> ProtocolMaxConnID"
  shows "hold_inv E x []"
  using fill_lookup_keeps [OF assms(1) [unfolded NewMuxer_def]] assms(2) by (simp add: hold_inv_def ids_def)

inductive mux_reach :: "rap_config \<Rightarrow> Muxer \<Rightarrow> connref list \<Rightarrow> bool" for E where
  start: "NewMuxer E serial p t orc = Ret x \<Longrightarrow> mux_reach E x []"
| new: "mux_reach E x out \<Longrightarrow> Muxer_NewConn E x = Ret (Some c, x') \<Longrightarrow> mux_reach E x' (c # out)"
| release: "mux_reach E x out \<Longrightarrow> c \<in> set out
    \<Longrightarrow> on_conn c (\<lambda>s. map_go (Pair ()) (recycleLocked E s)) x = Ret ((), x') \<Longrightarrow> mux_reach E x' (remove1 c out)"
| other: "mux_reach E x out \<Longrightarrow> elsewhere x x' \<Longrightarrow> mux_reach E x' out"

lemma NewConn_step:
  assumes "hold_inv E x out"
  obtains (some) c x' where "Muxer_NewConn E x = Ret (Some c, x')" and "hold_inv E x' (c # out)"
  | (none) "Muxer_NewConn E x = Ret (None, x)" and "length out = unat (MaxConnID E)"
proof (cases "conns (chans x)")
  case (Cons c cs)
  then have "hold_inv E (x\<lparr>chans := (chans x)\<lparr>conns := cs\<rparr>\<rparr>) (c # out)" by (intro hold_perm [OF assms]) simp
  with Cons some show thesis by (simp add: Muxer_NewConn_def)
next
  case Nil
  show thesis
  proof (cases "connLastID x < int (unat (MaxConnID E))")
    case True
    with NewConn_fresh [OF assms Nil] some show thesis by blast
  next
    case False
    then have "length out = unat (MaxConnID E)" using hold_counts [OF assms] Nil assms unfolding hold_inv_def by simp
    with False Nil none show thesis by (simp add: Muxer_NewConn_def)
  qed
qed

lemma mux_reach_hold: "mux_reach E x out \<Longrightarrow> MaxConnID E \<le> ProtocolMaxConnID \<Longrightarrow> hold_inv E x out"
proof (induction rule: mux_reach.induct)
  case (new x out c x')
  from new.IH [OF new.prems] show ?case by (cases rule: NewConn_step) (use new.hyps(2) in auto)
qed (blast intro: hold_start hold_release hold_elsewhere)+

lemma fill_lookup_Ret:
  "list_all (\<lambda>i. i \<le> unat (MaxConnID E)) is \<Longrightarrow> MaxConnID E \<le> ProtocolMaxConnID \<Longrightarrow> \<exists>x'. fill_lookup E is x = Ret x'"
proof (induction "is" arbitrary: x)
  case (Cons i "is")
  have "unat (of_nat i :: ConnID) = i" using Cons.prems unat_u16_bound [of "MaxConnID E"]
    by (simp add: unat_of_nat take_bit_nat_eq_self)
  then have "unat (of_nat i :: ConnID) \<le> unat (MaxConnID E)" using Cons.prems by simp
  from alloc_conn_Ret [OF this Cons.prems(2), of x] obtain k where
    k: "alloc_conn E (of_nat i) x = Ret (length (heap x), x\<lparr>heap := heap x @ [k], serials := serials x + 1\<rparr>)" by blast
  with Cons show ?case by simp
qed simp

lemma NewMuxer_Ret: "MaxConnID E \<le> ProtocolMaxConnID \<Longrightarrow> \<exists>x. NewMuxer E serial p t orc = Ret x"
  unfolding NewMuxer_def by (intro fill_lookup_Ret) (auto simp: list_all_iff)

lemma sanity_ProtocolMax: "sanitycheck E \<Longrightarrow> MaxConnID E \<le> ProtocolMaxConnID"
  by (simp add: sanitycheck_def not_less)

text \<open>
  C8. The Conns of a Muxer are never given to two users. In every state it can get into by handing
  out Conns (\<^verbatim>\<open>NewConn\<close>), taking back recycled ones, and doing anything else that leaves its channel,
  counter and lookup table alone: the Conns handed out have different IDs; incoming frames for such
  an ID are looked up to that very Conn; \<^verbatim>\<open>AvailableConns\<close> is exactly \<^verbatim>\<open>MaxConnID\<close> less the Conns handed out;
  releasing a Conn that is handed out finds room and does not panic; and \<^verbatim>\<open>NewConn\<close> returns, with
  nil only when all \<^verbatim>\<open>MaxConnID\<close> Conns are handed out, and otherwise with a Conn whose ID none of
  the others has.
\<close>

theorem conns_never_shared:
  assumes "sanitycheck E" and "mux_reach E x out"
  shows "distinct (ids x out)
    \<and> AvailableConns E x = int (unat (MaxConnID E)) - int (length out)
    \<and> (\<forall>c\<in>set out. getConn E (connID (heap x ! c)) x = Ret (Some c) \<and> (\<exists>m. ConnRelease c (chans x) = Ret m))
    \<and> (\<exists>r x'. Muxer_NewConn E x = Ret (r, x') \<and> (r = None \<longleftrightarrow> length out = unat (MaxConnID E))
      \<and> (\<forall>c. r = Some c \<longrightarrow> unat (connID (heap x' ! c)) \<notin> set (ids x' out) \<and> mux_reach E x' (c # out)))"
proof (intro conjI)
  have inv: "hold_inv E x out" using assms by (intro mux_reach_hold sanity_ProtocolMax)
  show "distinct (ids x out)" using inv by (simp add: hold_inv_def ids_append)
  note cnt = hold_counts [OF inv]
  have le: "0 \<le> connLastID x" "connLastID x \<le> int (unat (MaxConnID E))" using inv unfolding hold_inv_def by blast+
  show "AvailableConns E x = int (unat (MaxConnID E)) - int (length out)" by (rule hold_available [OF inv])
  show "\<forall>c\<in>set out. getConn E (connID (heap x ! c)) x = Ret (Some c) \<and> (\<exists>m. ConnRelease c (chans x) = Ret m)"
  proof
    fix c
    assume c: "c \<in> set out"
    have id: "unat (connID (heap x ! c)) \<le> unat (MaxConnID E)" using hold_id [OF inv] c by simp
    then have "\<not> connID (heap x ! c) > MaxConnID E" by (simp add: word_less_nat_alt)
    moreover have "idx (connLookup x) (unat (connID (heap x ! c))) = Ret (Some c)"
      using inv c id unfolding hold_inv_def list_all_iff entered_def by (simp add: idx_def)
    moreover have "length out > 0" using c by (cases out) simp_all
    then have "length (conns (chans x)) < conns_cap (chans x)" using inv cnt le unfolding hold_inv_def by linarith
    ultimately show "getConn E (connID (heap x ! c)) x = Ret (Some c) \<and> (\<exists>m. ConnRelease c (chans x) = Ret m)"
      by (simp add: getConn_def ConnRelease_def)
  qed
  show "\<exists>r x'. Muxer_NewConn E x = Ret (r, x') \<and> (r = None \<longleftrightarrow> length out = unat (MaxConnID E))
      \<and> (\<forall>c. r = Some c \<longrightarrow> unat (connID (heap x' ! c)) \<notin> set (ids x' out) \<and> mux_reach E x' (c # out))"
    using inv
  proof (cases rule: NewConn_step)
    case (some c x')
    have "distinct (ids x' (c # out))" using some(2) by (simp add: hold_inv_def ids_append)
    moreover have "length out < unat (MaxConnID E)" using hold_counts [OF some(2)] some(2) unfolding hold_inv_def length_Cons by linarith
    ultimately show ?thesis using some(1) mux_reach.new [OF assms(2) some(1)] by (simp add: ids_Cons)
  qed simp
qed

theorem conns_never_shared_witness:
  "\<exists>x c. mux_reach rap_default x [c] \<and> AvailableConns rap_default x = 8189 \<and> getConn rap_default (connID (heap x ! c)) x = Ret (Some c)"
proof -
  have E: "sanitycheck rap_default" by simp
  obtain x where x: "NewMuxer rap_default 0 (pool_init rap_default) 0 (\<lambda>_. 0) = Ret x"
    using NewMuxer_Ret [OF sanity_ProtocolMax [OF E]] by blast
  from conns_never_shared [OF E mux_reach.start [OF x]] obtain c x' where
    r: "mux_reach rap_default x' [c]" by (auto simp: rap_default_def ProtocolMaxConnID_def MuxerConnID_eq)
  from conns_never_shared [OF E r] show ?thesis using r
    by (auto simp: rap_default_def ProtocolMaxConnID_def MuxerConnID_eq)
qed

end
