(* ===== verification/Muxer_Stream.thy ===== *)
theory Muxer_Stream
  imports Muxer_Laws
begin

unbundle bit_operations_syntax

text \<open>
  The two loops of a Muxer on its stream: the round trip of a ping, the reading loop, which hands
  every frame to its Conn in order and always ends, and the writing loop, which writes the frames of
  all Conns in the order they come.
\<close>

section \<open>Control frames\<close>

lemma SetMuxerControl_bytes:
  assumes "hdr_ok h"
  shows "SetMuxerControl (hdr_bytes h @ p) (ctl_byte f b g 0) =
     Ret (hdr_bytes \<lparr>h_size = h_size h, h_flow = f, h_body = b, h_head = g, h_id = 0x1fff\<rparr> @ p)"
proof -
  let ?h = "h\<lparr>h_flow := f, h_body := b, h_head := g\<rparr>"
  have "SetConnID (hdr_bytes ?h @ p) MuxerConnID = Ret (hdr_bytes (?h\<lparr>h_id := 0x1fff\<rparr>) @ p)"
    using assms by (subst hdr_write) (simp_all add: MuxerConnID_eq)
  then have "SetMuxerControl (hdr_bytes h @ p) (ctl_byte f b g 0) = Ret (hdr_bytes (?h\<lparr>h_id := 0x1fff\<rparr>) @ p)"
    using hdr_ok_id [OF assms]
    by (simp add: SetMuxerControl_def hdr_bytes_def FrameFlagMask_eq ctl_byte_masks(5) [simplified] ctl_byte_parts(2))
  moreover have "?h\<lparr>h_id := 0x1fff\<rparr> = \<lparr>h_size = h_size h, h_flow = f, h_body = b, h_head = g, h_id = 0x1fff\<rparr>" by simp
  ultimately show ?thesis by simp
qed

text \<open>The control frames of a ping and of its answer.\<close>

definition ctl_frame :: "bool \<Rightarrow> byte list \<Rightarrow> byte list" where
  "ctl_frame pong p = hdr_bytes \<lparr>h_size = length p, h_flow = False, h_body = True, h_head = pong, h_id = 0x1fff\<rparr> @ p"

lemma length_ctl_frame [simp]: "length (ctl_frame pong p) = 4 + length p"
  by (simp add: ctl_frame_def)

lemma control_bytes: "MuxerControlPing = ctl_byte False True False 0" "MuxerControlPong = ctl_byte False True True 0"
  "MuxerControlPanic = ctl_byte False False False 0"
  by (simp_all add: MuxerControlPing_def MuxerControlPong_def MuxerControlPanic_def flag_defs ctl_byte_def)

lemma ctl_frame_ok:
  assumes "length p < 60000"
  shows "frame_ok (ctl_frame pong p)" and "frame_wire (ctl_frame pong p) = ctl_frame pong p"
proof -
  let ?h = "\<lparr>h_size = length p, h_flow = False, h_body = True, h_head = pong, h_id = 0x1fff\<rparr>"
  have ok: "hdr_ok ?h" using assms by (simp add: hdr_ok_def)
  then show "frame_ok (ctl_frame pong p)" using assms by (simp add: frame_ok_def ctl_frame_def frame_sizes has_payload_def)
  show "frame_wire (ctl_frame pong p) = ctl_frame pong p"
    unfolding ctl_frame_def frame_wire_bytes [OF ok] by (simp add: has_payload_def)
qed

lemma mux_write_sends:
  assumes "writing (chans x)" and "\<not> doneChan (chans x)"
  shows "mux_write fd x = Ret (None, x\<lparr>chans := (chans x)\<lparr>writeCh := writeCh (chans x) @ [fd]\<rparr>, mtick := Suc (mtick x)\<rparr>)"
  using assms by (simp add: mux_write_def Muxer_ConnWrite_def)

lemma enc_int64_short: "length (enc_int64 v) < 60000"
proof -
  have "unat (zigzag v) < 2 ^ 64" using unsigned_less [of "zigzag v", where ?'a = nat] by simp
  then show ?thesis using length_enc_uint64 [of "zigzag v" 10] by (simp add: enc_int64_def)
qed

lemma Ping_sends:
  assumes "pool_ok (mpool x)" and "writing (chans x)" and "\<not> doneChan (chans x)"
  shows "\<exists>ping x'. Ping E x = Ret ((), x') \<and> writeCh (chans x') = writeCh (chans x) @ [ping]
    \<and> fbytes ping = ctl_frame False (enc_int64 (word_of_int (now x))) \<and> lastPingSent x' = word_of_int (now x)"
proof -
  let ?v = "word_of_int (now x) :: i64" and ?h = "\<lambda>n. \<lparr>h_size = n, h_flow = False, h_body = True, h_head = False, h_id = 0x1fff\<rparr>"
  from Alloc_empty [OF assms(1)] obtain fd p where fd: "FrameDataAlloc (mpool x) = Ret (fd, p)" "frame_room fd" .
  then have "4 \<le> fcap fd" by (simp add: frame_room_def frame_sizes)
  then obtain h s where h: "reslice fd FrameHeaderSize = Ret \<lparr>fbytes = hdr_bytes h, fspare = s\<rparr>" "hdr_ok h"
    by (rule reslice_header)
  then have ctl: "WriteMuxerControl fd MuxerControlPing = Ret \<lparr>fbytes = hdr_bytes (?h (h_size h)), fspare = s\<rparr>"
    using SetMuxerControl_bytes [OF h(2), of "[]"] by (simp add: WriteMuxerControl_def on_header_def control_bytes)
  define fd1 where "fd1 = WriteInt64 E \<lparr>fbytes = hdr_bytes (?h (h_size h)), fspare = s\<rparr> ?v"
  have fd1: "fbytes fd1 = hdr_bytes (?h (h_size h)) @ enc_int64 ?v" by (simp add: fd1_def)
  have ok: "hdr_ok (?h (h_size h))" using h(2) by (simp add: hdr_ok_def)
  have "FrameData_SetSizeValue fd1 = Ret (fd1\<lparr>fbytes := ctl_frame False (enc_int64 ?v)\<rparr>)"
    unfolding FrameData_SetSizeValue_def Let_def using hdr_write(4) [OF ok, of "enc_int64 ?v" "int (length (enc_int64 ?v))"]
      enc_int64_short [of ?v] by (simp add: fd1 frame_sizes on_header_def ctl_frame_def)
  then show ?thesis using assms fd(1) ctl
    by (simp add: Ping_def Let_def fd1_def [symmetric] mux_write_sends)
qed

lemma ping_dispatch:
  assumes "fbytes fd = ctl_frame False p" and "length p < 60000" and "writing (chans x)" and "\<not> doneChan (chans x)"
  shows "dispatch E fd x = Ret (None, x\<lparr>chans := (chans x)\<lparr>writeCh := writeCh (chans x) @ [fd\<lparr>fbytes := ctl_frame True p\<rparr>]\<rparr>,
    mtick := Suc (mtick x)\<rparr>)"
proof -
  let ?h = "\<lambda>g. \<lparr>h_size = length p, h_flow = False, h_body = True, h_head = g, h_id = 0x1fff\<rparr>"
  have ok: "hdr_ok (?h False)" using assms(2) by (simp add: hdr_ok_def)
  have "on_header (\<lambda>fh. SetMuxerControl fh MuxerControlPong) fd = Ret (fd\<lparr>fbytes := ctl_frame True p\<rparr>)"
    using SetMuxerControl_bytes [OF ok] by (simp add: on_header_def assms(1) ctl_frame_def control_bytes)
  then show ?thesis using assms hdr_classify [OF ok]
    by (simp add: dispatch_def ctl_frame_def muxerControlHandlers_def control_bytes ctl_byte_tests
      muxerControlPingHandler_def mux_write_sends)
qed

lemma pong_measured:
  assumes "fbytes fd = ctl_frame True (enc_int64 sent)"
  shows "\<exists>x'. dispatch E fd x = Ret (None, x') \<and> latency x' = word_of_int (now x) - sent
    \<and> lastPongRcvd x' = word_of_int (now x) \<and> lastPingSent x' = lastPingSent x"
proof -
  let ?h = "\<lparr>h_size = length (enc_int64 sent), h_flow = False, h_body = True, h_head = True, h_id = 0x1fff\<rparr>"
  have ok: "hdr_ok ?h" using enc_int64_short [of sent] by (simp add: hdr_ok_def)
  have "NewFrameParser fd = Ret (enc_int64 sent)"
    using slice_from_append [of "hdr_bytes ?h" "enc_int64 sent"]
    by (simp add: NewFrameParser_def Payload_def assms ctl_frame_def frame_sizes)
  moreover have "ReadInt64 (enc_int64 sent) = Ret (sent, [])" using ReadInt64_enc [of sent "[]"] by simp
  ultimately show ?thesis using hdr_classify [OF ok] hdr_payload [OF ok]
    by (simp add: dispatch_def assms ctl_frame_def muxerControlHandlers_def control_bytes ctl_byte_tests
      muxerControlPongHandler_def Let_def free_mux_def)
qed

lemma sint_i64_small: "0 \<le> t \<Longrightarrow> t < 2 ^ 63 \<Longrightarrow> sint (word_of_int t :: i64) = t"
  by (simp add: signed_of_int signed_take_bit_int_eq_self)

text \<open>
  C14. A ping comes back and measures the round trip. Sent while the writing goroutine takes frames,
  \<^verbatim>\<open>Ping\<close> puts one frame on the wire, whose bytes are a valid frame that the wire does not change; the
  peer's reader answers it with one frame, equally valid, and hands it to no Conn; and when the
  answer is read at time \<open>t\<close>, the Muxer records as latency exactly the time since the ping was sent,
  which \<^verbatim>\<open>Latency\<close> then returns, for every clock value that fits the 63 bits of a Unix time.
\<close>

theorem ping_measures_round_trip:
  assumes "pool_ok (mpool a)" and "writing (chans a)" and "\<not> doneChan (chans a)"
    and "writing (chans b)" and "\<not> doneChan (chans b)"
    and "0 < now a" and "now a \<le> t" and "t < 2 ^ 63"
  shows "\<exists>ping a'. Ping E a = Ret ((), a') \<and> writeCh (chans a') = writeCh (chans a) @ [ping]
    \<and> frame_ok (fbytes ping) \<and> frame_wire (fbytes ping) = fbytes ping
    \<and> (\<forall>fd. fbytes fd = fbytes ping \<longrightarrow> (\<exists>pong b'. dispatch E fd b = Ret (None, b')
        \<and> writeCh (chans b') = writeCh (chans b) @ [pong] \<and> heap b' = heap b
        \<and> frame_ok (fbytes pong) \<and> frame_wire (fbytes pong) = fbytes pong
        \<and> (\<forall>fd' x. fbytes fd' = fbytes pong \<and> now x = t \<and> lastPingSent x = lastPingSent a' \<longrightarrow>
            (\<exists>x'. dispatch E fd' x = Ret (None, x') \<and> sint (latency x') = t - now a \<and> sint (Latency x') = t - now a))))"
proof -
  let ?v = "word_of_int (now a) :: i64"
  from Ping_sends [OF assms(1-3)] obtain ping a' where ping: "Ping E a = Ret ((), a')"
    "writeCh (chans a') = writeCh (chans a) @ [ping]" "fbytes ping = ctl_frame False (enc_int64 ?v)" "lastPingSent a' = ?v" by blast
  note ok = ctl_frame_ok [OF enc_int64_short [of ?v]]
  have "word_of_int t - ?v = word_of_int (t - now a)" by simp
  then have times: "sint (word_of_int t - ?v) = t - now a" "sint ?v = now a" "sint (word_of_int t :: i64) = t"
    using assms(6-8) by (simp_all add: sint_i64_small del: of_int_diff)
  have measured: "\<exists>x'. dispatch E fd' x = Ret (None, x') \<and> sint (latency x') = t - now a \<and> sint (Latency x') = t - now a"
    if "fbytes fd' = ctl_frame True (enc_int64 ?v)" "now x = t" "lastPingSent x = ?v" for fd' x
    using pong_measured [OF that(1), of E x] that(2,3) times assms(6,7) by (auto simp: Latency_def)
  have answered: "\<exists>pong b'. dispatch E fd b = Ret (None, b') \<and> writeCh (chans b') = writeCh (chans b) @ [pong]
      \<and> heap b' = heap b \<and> fbytes pong = ctl_frame True (enc_int64 ?v)" if "fbytes fd = ctl_frame False (enc_int64 ?v)" for fd
    unfolding ping_dispatch [OF that enc_int64_short assms(4,5)] by simp
  show ?thesis
  proof (rule exI [where x = ping], rule exI [where x = a'], intro conjI allI impI)
    fix fd :: FrameData
    assume "fbytes fd = fbytes ping"
    then obtain pong b' where pong: "dispatch E fd b = Ret (None, b')" "writeCh (chans b') = writeCh (chans b) @ [pong]"
      "heap b' = heap b" "fbytes pong = ctl_frame True (enc_int64 ?v)" using answered ping(3) by metis
    show "\<exists>pong b'. dispatch E fd b = Ret (None, b')
        \<and> writeCh (chans b') = writeCh (chans b) @ [pong] \<and> heap b' = heap b
        \<and> frame_ok (fbytes pong) \<and> frame_wire (fbytes pong) = fbytes pong
        \<and> (\<forall>fd' x. fbytes fd' = fbytes pong \<and> now x = t \<and> lastPingSent x = lastPingSent a' \<longrightarrow>
            (\<exists>x'. dispatch E fd' x = Ret (None, x') \<and> sint (latency x') = t - now a \<and> sint (Latency x') = t - now a))"
      using pong ok measured ping(4) by (intro exI [where x = pong] exI [where x = b']) (simp add: pong)
  qed (use ping ok in simp_all)
qed

text \<open>A Muxer with a clock, whose writing goroutine is running.\<close>

definition running_mux :: "int \<Rightarrow> Muxer" where
  "running_mux t =
     \<lparr>chans = \<lparr>writeCh = [], writing = True, doneChan = False, conns = [], conns_cap = 0\<rparr>,
      heap = [], connLookup = [None], connLastID = 0, ReadTimeout = 5000000000, WriteTimeout = 5000000000,
      hasHandler = False, collector = None, mu = False, readers = 0, streamClosed = False, closeErr = None,
      lastPingSent = 0, lastPongRcvd = 0, latency = 0, spawned = [], serials = 0,
      mpool = pool_init rap_default, now = t, mchoices = (\<lambda>_. 0), mtick = 0\<rparr>"

theorem ping_measures_round_trip_witness:
  "\<exists>ping a'. Ping rap_default (running_mux 1000) = Ret ((), a') \<and> writeCh (chans a') = [ping]
     \<and> (\<exists>pong b'. dispatch rap_default ping (running_mux 7) = Ret (None, b') \<and> writeCh (chans b') = [pong])"
  using ping_measures_round_trip [of "running_mux 1000" "running_mux 7" 5000 rap_default]
  by (fastforce simp: running_mux_def)

section \<open>Reading frames off the stream\<close>

text \<open>Every frame waiting in a Conn or in the pool has the full capacity, and reading keeps it so.\<close>

definition frames_room :: "mux_chans sys \<Rightarrow> bool" where
  "frames_room s \<longleftrightarrow> pool_ok (pool s) \<and> list_all frame_room (readCh s)"

definition mux_room :: "Muxer \<Rightarrow> bool" where
  "mux_room x \<longleftrightarrow> pool_ok (mpool x) \<and> list_all (\<lambda>k. list_all frame_room (readCh k)) (heap x)"

lemma recycleLocked_room:
  assumes "recycleLocked E s = Ret s'" and "frames_room s"
  shows "frames_room s'"
proof -
  have fr: "list_all frame_room fds \<Longrightarrow> pool_ok (pool t) \<Longrightarrow> pool_ok (pool (fold (\<lambda>fd. free_frame (Some fd)) fds t))"
    for fds and t :: "mux_chans sys" by (induction fds arbitrary: t) (simp_all add: free_frame_def)
  show ?thesis using assms
    by (auto simp: recycleLocked_def forceRecycleLocked_def Let_def frames_room_def fr
      elim!: bnd_RetE split: option.splits if_splits)
qed

lemma SubmitFrame_room:
  assumes "SubmitFrame E (Some fd) s = Ret s'" and "frames_room s" and "frame_room fd"
  shows "frames_room s'"
proof -
  have free: "frames_room (free_frame (Some fd) t)" if "frames_room t" for t
    using that assms(3) by (simp add: frames_room_def free_frame_def)
  have rec: "frames_room t'" if "recycle E t = Ret (u, t')" "frames_room t" for t u t'
    using that by (auto simp: recycle_def lock_wmu_def lock_rmu_def map_go_bnd frames_room_def
      dest!: recycleLocked_room elim!: bnd_RetE split: if_splits)
  have fin: "frames_room t'" if "receivedFinal E (Some fd) s = Ret (u, t')" for u t'
    using that assms(2) free [of "s\<lparr>cmu := True\<rparr>"]
    by (auto simp: receivedFinal_def lock_cmu_def remoteSendingFinal_def frames_room_def
      dest!: rec elim!: bnd_RetE split: if_splits)
  show ?thesis using assms fin free [OF assms(2)]
    by (auto simp: SubmitFrame_def map_go_bnd Let_def frames_room_def elim!: bnd_RetE split: if_splits)
qed
lemma on_conn_RetE:
  assumes "on_conn c f x = Ret (r, x')"
  obtains s where "c < length (heap x)" and "f (conn_view (heap x ! c) x) = Ret (r, s)" and "x' = put_conn c s x"
  using assms by (auto simp: on_conn_def elim!: bnd_RetE split: if_splits)

lemma readCh_view [simp]: "readCh (conn_view k x) = readCh k"
  by (cases k) (simp add: conn_view_def conn.defs)

lemma readCh_truncate [simp]: "readCh (conn.truncate s) = readCh s"
  by (cases s) (simp add: conn.defs)

lemma on_conn_room:
  assumes "on_conn c f x = Ret (r, x')" and "mux_room x"
    and "\<And>s s'. f s = Ret (r, s') \<Longrightarrow> frames_room s \<Longrightarrow> frames_room s'"
  shows "mux_room x' \<and> collector x' = collector x"
proof -
  from assms(1) obtain s where s: "c < length (heap x)" "f (conn_view (heap x ! c) x) = Ret (r, s)" "x' = put_conn c s x"
    by (rule on_conn_RetE)
  have "frames_room (conn_view (heap x ! c) x)" using assms(2) s(1) by (simp add: frames_room_def mux_room_def list_all_length)
  from assms(3) [OF s(2) this] have s': "pool_ok (pool s)" "list_all frame_room (readCh s)" by (simp_all add: frames_room_def)
  have "list_all (\<lambda>k. list_all frame_room (readCh k)) ((heap x)[c := conn.truncate s])"
    using assms(2) s'(2) set_update_subset_insert [of "heap x" c "conn.truncate s"]
    unfolding mux_room_def list_all_iff by (metis insertE readCh_truncate subsetD)
  then show ?thesis unfolding s(3) using s'(1) by (simp add: mux_room_def put_conn_def)
qed

lemma start_conn_room: "start_conn x s = Ret (r, s') \<Longrightarrow> frames_room s \<Longrightarrow> frames_room s'"
  by (auto simp: start_conn_def starting_def SetReadDeadline_def SetWriteDeadline_def frames_room_def Let_def split: if_splits)

lemma dispatch_conn_room:
  assumes "dispatch_conn E fd x = Ret x'" and "mux_room x" and "frame_room fd"
  shows "mux_room x' \<and> collector x' = collector x"
proof -
  from assms(1) obtain c first x1 x2 where c: "on_conn c (start_conn x) x = Ret (first, x1)"
    "on_conn c (\<lambda>s. map_go (Pair ()) (SubmitFrame E (Some fd) s))
       (if first \<and> hasHandler x1 then x1\<lparr>spawned := spawned x1 @ [c]\<rparr> else x1) = Ret ((), x2)" "x' = x2"
    by (auto simp: dispatch_conn_def Let_def elim!: bnd_RetE split: option.splits)
  have x1: "mux_room x1 \<and> collector x1 = collector x" using c(1) assms(2) by (rule on_conn_room) (rule start_conn_room)
  let ?y = "if first \<and> hasHandler x1 then x1\<lparr>spawned := spawned x1 @ [c]\<rparr> else x1"
  have "mux_room ?y" "collector ?y = collector x" using x1 by (simp_all add: mux_room_def)
  moreover have "frames_room s'" if "map_go (Pair ()) (SubmitFrame E (Some fd) s) = Ret ((), s')" "frames_room s" for s s'
    using that SubmitFrame_room [OF _ that(2) assms(3)] by (auto simp: map_go_bnd elim!: bnd_RetE)
  ultimately show ?thesis using on_conn_room [OF c(2)] c(3) by auto
qed

lemma dispatch_room:
  assumes "dispatch E fd x = Ret (err, x')" and "mux_room x" and "frame_room fd"
  shows "mux_room x' \<and> collector x' = collector x"
proof -
  have ctl: "mux_room x' \<and> collector x' = collector x" if "muxerControlHandlers mc fd x = Ret (err, x')" for mc
    using that assms(2,3)
    by (auto simp: muxerControlHandlers_def muxerControlPanicHandler_def muxerControlPingHandler_def
      muxerControlPongHandler_def muxerControlReservedHandler_def mux_write_def mux_room_def free_mux_def Let_def
      elim!: bnd_RetE split: if_splits)
  from assms(1) show ?thesis
    using ctl dispatch_conn_room [OF _ assms(2,3)] by (auto simp: dispatch_def elim!: bnd_RetE split: if_splits)
qed
text \<open>The frames of a stream, given to \<open>dispatch\<close> one after the other until one is refused.\<close>

fun deliver :: "rap_config \<Rightarrow> byte list list \<Rightarrow> nat \<Rightarrow> Muxer \<Rightarrow> ((nat \<times> goerr option \<times> byte list list) \<times> Muxer) go" where
  "deliver E [] n x = Ret ((n, None, []), x)"
| "deliver E (bs # bss) n x =
     bnd (FrameDataAlloc (mpool x)) (\<lambda>(fd, p).
     bnd (dispatch E \<lparr>fbytes = frame_wire bs, fspare = drop (length bs) (fspare fd)\<rparr> (x\<lparr>mpool := p\<rparr>)) (\<lambda>(err, x).
       if err = None then deliver E bss (n + length bs) x else Ret ((n + length bs, err, bss), x)))"

definition stream_of :: "byte list list \<Rightarrow> goerr \<Rightarrow> reader" where
  "stream_of bss e = \<lparr>rd_data = concat (map frame_wire bss), rd_err = e\<rparr>"

text \<open>What the reader does at the end of the stream.\<close>

definition read_rest :: "goerr \<Rightarrow> (nat \<times> goerr option \<times> byte list list) \<times> Muxer \<Rightarrow> ((nat \<times> goerr option \<times> reader) \<times> Muxer) go" where
  "read_rest e r = (case r of ((n, err, bss), x) \<Rightarrow>
     if err = None then bnd (FrameDataAlloc (mpool x)) (\<lambda>(fd, p). Ret ((n, Some e, stream_of [] e), free_mux fd (x\<lparr>mpool := p\<rparr>)))
     else Ret ((n, err, stream_of bss e), x))"

lemma ReadFrom_end: "fbytes fd = [] \<Longrightarrow> frame_room fd \<Longrightarrow>
    FrameData_ReadFrom fd (stream_of [] e) = Ret (fd, 0, Some e, stream_of [] e)"
  by (cases fd) (simp add: FrameData_ReadFrom_def stream_of_def read_into_def ReadFull_def frame_sizes frame_room_def)

lemma ReadFrom_loop_deliver:
  assumes "list_all frame_ok bss" and "mux_room x" and "collector x = None"
  shows "ReadFrom_loop E (stream_of bss e) n u x = Some (bnd (deliver E bss n x) (read_rest e))"
  using assms
proof (induction bss arbitrary: n x)
  case Nil
  then have "pool_ok (mpool x)" by (simp add: mux_room_def)
  then obtain fd p where fd: "FrameDataAlloc (mpool x) = Ret (fd, p)" "fbytes fd = []" "frame_room fd" by (rule Alloc_empty)
  with Nil(3) ReadFrom_end [OF fd(2,3), of e] show ?case
    by (subst ReadFrom_loop.simps) (simp add: report_read_def read_rest_def)
next
  case (Cons bs bss)
  then have "pool_ok (mpool x)" by (simp add: mux_room_def)
  then obtain fd p where fd: "FrameDataAlloc (mpool x) = Ret (fd, p)" "fbytes fd = []" "frame_room fd" "pool_ok p"
    by (rule Alloc_empty)
  let ?fd = "\<lparr>fbytes = frame_wire bs, fspare = drop (length bs) (fspare fd)\<rparr>" and ?x = "x\<lparr>mpool := p\<rparr>"
  have ok: "frame_ok bs" "list_all frame_ok bss" using Cons.prems by simp_all
  have len: "4 \<le> length bs" "length bs \<le> FrameMaxSize" using ok(1) by (simp_all add: frame_ok_def)
  have ne: "bs \<noteq> []" using len(1) by auto
  have rd: "FrameData_ReadFrom fd (stream_of (bs # bss) e) = Ret (?fd, length bs, None, stream_of bss e)"
    using ReadFrom_wire [OF ok(1) fd(2), of "concat (map frame_wire bss)" e] fd(3)
    by (simp add: stream_of_def frame_room_def)
  have room: "frame_room ?fd" "mux_room ?x"
    using fd len Cons.prems(2) by (simp_all add: frame_room_def fcap_def length_frame_wire mux_room_def)
  have unf: "ReadFrom_loop E (stream_of (bs # bss) e) n u x =
      (case dispatch E ?fd ?x of
         Ret (err, x) \<Rightarrow> if err \<noteq> None then Some (Ret ((n + length bs, err, stream_of bss e), x))
                        else ReadFrom_loop E (stream_of bss e) (n + length bs) u x
       | Panics p \<Rightarrow> Some (Panics p) | Blocks \<Rightarrow> Some Blocks)"
    using fd(1) rd ne Cons.prems(3) by (subst ReadFrom_loop.simps) (simp add: report_read_def)
  show ?case
  proof (cases "dispatch E ?fd ?x")
    case (Ret r)
    obtain err x' where r: "r = (err, x')" by (cases r)
    from dispatch_room [OF Ret [unfolded r] room(2,1)] Cons.prems(3) have "mux_room x'" "collector x' = None" by simp_all
    from Cons.IH [OF ok(2) this, of "n + length bs"] unf Ret fd(1) show ?thesis by (simp add: r read_rest_def)
  qed (use unf fd(1) in simp_all)
qed

lemma deliver_frames_count:
  "deliver E bss n x = Ret ((m, err, rest), x') \<Longrightarrow> \<exists>ds. bss = ds @ rest \<and> m = n + length (concat ds) \<and> (err = None \<longrightarrow> rest = [])"
proof (induction E bss n x rule: deliver.induct)
  case (2 E bs bss n x)
  from "2.prems" obtain fd p err' y where st: "FrameDataAlloc (mpool x) = Ret (fd, p)"
    "dispatch E \<lparr>fbytes = frame_wire bs, fspare = drop (length bs) (fspare fd)\<rparr> (x\<lparr>mpool := p\<rparr>) = Ret (err', y)"
    "(if err' = None then deliver E bss (n + length bs) y else Ret ((n + length bs, err', bss), y)) = Ret ((m, err, rest), x')"
    by (auto elim!: bnd_RetE)
  show ?case
  proof (cases err')
    case None
    with st "2.IH" [OF st(1) refl st(2) refl None] obtain ds where "bss = ds @ rest"
      "m = n + length bs + length (concat ds)" "err = None \<longrightarrow> rest = []" by auto
    then show ?thesis by (intro exI [where x = "bs # ds"]) simp
  next
    case (Some e)
    with st(3) show ?thesis by (intro exI [where x = "[bs]"]) auto
  qed
qed simp

lemma read_into_takes:
  assumes "read_into fd n r = Ret (fd', m, err, r')"
  shows "\<exists>bs. fbytes fd' = fbytes fd @ bs \<and> rd_data r = bs @ rd_data r' \<and> m = length bs \<and> rd_err r' = rd_err r
    \<and> (err = None \<longleftrightarrow> length bs = n - length (fbytes fd))"
proof -
  obtain bs e r1 where full: "ReadFull r (n - length (fbytes fd)) = (bs, e, r1)"
    by (cases "ReadFull r (n - length (fbytes fd))") auto
  from ReadFull_prefix [OF full] assms full show ?thesis by (auto simp: read_into_def split: if_splits)
qed

lemma ReadFrom_takes:
  assumes "FrameData_ReadFrom fd r = Ret (fd', m, err, r')" and "fbytes fd = []"
  shows "\<exists>bs. rd_data r = bs @ rd_data r' \<and> m = length bs \<and> (err = None \<longrightarrow> bs \<noteq> [])"
proof -
  define rest where "rest = (\<lambda>fd1 k e r1. if e \<noteq> None \<or> length (fbytes fd1) < 4 then Ret (fd1, k, e, r1)
       else bnd (HasPayload (fbytes fd1)) (\<lambda>pay.
         if \<not> pay then Ret (fd1, k, None, r1)
         else bnd (SizeValue (fbytes fd1)) (\<lambda>sz.
           if 4 + nat sz < length (fbytes fd1) then Ret (fd1, k, Some ErrFrameTooSmall, r1)
           else if 4 + nat sz > FrameMaxSize then Ret (fd1, k, Some ErrFrameTooBig, r1)
           else bnd (read_into fd1 (4 + nat sz) r1) (\<lambda>(fd, num, err, r). Ret (fd, k + num, err, r)))))"
  have "FrameData_ReadFrom fd r = bnd (read_into fd 4 r) (\<lambda>(fd1, k, e, r1). rest fd1 k e r1)"
    unfolding FrameData_ReadFrom_def FrameHeaderSize_def Let_def rest_def using assms(2) by simp
  with assms(1) obtain fd1 k e r1 where first: "read_into fd 4 r = Ret (fd1, k, e, r1)" and more: "rest fd1 k e r1 = Ret (fd', m, err, r')"
    by (auto elim: bnd_RetE)
  from read_into_takes [OF first] assms(2) obtain bs where bs: "rd_data r = bs @ rd_data r1" "k = length bs"
    "e = None \<longleftrightarrow> length bs = 4" by auto
  from more consider "k = m" "r1 = r'" "err = None \<longrightarrow> e = None"
    | fd2 n num where "e = None" "read_into fd1 n r1 = Ret (fd2, num, err, r')" "m = k + num"
    unfolding rest_def by (auto elim!: bnd_RetE split: if_splits)
  then show ?thesis
  proof cases
    case 1
    with bs show ?thesis by auto
  next
    case 2
    from read_into_takes [OF 2(2)] obtain bs' where "rd_data r1 = bs' @ rd_data r'" "num = length bs'" by blast
    with bs 2 show ?thesis by (intro exI [where x = "bs @ bs'"]) auto
  qed
qed

lemma Alloc_no_bytes: "FrameDataAlloc p = Ret (fd, p') \<Longrightarrow> fbytes fd = []"
  by (auto simp: FrameDataAlloc_def FrameData_Clear_def NewFrameData_def split: list.splits)

section \<open>Nothing to wait for\<close>

text \<open>An outcome other than waiting: a result with \<open>Q\<close>, or a panic.\<close>

fun unblocked :: "'a go \<Rightarrow> ('a \<Rightarrow> bool) \<Rightarrow> bool" where
  "unblocked (Ret x) Q = Q x"
| "unblocked (Panics p) Q = True"
| "unblocked Blocks Q = False"

lemma unblocked_bnd:
  "unblocked m P \<Longrightarrow> (\<And>x. P x \<Longrightarrow> unblocked (f x) Q) \<Longrightarrow> unblocked (bnd m f) Q"
  by (cases m) auto

lemma unblocked_mono: "unblocked m P \<Longrightarrow> (\<And>x. P x \<Longrightarrow> Q x) \<Longrightarrow> unblocked m Q"
  by (cases m) auto

lemma unblocked_map [simp]: "unblocked (map_go f m) Q = unblocked m (\<lambda>x. Q (f x))"
  by (cases m) auto

lemma unblocked_any: "m \<noteq> Blocks \<Longrightarrow> unblocked m (\<lambda>_. True)"
  by (cases m) auto

lemma no_wait [simp]: "idx xs i \<noteq> Blocks" "slice_from xs i \<noteq> Blocks" "put xs i b \<noteq> Blocks"
  by (simp_all add: idx_def slice_from_def put_def)

lemma map_go_Blocks_conv [simp]: "map_go f m = Blocks \<longleftrightarrow> m = Blocks"
  by (cases m) simp_all

lemma header_no_wait [simp]:
  "HasFlow h \<noteq> Blocks" "IsAck h \<noteq> Blocks" "IsFinal h \<noteq> Blocks" "SizeValue h \<noteq> Blocks" "ConnIDOf h \<noteq> Blocks"
  "MuxerControlOf h \<noteq> Blocks" "SetMuxerControl h c \<noteq> Blocks" "HasBodyOrHead h \<noteq> Blocks"
  by (simp_all add: HasFlow_def IsAck_def IsFinal_def SizeValue_def getLargeValue_def ConnIDOf_def getSmallValue_def
      MuxerControlOf_def SetMuxerControl_def SetConnID_def setSmallValue_def HasBodyOrHead_def bnd_Blocks_conv)

lemma header_no_wait2 [simp]: "HasPayload h \<noteq> Blocks" "IsMuxerControl h \<noteq> Blocks"
  by (simp_all add: HasPayload_def IsMuxerControl_def bnd_Blocks_conv)

lemma ReadUint64_no_wait [simp]: "ReadUint64_loop p i a b \<noteq> Blocks"
  by (induction p i a b rule: ReadUint64_loop.induct) (simp_all add: Let_def)

lemma read_no_wait [simp]: "read_into fd n r \<noteq> Blocks" "reslice fd n \<noteq> Blocks" "ReadLen p \<noteq> Blocks"
  by (auto simp: read_into_def reslice_def ReadLen_def bnd_Blocks_conv Let_def split: prod.splits)

lemma parser_no_wait [simp]:
  "NewFrameParser fd \<noteq> Blocks" "ReadInt64 p \<noteq> Blocks" "ReadString p \<noteq> Blocks" "FrameDataAlloc q \<noteq> Blocks"
  "FrameData_ReadFrom fd r \<noteq> Blocks"
  by (auto simp: NewFrameParser_def Payload_def ReadInt64_def ReadUint64_def ReadString_def FrameDataAlloc_def FrameData_Clear_def
      FrameData_ReadFrom_def bnd_Blocks_conv Let_def split: prod.splits list.splits)

text \<open>
  A Conn the reading goroutine never waits for: its mutexes are free and its recycle callback does not
  wait (\<^verbatim>\<open>ConnRelease\<close> panics rather than wait). A Muxer that never makes it wait: the writing goroutine is
  there to take the answer to a ping, or the Muxer is closed, and all Conns are of that kind.
\<close>

definition lets_read :: "(mux_chans, 'b) conn_scheme \<Rightarrow> bool" where
  "lets_read s \<longleftrightarrow> \<not> cmu s \<and> \<not> wmu s \<and> \<not> rmu s
     \<and> (\<forall>f m. onRecycle s = Some f \<longrightarrow> unblocked (f m) (\<lambda>m'. writing m' = writing m \<and> doneChan m' = doneChan m))"

definition unhindered :: "Muxer \<Rightarrow> bool" where
  "unhindered x \<longleftrightarrow> (writing (chans x) \<or> doneChan (chans x)) \<and> list_all lets_read (heap x)"

lemma ConnRelease_lets_read: "unblocked (ConnRelease c m) (\<lambda>m'. writing m' = writing m \<and> doneChan m' = doneChan m)"
  by (simp add: ConnRelease_def)

lemma lets_read_upd [simp]:
  "lets_read (s\<lparr>ackCh := a\<rparr>) = lets_read s" "lets_read (s\<lparr>readCh := q\<rparr>) = lets_read s"
  "lets_read (s\<lparr>runstate := v\<rparr>) = lets_read s" "lets_read (s\<lparr>remoteSentFinal := b\<rparr>) = lets_read s"
  "lets_read (s\<lparr>readDeadline := d\<rparr>) = lets_read s" "lets_read (s\<lparr>writeDeadline := d\<rparr>) = lets_read s"
  "lets_read (s\<lparr>readChClosed := b\<rparr>) = lets_read s"
  by (simp_all add: lets_read_def)

definition same_way :: "mux_chans sys \<Rightarrow> mux_chans sys \<Rightarrow> bool" where
  "same_way s s' \<longleftrightarrow> lets_read s' \<and> writing (mux s') = writing (mux s) \<and> doneChan (mux s') = doneChan (mux s)"

lemma forceRecycle_unblocked:
  assumes "\<forall>f m. onRecycle s = Some f \<longrightarrow> unblocked (f m) (\<lambda>m'. writing m' = writing m \<and> doneChan m' = doneChan m)"
  shows "unblocked (forceRecycleLocked E s) (\<lambda>s'. onRecycle s' = onRecycle s
    \<and> writing (mux s') = writing (mux s) \<and> doneChan (mux s') = doneChan (mux s))"
proof (cases "onRecycle s")
  case (Some f)
  with assms have "unblocked (f (mux s)) (\<lambda>m'. writing m' = writing (mux s) \<and> doneChan m' = doneChan (mux s))" by blast
  with Some show ?thesis
    by (simp add: forceRecycleLocked_def Let_def fold_free_frame) (rule unblocked_bnd, auto)
qed (simp add: forceRecycleLocked_def Let_def fold_free_frame)

lemma unblocked_locks:
  "\<not> wmu s \<Longrightarrow> unblocked (f (s\<lparr>wmu := True\<rparr>)) (\<lambda>(r, s'). Q (s'\<lparr>wmu := False\<rparr>)) \<Longrightarrow> unblocked (lock_wmu f s) (\<lambda>(r, s'). Q s')"
  "\<not> rmu s \<Longrightarrow> unblocked (f (s\<lparr>rmu := True\<rparr>)) (\<lambda>(r, s'). Q (s'\<lparr>rmu := False\<rparr>)) \<Longrightarrow> unblocked (lock_rmu f s) (\<lambda>(r, s'). Q s')"
  "\<not> cmu s \<Longrightarrow> unblocked (f (s\<lparr>cmu := True\<rparr>)) (\<lambda>(r, s'). Q (s'\<lparr>cmu := False\<rparr>)) \<Longrightarrow> unblocked (lock_cmu f s) (\<lambda>(r, s'). Q s')"
  by (auto simp: lock_wmu_def lock_rmu_def lock_cmu_def elim!: unblocked_bnd)

lemma recycle_unblocked:
  assumes "\<not> wmu s" and "\<not> rmu s"
    and "\<forall>f m. onRecycle s = Some f \<longrightarrow> unblocked (f m) (\<lambda>m'. writing m' = writing m \<and> doneChan m' = doneChan m)"
  shows "unblocked (recycle E s) (\<lambda>(_, s'). same_way s (s'\<lparr>cmu := False\<rparr>))"
  unfolding recycle_def
proof (rule unblocked_locks(1) [OF assms(1)], rule unblocked_locks(2))
  let ?s = "s\<lparr>wmu := True, rmu := True, runstate := runStateRecycle\<rparr>"
  have "unblocked (forceRecycleLocked E ?s) (\<lambda>s'. onRecycle s' = onRecycle ?s
    \<and> writing (mux s') = writing (mux ?s) \<and> doneChan (mux s') = doneChan (mux ?s))"
    using assms(3) by (intro forceRecycle_unblocked) simp
  then show "unblocked (map_go (Pair ()) (recycleLocked E (s\<lparr>wmu := True, rmu := True\<rparr>)))
      (\<lambda>(r, s'). same_way s (s'\<lparr>rmu := False, wmu := False, cmu := False\<rparr>))"
    using assms(3) by (auto simp: recycleLocked_def Let_def same_way_def lets_read_def elim!: unblocked_mono split: option.split)
qed (simp add: assms(2))

lemma receivedFinal_unblocked:
  assumes "lets_read s"
  shows "unblocked (receivedFinal E (Some fd) s) (\<lambda>(_, s'). same_way s s')"
  unfolding receivedFinal_def
proof (rule unblocked_locks(3))
  have l: "\<not> wmu s" "\<not> rmu s"
    "\<forall>f m. onRecycle s = Some f \<longrightarrow> unblocked (f m) (\<lambda>m'. writing m' = writing m \<and> doneChan m' = doneChan m)"
    using assms by (simp_all add: lets_read_def)
  let ?s = "(free_frame (Some fd) (s\<lparr>cmu := True\<rparr>))\<lparr>remoteSentFinal := True, readChClosed := True\<rparr>"
  have "unblocked (recycle E ?s) (\<lambda>(_, s'). same_way ?s (s'\<lparr>cmu := False\<rparr>))"
    by (rule recycle_unblocked) (use l in \<open>simp_all add: free_frame_def\<close>)
  then have r: "unblocked (recycle E ?s) (\<lambda>(_, s'). same_way s (s'\<lparr>cmu := False\<rparr>))"
    by (rule unblocked_mono) (auto simp: same_way_def free_frame_def)
  have n: "same_way s (?s\<lparr>cmu := False\<rparr>)" using l by (simp add: same_way_def lets_read_def free_frame_def)
  show "unblocked (bnd (if Some fd \<noteq> None then bnd (SizeValue (hdr_of (Some fd))) (\<lambda>sz.
          if sz \<noteq> 0 then Panics (PanicMsg ''final frame has size value set'') else Ret (free_frame (Some fd) (s\<lparr>cmu := True\<rparr>)))
        else Ret (s\<lparr>cmu := True\<rparr>)) (\<lambda>s. case remoteSendingFinal s of (first, s) \<Rightarrow>
          if \<not> first then Panics (PanicMsg ''received multiple final frames'')
          else if localSentFinal s then recycle E s else Ret ((), s))) (\<lambda>(_, s'). same_way s (s'\<lparr>cmu := False\<rparr>))"
    using r n by (cases "SizeValue (hdr_of (Some fd))") (auto simp: remoteSendingFinal_def free_frame_def)
qed (use assms in \<open>simp add: lets_read_def\<close>)


lemma SubmitFrame_unblocked:
  assumes "lets_read s"
  shows "unblocked (SubmitFrame E (Some fd) s) (same_way s)"
proof -
  have s: "same_way s (s\<lparr>pool := p, ackCh := a\<rparr>)" "same_way s (s\<lparr>readCh := q\<rparr>)" "same_way s s" for p a q
    using assms by (simp_all add: same_way_def lets_read_def)
  have "unblocked (map_go snd (receivedFinal E (Some fd) s)) (same_way s)"
    using receivedFinal_unblocked [OF assms, of E fd] by (simp add: split_def)
  then have fin: "unblocked (bnd (IsFinal h) (\<lambda>fin. if fin then map_go snd (receivedFinal E (Some fd) s) else Ret s)) (same_way s)" for h
    by (intro unblocked_bnd [OF unblocked_any]) (auto simp: s)
  have ack: "unblocked (let s' = free_frame (Some fd) s in if ackCh s' < MaxSendWindowSize
      then Ret (s'\<lparr>ackCh := Suc (ackCh s')\<rparr>) else Panics (PanicMsg ''ACK would block'')) (same_way s)"
    by (simp add: Let_def free_frame_def s)
  have flow: "unblocked (bnd (IsAck h) (\<lambda>ack. if ack then let s' = free_frame (Some fd) s in if ackCh s' < MaxSendWindowSize
      then Ret (s'\<lparr>ackCh := Suc (ackCh s')\<rparr>) else Panics (PanicMsg ''ACK would block'')
      else bnd (IsFinal h) (\<lambda>fin. if fin then map_go snd (receivedFinal E (Some fd) s) else Ret s))) (same_way s)" for h
    by (rule unblocked_bnd [OF unblocked_any]) (use ack fin in simp_all)
  show ?thesis
    unfolding SubmitFrame_def
    by (rule unblocked_bnd [OF unblocked_any]) (use flow s in \<open>simp_all only: header_no_wait if_split\<close>, simp_all add: s)
qed

lemma lets_read_view [simp]: "lets_read (conn_view k x) = lets_read k"
  by (cases k) (simp add: conn_view_def conn.defs lets_read_def)

lemma lets_read_truncate [simp]: "lets_read (conn.truncate s) = lets_read s"
  by (cases s) (simp add: conn.defs lets_read_def)

lemma on_conn_unblocked:
  assumes "unhindered x" and "\<And>s. lets_read s \<Longrightarrow> unblocked (f s) (\<lambda>(_, s'). same_way s s')"
  shows "unblocked (on_conn c f x) (\<lambda>(_, x'). unhindered x')"
proof (cases "c < length (heap x)")
  case True
  then have "lets_read (heap x ! c)" using assms(1) by (simp add: unhindered_def list_all_length)
  with assms(2) have "unblocked (f (conn_view (heap x ! c) x)) (\<lambda>(_, s'). same_way (conn_view (heap x ! c) x) s')" by simp
  with True assms(1) show ?thesis
    by (auto simp: on_conn_def unhindered_def put_conn_def same_way_def list_all_length nth_list_update elim!: unblocked_bnd)
qed (simp add: on_conn_def)

lemma start_conn_unblocked: "lets_read s \<Longrightarrow> unblocked (start_conn x s) (\<lambda>(_, s'). same_way s s')"
  by (simp add: start_conn_def starting_def same_way_def SetReadDeadline_def SetWriteDeadline_def Let_def)

lemma dispatch_conn_unblocked:
  assumes "unhindered x"
  shows "unblocked (dispatch_conn E fd x) unhindered"
proof -
  have sp: "unhindered (y\<lparr>spawned := cs\<rparr>) = unhindered y" for y cs by (simp add: unhindered_def)
  have one: "unblocked (bnd (on_conn c (\<lambda>s. map_go (Pair ()) (SubmitFrame E (Some fd) s)) y) (\<lambda>(_, x). Ret x)) unhindered"
    if "unhindered y" for c y
    by (rule unblocked_bnd [OF on_conn_unblocked [OF that]]) (auto simp: SubmitFrame_unblocked)
  have two: "unblocked (bnd (on_conn c (start_conn x) x) (\<lambda>(first, x).
      let x = (if first \<and> hasHandler x then x\<lparr>spawned := spawned x @ [c]\<rparr> else x) in
      bnd (on_conn c (\<lambda>s. map_go (Pair ()) (SubmitFrame E (Some fd) s)) x) (\<lambda>(_, x). Ret x))) unhindered" for c
    by (rule unblocked_bnd [OF on_conn_unblocked [OF assms start_conn_unblocked]]) (auto simp: Let_def sp intro!: one)
  have three: "unblocked (bnd (idx (connLookup x) i) (\<lambda>co. case co of None \<Rightarrow> Panics NilDeref
      | Some c \<Rightarrow> bnd (on_conn c (start_conn x) x) (\<lambda>(first, x).
          let x = (if first \<and> hasHandler x then x\<lparr>spawned := spawned x @ [c]\<rparr> else x) in
          bnd (on_conn c (\<lambda>s. map_go (Pair ()) (SubmitFrame E (Some fd) s)) x) (\<lambda>(_, x). Ret x)))) unhindered" for i
  proof (rule unblocked_bnd [OF unblocked_any [OF no_wait(1)]])
    fix co
    show "unblocked (case co of None \<Rightarrow> Panics NilDeref
      | Some c \<Rightarrow> bnd (on_conn c (start_conn x) x) (\<lambda>(first, x).
          let x = (if first \<and> hasHandler x then x\<lparr>spawned := spawned x @ [c]\<rparr> else x) in
          bnd (on_conn c (\<lambda>s. map_go (Pair ()) (SubmitFrame E (Some fd) s)) x) (\<lambda>(_, x). Ret x))) unhindered"
      by (cases co) (simp_all only: option.case unblocked.simps two)
  qed
  show ?thesis
    unfolding dispatch_conn_def by (rule unblocked_bnd [OF unblocked_any [OF header_no_wait(5)] three])
qed

lemma mux_write_unblocked:
  assumes "unhindered x"
  shows "unblocked (mux_write fd x) (\<lambda>(_, x'). unhindered x')"
  using Muxer_ConnWrite_cases [of "mchoices x (mtick x)" fd "chans x"] assms
  by (auto simp: mux_write_def unhindered_def)

lemma handlers_unblocked:
  assumes "unhindered x"
  shows "unblocked (muxerControlHandlers mc fd x) (\<lambda>(_, x'). unhindered x')"
proof -
  have f: "unhindered (free_mux fd y) = unhindered y" "unhindered (y\<lparr>lastPongRcvd := t\<rparr>) = unhindered y"
    "unhindered (y\<lparr>latency := t\<rparr>) = unhindered y" for y t by (simp_all add: free_mux_def unhindered_def)
  have "unblocked (muxerControlPingHandler fd x) (\<lambda>(_, x'). unhindered x')"
    unfolding muxerControlPingHandler_def on_header_def
    by (rule unblocked_bnd [OF unblocked_any]) (simp_all add: mux_write_unblocked [OF assms])
  moreover have "unblocked (muxerControlPongHandler fd x) (\<lambda>(_, x'). unhindered x')"
    unfolding muxerControlPongHandler_def Let_def
    by (rule unblocked_bnd [OF unblocked_any], simp)
      (rule unblocked_bnd [where P = unhindered], auto simp: f assms intro!: unblocked_bnd [OF unblocked_any])
  moreover have "unblocked (muxerControlPanicHandler fd x) (\<lambda>(_, x'). unhindered x')"
    unfolding muxerControlPanicHandler_def
    by (rule unblocked_bnd [OF unblocked_any], simp)
      (rule unblocked_bnd [OF unblocked_any], auto simp: f assms bnd_Blocks_conv)
  ultimately show ?thesis by (simp add: muxerControlHandlers_def muxerControlReservedHandler_def f assms)
qed

lemma dispatch_unblocked:
  assumes "unhindered x"
  shows "unblocked (dispatch E fd x) (\<lambda>(_, x'). unhindered x')"
  unfolding dispatch_def
proof (rule unblocked_bnd [OF unblocked_any])
  fix ctl
  have "unblocked (bnd (MuxerControlOf (fbytes fd)) (\<lambda>mc. muxerControlHandlers mc fd x)) (\<lambda>(_, x'). unhindered x')"
    by (rule unblocked_bnd [OF unblocked_any]) (simp_all add: handlers_unblocked [OF assms])
  moreover have "unblocked (bnd (dispatch_conn E fd x) (\<lambda>x. Ret (None :: goerr option, x))) (\<lambda>(_, x'). unhindered x')"
    by (rule unblocked_bnd [OF dispatch_conn_unblocked [OF assms]]) simp
  ultimately show "unblocked (if ctl then bnd (MuxerControlOf (fbytes fd)) (\<lambda>mc. muxerControlHandlers mc fd x)
      else bnd (dispatch_conn E fd x) (\<lambda>x. Ret (None, x))) (\<lambda>(_, x'). unhindered x')" by simp
qed simp

section \<open>The end of the reading goroutine\<close>

lemma report_read_unhindered: "report_read u m x = (u', x') \<Longrightarrow> unhindered x' = unhindered x"
  by (auto simp: report_read_def AddBytesRead_def unhindered_def Let_def split: if_splits)

lemma ReadFrom_loop_ends:
  "\<exists>y. ReadFrom_loop E r n u x = Some y \<and> (\<forall>n' err r' x'. y = Ret ((n', err, r'), x') \<longrightarrow>
     err \<noteq> None \<and> (\<exists>bs. rd_data r = bs @ rd_data r' \<and> n' = n + length bs)) \<and> (unhindered x \<longrightarrow> y \<noteq> Blocks)"
proof (induction "length (rd_data r)" arbitrary: r n u x rule: less_induct)
  case less
  let ?once = "bnd (FrameDataAlloc (mpool x)) (\<lambda>(fd, p).
     bnd (FrameData_ReadFrom fd r) (\<lambda>(fd, m, err, r). Ret (fd, m, err, r, x\<lparr>mpool := p\<rparr>)))"
  show ?case
  proof (cases ?once)
    case (Ret q)
    obtain fd m err r1 x1 where q: "q = (fd, m, err, r1, x1)" by (cases q)
    from Ret obtain fd0 p where "FrameDataAlloc (mpool x) = Ret (fd0, p)" "FrameData_ReadFrom fd0 r = Ret (fd, m, err, r1)"
      and x1: "x1 = x\<lparr>mpool := p\<rparr>"
      unfolding q by (auto elim!: bnd_RetE)
    with ReadFrom_takes Alloc_no_bytes obtain bs where bs: "rd_data r = bs @ rd_data r1" "m = length bs" "err = None \<longrightarrow> bs \<noteq> []"
      by blast
    obtain u' x2 where rep: "report_read u m x1 = (u', x2)" by (cases "report_read u m x1")
    have free: "unhindered x2 = unhindered x" using report_read_unhindered [OF rep] x1 by (simp add: unhindered_def)
    have unf: "ReadFrom_loop E r n u x =
        (if m = 0 \<and> doneChan (chans x2) \<or> err \<noteq> None then Some (Ret ((n + m, err, r1), free_mux fd x2))
         else (case dispatch E fd x2 of
                 Ret (err, x) \<Rightarrow> if err \<noteq> None then Some (Ret ((n + m, err, r1), x)) else ReadFrom_loop E r1 (n + m) u' x
               | Panics p \<Rightarrow> Some (Panics p) | Blocks \<Rightarrow> Some Blocks))"
      by (subst ReadFrom_loop.simps) (simp add: Ret q rep)
    show ?thesis
    proof (cases "err = None")
      case True
      then have lt: "length (rd_data r1) < length (rd_data r)" "m \<noteq> 0" using bs by auto
      show ?thesis
      proof (cases "dispatch E fd x2")
        case (Ret d)
        obtain err' x3 where d: "d = (err', x3)" by (cases d)
        have free3: "unhindered x \<longrightarrow> unhindered x3" using dispatch_unblocked [of x2 E fd] Ret d free by auto
        show ?thesis
        proof (cases err')
          case None
          from less [OF lt(1), of "n + m" u' x3] obtain y where y: "ReadFrom_loop E r1 (n + m) u' x3 = Some y"
            "\<forall>n' err r' x'. y = Ret ((n', err, r'), x') \<longrightarrow> err \<noteq> None \<and> (\<exists>bs. rd_data r1 = bs @ rd_data r' \<and> n' = n + m + length bs)"
            "unhindered x3 \<longrightarrow> y \<noteq> Blocks"
            by blast
          have "\<exists>cs. rd_data r = cs @ rd_data r' \<and> n' = n + length cs" if "y = Ret ((n', e', r'), x')" for n' e' r' x'
          proof -
            from y(2) that obtain cs where "rd_data r1 = cs @ rd_data r'" "n' = n + m + length cs" by blast
            with bs show ?thesis by (intro exI [where x = "bs @ cs"]) simp
          qed
          with y unf True lt(2) Ret d None free3 show ?thesis by auto
        qed (use unf True lt(2) Ret d bs in auto)
      qed (use unf True lt(2) free dispatch_unblocked [of x2 E fd] in auto)
    qed (use unf bs in auto)
  next
    case (Panics p)
    then show ?thesis by (subst ReadFrom_loop.simps) simp
  next
    case Blocks
    then show ?thesis by (auto simp: bnd_Blocks_conv)
  qed
qed
text \<open>
  C9. The reading goroutine hands the frames of the stream to their Conns, all of them, once each and
  in order: for any sequence of frames as a peer puts them on the wire, \<^verbatim>\<open>ReadFrom\<close> does exactly what
  dispatching the frames one after the other does, whatever that is (a panic and a block included),
  until one is refused or the stream ends with error \<open>e\<close>, which it then returns; the byte count it
  returns is that of the frames it has dispatched.
\<close>

theorem ReadFrom_delivers_in_order:
  assumes "list_all frame_ok bss" and "mux_room x" and "collector x = None" and "\<not> mu x" and "\<not> doneChan (chans x)"
  shows "Muxer_ReadFrom E (stream_of bss e) x =
      bnd (deliver E bss 0 (x\<lparr>readers := readers x + 1\<rparr>)) (\<lambda>r.
        bnd (read_rest e r) (\<lambda>(res, x). Ret (res, x\<lparr>readers := readers x - 1\<rparr>)))
    \<and> (\<forall>n err rest y. deliver E bss 0 (x\<lparr>readers := readers x + 1\<rparr>) = Ret ((n, err, rest), y) \<longrightarrow>
        (\<exists>ds. bss = ds @ rest \<and> n = length (concat ds) \<and> (err = None \<longrightarrow> rest = [])))"
proof -
  have "mux_room (x\<lparr>readers := readers x + 1\<rparr>)" using assms(2) by (simp add: mux_room_def)
  with assms show ?thesis
    using deliver_frames_count [of E bss 0 "x\<lparr>readers := readers x + 1\<rparr>"]
    by (simp add: Muxer_ReadFrom_def ReadFrom_loop_deliver run_loop_def bnd_assoc)
qed

theorem ReadFrom_delivers_in_order_witness:
  "\<exists>y. Muxer_ReadFrom rap_default (stream_of [ctl_frame False [1], ctl_frame False [2]] ErrEOF) (running_mux 7) = Ret ((10, Some ErrEOF, stream_of [] ErrEOF), y)
     \<and> map fbytes (writeCh (chans y)) = [ctl_frame True [1], ctl_frame True [2]]"
proof -
  let ?x = "running_mux 7" and ?bss = "[ctl_frame False [1], ctl_frame False [2]]"
  have ok: "list_all frame_ok ?bss" "\<And>b. frame_wire (ctl_frame False [b]) = ctl_frame False [b]" by (simp_all add: ctl_frame_ok)
  have x: "mux_room ?x" "collector ?x = None" "\<not> mu ?x" "\<not> doneChan (chans ?x)" by (simp_all add: running_mux_def mux_room_def)
  have answer: "writing (chans y) \<Longrightarrow> \<not> doneChan (chans y) \<Longrightarrow>
      dispatch rap_default \<lparr>fbytes = ctl_frame False [b], fspare = s\<rparr> y = Ret (None, y\<lparr>chans := (chans y)\<lparr>
        writeCh := writeCh (chans y) @ [\<lparr>fbytes = ctl_frame True [b], fspare = s\<rparr>]\<rparr>, mtick := Suc (mtick y)\<rparr>)" for b s y
    using ping_dispatch [of "\<lparr>fbytes = ctl_frame False [b], fspare = s\<rparr>" "[b]" y] by simp
  show ?thesis
    using ReadFrom_delivers_in_order [OF ok(1) x, of rap_default ErrEOF]
    by (simp add: answer ok(2) FrameDataAlloc_def running_mux_def pool_init_def read_rest_def free_mux_def)
qed

text \<open>
  C13. The loop of the reading goroutine is bounded by its input: on any stream of bytes whatever, frames
  or not, in any state and under any configuration, the loop of \<^verbatim>\<open>ReadFrom\<close> does not go round for ever,
  and when it returns it returns an error, having counted exactly the bytes it took off the stream. It
  does not wait for anything but the stream either, if the writing goroutine is there to take the answers
  to pings, all mutexes are free and no recycle callback waits: \<^verbatim>\<open>ReadFrom\<close> of an open Muxer then returns
  such an error, or a frame makes it panic (a frame for no Conn, or out of protocol: see the properties
  about them).
\<close>

theorem ReadFrom_ends:
  "(\<exists>y. ReadFrom_loop E r n u x = Some y \<and> (\<forall>n' err r' x'. y = Ret ((n', err, r'), x') \<longrightarrow>
      err \<noteq> None \<and> (\<exists>bs. rd_data r = bs @ rd_data r' \<and> n' = n + length bs)))
   \<and> (unhindered x \<and> \<not> mu x \<and> \<not> doneChan (chans x) \<longrightarrow>
      (\<exists>m err r' x' bs. Muxer_ReadFrom E r x = Ret ((m, Some err, r'), x') \<and> rd_data r = bs @ rd_data r' \<and> m = length bs)
      \<or> (\<exists>p. Muxer_ReadFrom E r x = Panics p))"
proof (intro conjI impI)
  show "\<exists>y. ReadFrom_loop E r n u x = Some y \<and> (\<forall>n' err r' x'. y = Ret ((n', err, r'), x') \<longrightarrow>
      err \<noteq> None \<and> (\<exists>bs. rd_data r = bs @ rd_data r' \<and> n' = n + length bs))"
    using ReadFrom_loop_ends [of E r n u x] by blast
next
  assume x: "unhindered x \<and> \<not> mu x \<and> \<not> doneChan (chans x)"
  let ?x = "x\<lparr>readers := readers x + 1\<rparr>"
  have "unhindered ?x" using x by (auto simp: unhindered_def)
  with ReadFrom_loop_ends [of E r 0 0 ?x] obtain y where y: "ReadFrom_loop E r 0 0 ?x = Some y" "y \<noteq> Blocks"
    "\<forall>n' err r' x'. y = Ret ((n', err, r'), x') \<longrightarrow> err \<noteq> None \<and> (\<exists>bs. rd_data r = bs @ rd_data r' \<and> n' = length bs)"
    by auto
  have run: "Muxer_ReadFrom E r x = bnd y (\<lambda>(res, x). Ret (res, x\<lparr>readers := readers x - 1\<rparr>))"
    using x y(1) by (simp add: Muxer_ReadFrom_def run_loop_def)
  show "(\<exists>m err r' x' bs. Muxer_ReadFrom E r x = Ret ((m, Some err, r'), x') \<and> rd_data r = bs @ rd_data r' \<and> m = length bs)
      \<or> (\<exists>p. Muxer_ReadFrom E r x = Panics p)"
    using y(2,3) unfolding run by (cases y) auto
qed

theorem ReadFrom_ends_witness:
  "\<exists>err r' x'. Muxer_ReadFrom rap_default \<lparr>rd_data = [0, 10, 0x20, 1, 2], rd_err = ErrEOF\<rparr> (running_mux 7)
     = Ret ((5, Some err, r'), x') \<and> rd_data r' = []"
proof -
  let ?r = "\<lparr>rd_data = [0, 10, 0x20, 1, 2], rd_err = ErrEOF\<rparr>"
  have x: "unhindered (running_mux 7) \<and> \<not> mu (running_mux 7) \<and> \<not> doneChan (chans (running_mux 7))"
    by (simp add: unhindered_def running_mux_def)
  have h: "HasPayload [0, 10, 0x20, 1] = Ret True" "SizeValue [0, 10, 0x20, 1] = Ret 10" by code_simp+
  obtain m err r' x' where c: "Muxer_ReadFrom rap_default ?r (running_mux 7) = Ret ((m, err, r'), x')" "rd_data r' = []"
    by (simp add: x h Muxer_ReadFrom_def run_loop_def ReadFrom_loop.simps [where r = ?r] FrameData_ReadFrom_def read_into_def
        FrameDataAlloc_def running_mux_def pool_init_def NewFrameData_def fcap_def frame_sizes ReadFull_def
        bit_simps report_read_def free_mux_def)
  from ReadFrom_ends [of rap_default ?r 0 0 "running_mux 7"] x c show ?thesis by auto
qed

section \<open>Writing frames to the stream\<close>

text \<open>The frames a sequence of rounds of the loop takes, and what they are on the wire.\<close>

fun event_frame :: "write_event \<Rightarrow> FrameData option" where
  "event_frame (WaitingFrame fd) = Some fd"
| "event_frame (LateFrame fdo) = fdo"
| "event_frame (NilThenFrame fdo) = fdo"
| "event_frame _ = None"

definition wire_of :: "FrameData list \<Rightarrow> byte list" where
  "wire_of fds = concat (map (\<lambda>fd. frame_wire (fbytes fd)) fds)"

definition taken :: "write_event list \<Rightarrow> FrameData list" where
  "taken evs = map (\<lambda>ev. the (event_frame ev)) evs"

definition sized :: "FrameData \<Rightarrow> bool" where
  "sized fd \<longleftrightarrow> 4 \<le> length (fbytes fd) \<and> length (fbytes fd) \<le> FrameMaxSize"

definition frame_event :: "write_event \<Rightarrow> bool" where
  "frame_event ev \<longleftrightarrow> (case event_frame ev of None \<Rightarrow> False | Some fd \<Rightarrow> sized fd)"

text \<open>
  How a run can end, apart from an error of the output: at the first or the second \<^verbatim>\<open>select\<close> with the
  Muxer closed, or at the second with a nil frame; and the error \<^verbatim>\<open>WriteTo\<close> then returns.
\<close>

fun end_event :: "write_event \<Rightarrow> bool" where
  "end_event (WaitingFrame fd) = False"
| "end_event (LateFrame fdo) = (fdo = None)"
| "end_event (NilThenFrame fdo) = (fdo = None)"
| "end_event _ = True"

definition end_error :: "write_event \<Rightarrow> goerr option" where
  "end_error z = (if z \<in> {LateFrame None, NilThenFrame None} then None else Some ServerClosedError)"

text \<open>
  What the writing loop needs of its output beyond \<^verbatim>\<open>io.Writer\<close>: flushing, if there is a flusher, keeps
  the bytes accepted. \<open>faultless\<close> is an output that reports no error.
\<close>

definition faultless :: "'w writer \<Rightarrow> ('w \<Rightarrow> goerr option \<times> 'w) option \<Rightarrow> bool" where
  "faultless wr fl \<longleftrightarrow> (\<forall>w bs. snd (snd (wr w bs)) = None) \<and> (\<forall>f w. fl = Some f \<longrightarrow> fst (f w) = None)"

locale mux_writer = io_writer wr out for wr :: "'w writer" and out :: "'w \<Rightarrow> byte list" +
  fixes fl :: "('w \<Rightarrow> goerr option \<times> 'w) option"
  assumes flush_out: "fl = Some f \<Longrightarrow> f w = (err, w') \<Longrightarrow> out w' = out w"
begin

lemma finish_output_returns:
  "\<exists>w'. finish_output fl n (Some e) w x = Ret ((n, Some e, w'), x) \<and> out w' = out w"
proof (cases fl)
  case (Some f)
  obtain e w' where "f w = (e, w')" by (cases "f w")
  with Some flush_out [OF Some this] show ?thesis by (simp add: finish_output_def)
qed (simp add: finish_output_def)

lemma finish_output_nil:
  "\<exists>err' w'. finish_output fl n None w x = Ret ((n, err', w'), x) \<and> out w' = out w \<and> (faultless wr fl \<longrightarrow> err' = None)"
proof (cases fl)
  case (Some f)
  obtain e w' where f: "f w = (e, w')" by (cases "f w")
  then have "faultless wr fl \<Longrightarrow> e = None" using Some unfolding faultless_def by (metis fst_conv)
  with Some f flush_out [OF Some f] show ?thesis by (simp add: finish_output_def)
qed (simp add: finish_output_def)

lemma flush_output_keeps:
  "\<exists>err u' w' x'. flush_output fl u w x = (err, u', w', x') \<and> out w' = out w \<and> (faultless wr fl \<longrightarrow> err = None)"
proof (cases fl)
  case (Some f)
  obtain e w' where f: "f w = (e, w')" by (cases "f w")
  then have "faultless wr fl \<Longrightarrow> e = None" using Some unfolding faultless_def by (metis fst_conv)
  with Some f flush_out [OF Some f] show ?thesis by (auto simp: flush_output_def)
qed (simp add: flush_output_def)

lemma write_all_faultless: "faultless wr fl \<Longrightarrow> \<exists>w' m. write_all wr bs w 0 = Some (w', m, None)"
proof (cases "bs = []")
  case False
  assume "faultless wr fl"
  then obtain w' m where step: "wr w bs = (w', m, None)" unfolding faultless_def by (metis prod.collapse)
  then have "m = length bs" using wr_count [OF step] wr_short [OF step] by force
  with step False show ?thesis by (simp add: write_all.simps)
qed (simp add: write_all.simps)

lemma write_frame_writes:
  assumes "sized fd"
  shows "\<exists>m err u' w' x'. write_frame wr fd u w x = Ret (m, err, u', w', x') \<and> m \<le> length (fbytes fd)
    \<and> out w' = out w @ take m (frame_wire (fbytes fd)) \<and> (err = None \<longrightarrow> m = length (fbytes fd))
    \<and> (faultless wr fl \<longrightarrow> err = None)"
proof -
  have len: "4 \<le> length (fbytes fd)" "length (fbytes fd) \<le> FrameMaxSize" using assms by (simp_all add: sized_def)
  from WriteTo_returns [OF this] obtain w' m err where wt: "FrameData_WriteTo wr fd w = Ret (w', m, err)" "m \<le> length (fbytes fd)"
    "out w' = out w @ take m (frame_wire (fbytes fd))" "err = None \<longrightarrow> m = length (fbytes fd)" by blast
  have "faultless wr fl \<longrightarrow> err = None"
    using write_all_faultless [of "frame_wire (fbytes fd)" w] wt(1) WriteTo_wire [OF len, of wr w] by auto
  with wt show ?thesis by (simp add: write_frame_def Let_def)
qed

text \<open>
  The result of a run over the frames with wire form \<open>S\<close> that ends at \<open>z\<close>: \<open>m\<close> bytes have been put
  out, and they are what is counted, except that a Muxer found closed at the first \<^verbatim>\<open>select\<close> makes the
  count 0 whatever has been written.
\<close>

definition written_upto ::
  "byte list \<Rightarrow> write_event \<Rightarrow> nat \<Rightarrow> 'w \<Rightarrow> nat \<Rightarrow> goerr option \<Rightarrow> 'w \<Rightarrow> bool" where
  "written_upto S z n w c err w' \<longleftrightarrow> (\<exists>m. m \<le> length S \<and> out w' = out w @ take m S
     \<and> (c = n + m \<or> z = DoneClosed \<and> c = 0 \<and> m = length S \<and> err = Some ServerClosedError)
     \<and> (faultless wr fl \<longrightarrow> m = length S \<and> err = end_error z \<and> c = (if z = DoneClosed then 0 else n + m)))"

lemma WriteTo_loop_stops:
  assumes "end_event z"
  shows "\<exists>c err w' x'. WriteTo_loop wr fl [z] n u w x = Ret ((c, err, w'), x') \<and> written_upto [] z n w c err w'"
proof -
  from flush_output_keeps obtain err u' w1 x1 where f: "flush_output fl u w x = (err, u', w1, x1)" "out w1 = out w"
    "faultless wr fl \<longrightarrow> err = None" by blast
  note fin = finish_output_returns [of n _ w1 x1] finish_output_nil [of n w1 x1] finish_output_returns [of n _ w x]
    finish_output_nil [of n w x]
  obtain e where e: "(if err \<noteq> None then err else Some ServerClosedError) = Some e" by (cases err) auto
  show ?thesis
  proof (cases z)
    case (LateFrame fdo)
    with assms f e fin(1) [of e] fin(2) show ?thesis
      by (cases err) (auto simp: written_upto_def end_error_def)
  next
    case LateDone
    with f e fin(1) [of e] show ?thesis by (auto simp: written_upto_def end_error_def)
  next
    case (NilThenFrame fdo)
    with assms fin(4) show ?thesis by (auto simp: written_upto_def end_error_def)
  next
    case NilThenDone
    with fin(3) [of ServerClosedError] show ?thesis by (auto simp: written_upto_def end_error_def)
  qed (use assms in \<open>simp_all add: written_upto_def end_error_def\<close>)
qed

text \<open>One frame taken, and then the rest of the run.\<close>

lemma written_upto_later:
  assumes "written_upto S z (n + length f) w1 c err w'" and "out w1 = out w @ f"
  shows "written_upto (f @ S) z n w c err w'"
proof -
  from assms(1) obtain m where "m \<le> length S" "out w' = out w1 @ take m S"
    "c = n + length f + m \<or> z = DoneClosed \<and> c = 0 \<and> m = length S \<and> err = Some ServerClosedError"
    "faultless wr fl \<longrightarrow> m = length S \<and> err = end_error z \<and> c = (if z = DoneClosed then 0 else n + length f + m)"
    unfolding written_upto_def by blast
  with assms(2) show ?thesis unfolding written_upto_def by (intro exI [of _ "length f + m"]) auto
qed

lemma written_upto_fault:
  assumes "\<not> faultless wr fl" and "m \<le> length S" and "out w' = out w @ take m S"
  shows "written_upto S z n w (n + m) err w'"
  using assms unfolding written_upto_def by blast

lemma WriteTo_loop_takes:
  assumes "sized fd"
    and "\<And>n u w x. \<exists>c err w' x'. WriteTo_loop wr fl es n u w x = Ret ((c, err, w'), x') \<and> written_upto S z n w c err w'"
  shows "\<exists>c err w' x'. bnd (write_frame wr fd u w x) (\<lambda>(written, err, u, w, x).
        if err = None then WriteTo_loop wr fl es (n + written) u w x
        else finish_output fl (n + written) err w x) = Ret ((c, err, w'), x')
    \<and> written_upto (frame_wire (fbytes fd) @ S) z n w c err w'"
proof -
  let ?f = "frame_wire (fbytes fd)"
  have lf: "length ?f = length (fbytes fd)" using assms(1) by (simp add: sized_def length_frame_wire)
  from write_frame_writes [OF assms(1)] obtain m err u' w' x' where wf: "write_frame wr fd u w x = Ret (m, err, u', w', x')"
    "m \<le> length ?f" "out w' = out w @ take m ?f" "err = None \<longrightarrow> m = length ?f" "faultless wr fl \<longrightarrow> err = None"
    using lf by metis
  show ?thesis
  proof (cases err)
    case None
    with assms(2) [of "n + m" u' w' x'] wf written_upto_later [of S z n ?f w' _ _ _ w] show ?thesis by auto
  next
    case (Some e)
    with wf have nf: "\<not> faultless wr fl" by auto
    from finish_output_returns [of "n + m" e w' x'] obtain w2 where
      w2: "finish_output fl (n + m) (Some e) w' x' = Ret ((n + m, Some e, w2), x')" "out w2 = out w'" by (elim exE conjE)
    have "written_upto (?f @ S) z n w (n + m) (Some e) w2"
      by (rule written_upto_fault [OF nf]) (use wf w2 in simp_all)
    with wf(1) w2(1) Some show ?thesis by simp
  qed
qed

lemma WriteTo_loop_ends:
  assumes "list_all frame_event evs" and "end_event z"
  shows "\<exists>c err w' x'. WriteTo_loop wr fl (evs @ [z]) n u w x = Ret ((c, err, w'), x')
    \<and> written_upto (wire_of (taken evs)) z n w c err w'"
  using assms(1)
proof (induction evs arbitrary: n u w x)
  case Nil
  with WriteTo_loop_stops [OF assms(2)] show ?case by (simp add: wire_of_def taken_def)
next
  case (Cons ev evs)
  then obtain fd where ev: "event_frame ev = Some fd" "sized fd" by (auto simp: frame_event_def split: option.splits)
  have S: "wire_of (taken (ev # evs)) = frame_wire (fbytes fd) @ wire_of (taken evs)" using ev by (simp add: wire_of_def taken_def)
  note frame = WriteTo_loop_takes [OF ev(2) Cons.IH, folded S]
  show ?case
  proof (cases ev)
    case (LateFrame fdo)
    from flush_output_keeps obtain err u' w' x' where f: "flush_output fl u w x = (err, u', w', x')" "out w' = out w"
      "faultless wr fl \<longrightarrow> err = None" by blast
    have w: "written_upto S z n w' = written_upto S z n w" for S by (intro ext) (simp add: written_upto_def f(2))
    show ?thesis
    proof (cases err)
      case None
      with LateFrame ev f frame [of u' w' x' n] Cons.prems show ?thesis by (simp add: w)
    next
      case (Some e)
      with f have nf: "\<not> faultless wr fl" by auto
      from finish_output_returns [of n e w' x'] obtain w2 where
        w2: "finish_output fl n (Some e) w' x' = Ret ((n, Some e, w2), x')" "out w2 = out w'" by (elim exE conjE)
      have "written_upto (wire_of (taken (ev # evs))) z n w (n + 0) (Some e) w2"
        by (rule written_upto_fault [OF nf]) (use f w2 in simp_all)
      with LateFrame f(1) w2(1) Some show ?thesis by simp
    qed
  qed (use ev frame [of u w x n] Cons.prems in simp_all)
qed

corollary WriteTo_loop_writes:
  assumes "list_all frame_event evs"
  shows "\<exists>m err w' x'. WriteTo_loop wr fl (evs @ [LateDone]) n u w x = Ret ((n + m, err, w'), x')
    \<and> m \<le> length (wire_of (taken evs)) \<and> out w' = out w @ take m (wire_of (taken evs))
    \<and> (faultless wr fl \<longrightarrow> m = length (wire_of (taken evs)) \<and> err = Some ServerClosedError)"
  using WriteTo_loop_ends [OF assms, of LateDone n u w x] by (auto simp: written_upto_def end_error_def)

end

interpretation frame_out: mux_writer "FrameData_Write E" fbytes "Some (\<lambda>w. (None, w))"
  by unfold_locales auto

text \<open>
  C10. The writing goroutine writes the frames of all Conns in the order it takes them, whole, with
  nothing in between: over any output that keeps the contract of \<^verbatim>\<open>io.Writer\<close> and whose flush loses
  nothing, for any sequence of frames, waiting or late or after a nil frame, and any way the loop ends
  after them (the Muxer found closed at the first or the second \<^verbatim>\<open>select\<close>, a nil frame at the second),
  \<^verbatim>\<open>WriteTo\<close> returns, and what it has put out is a prefix of \<open>m\<close> bytes of the frames' wire forms one
  after the other. The count it returns is \<open>m\<close>, with one exception: a Muxer found closed at the first
  \<^verbatim>\<open>select\<close> makes it 0, although all of the frames have been put out. If the output reports no error,
  what is put out is all of them, exactly the stream that a peer's \<^verbatim>\<open>ReadFrom\<close> takes apart again, and the
  error is that the server is closed, or none after a nil frame.
\<close>

theorem WriteTo_writes_in_order:
  assumes "mux_writer wr out fl" and "list_all frame_event evs" and "end_event z"
  shows "\<exists>c m err w' x'. Muxer_WriteTo wr fl (evs @ [z]) w x = Ret ((c, err, w'), x')
    \<and> m \<le> length (wire_of (taken evs)) \<and> out w' = out w @ take m (wire_of (taken evs))
    \<and> (c = m \<or> z = DoneClosed \<and> c = 0 \<and> m = length (wire_of (taken evs)) \<and> err = Some ServerClosedError)
    \<and> (faultless wr fl \<longrightarrow> c = (if z = DoneClosed then 0 else length (wire_of (taken evs))) \<and> err = end_error z
        \<and> out w' = out w @ rd_data (stream_of (map fbytes (taken evs)) e))"
proof -
  have "rd_data (stream_of (map fbytes (taken evs)) e) = wire_of (taken evs)"
    by (simp add: stream_of_def wire_of_def comp_def)
  moreover from mux_writer.WriteTo_loop_ends [OF assms, of 0 0 w x] obtain c err w' x' where
    r: "Muxer_WriteTo wr fl (evs @ [z]) w x = Ret ((c, err, w'), x')"
    "mux_writer.written_upto wr out fl (wire_of (taken evs)) z 0 w c err w'" by (auto simp: Muxer_WriteTo_def)
  ultimately show ?thesis unfolding mux_writer.written_upto_def [OF assms(1)] by fastforce
qed

theorem WriteTo_writes_in_order_witness:
  "let evs = [WaitingFrame \<lparr>fbytes = [0, 0, 0x80, 1], fspare = []\<rparr>, LateFrame (Some \<lparr>fbytes = [0, 0, 0xc0, 2], fspare = []\<rparr>)] in
   (\<exists>w' x'. Muxer_WriteTo (FrameData_Write rap_default) (Some (\<lambda>w. (None, w))) (evs @ [LateDone]) NewFrameData (running_mux 7)
        = Ret ((8, Some ServerClosedError, w'), x') \<and> fbytes w' = [0, 0, 0x80, 1, 0, 0, 0xc0, 2])
   \<and> (\<exists>w' x'. Muxer_WriteTo (FrameData_Write rap_default) (Some (\<lambda>w. (None, w))) (evs @ [DoneClosed]) NewFrameData (running_mux 7)
        = Ret ((0, Some ServerClosedError, w'), x') \<and> fbytes w' = [0, 0, 0x80, 1, 0, 0, 0xc0, 2])"
proof -
  let ?wr = "FrameData_Write rap_default" and ?fl = "Some (\<lambda>w :: FrameData. (None :: goerr option, w))"
  let ?evs = "[WaitingFrame \<lparr>fbytes = [0, 0, 0x80, 1], fspare = []\<rparr>, LateFrame (Some \<lparr>fbytes = [0, 0, 0xc0, 2], fspare = []\<rparr>)]"
  have mw: "mux_writer ?wr fbytes ?fl" by (rule frame_out.mux_writer_axioms)
  have ev: "list_all frame_event ?evs" by (simp add: frame_event_def sized_def frame_sizes)
  have ff: "faultless ?wr ?fl" by (auto simp: faultless_def FrameData_Write_def)
  have st: "rd_data (stream_of (map fbytes (taken ?evs)) ErrEOF) = [0, 0, 0x80, 1, 0, 0, 0xc0, 2]" "length (wire_of (taken ?evs)) = 8"
    "fbytes NewFrameData = []"
    by (simp_all add: taken_def stream_of_def wire_of_def frame_wire_def Let_def has_payload_def NewFrameData_def)
  from WriteTo_writes_in_order [OF mw ev, of LateDone NewFrameData "running_mux 7" ErrEOF]
    WriteTo_writes_in_order [OF mw ev, of DoneClosed NewFrameData "running_mux 7" ErrEOF]
  show ?thesis using ff st unfolding Let_def by (auto simp: end_error_def)
qed

section \<open>Frames for no Conn\<close>

lemma dispatch_no_conn:
  assumes "frame_ok bs" and "h_id (hdr_view bs) \<noteq> 0x1fff" and "fbytes fd = frame_wire bs"
    and "h_id (hdr_view bs) < length (connLookup x) \<longrightarrow> connLookup x ! h_id (hdr_view bs) = None"
  shows "dispatch E fd x = Panics (if h_id (hdr_view bs) < length (connLookup x) then NilDeref else IndexOutOfRange)"
proof -
  from assms(1) have len: "4 \<le> length bs" "length bs \<le> FrameMaxSize" by (simp_all add: frame_ok_def)
  from len(1) obtain h p where bs: "bs = hdr_bytes h @ p" "hdr_ok h" by (rule frame_cases) blast
  define h' where "h' = (if has_payload h then h\<lparr>h_size := length p\<rparr> else h)"
  have "length p < 65536" using len(2) by (simp add: bs(1) frame_sizes)
  then have ok: "hdr_ok h'" using bs(2) by (simp add: h'_def)
  have id: "h_id h' = h_id h" "h_id (hdr_view bs) = h_id h" using bs by (simp_all add: h'_def)
  have "fbytes fd = hdr_bytes h' @ p" unfolding assms(3) bs(1) frame_wire_bytes [OF bs(2)] h'_def ..
  moreover have "unat (of_nat (h_id h) :: ConnID) = h_id h"
    using bs(2) by (simp add: hdr_ok_def unat_of_nat take_bit_nat_eq_self)
  ultimately show ?thesis using assms(2,4) id hdr_read(2) [OF ok] hdr_classify(5) [OF ok]
    by (simp add: dispatch_def dispatch_conn_def idx_def)
qed

text \<open>
  C33. A peer can stop the process with one frame. The lookup table has \<^verbatim>\<open>MaxConnID + 1\<close> entries, and
  the reading goroutine indexes it with whatever Conn ID a frame carries: if \<^verbatim>\<open>MaxConnID\<close> has been set
  below the protocol's maximum, any frame of the stream with a larger ID, short of the one of control
  frames, makes \<^verbatim>\<open>ReadFrom\<close> panic, whatever the frame says; and a frame for a Conn whose entry has been
  cleared, as closing and shutting down do while the reader still runs, dereferences nil.
\<close>

theorem frame_for_no_conn_panics:
  assumes "list_all frame_ok (bs # bss)" and "mux_room x" and "collector x = None" and "\<not> mu x" and "\<not> doneChan (chans x)"
    and "h_id (hdr_view bs) \<noteq> 0x1fff"
    and "h_id (hdr_view bs) < length (connLookup x) \<longrightarrow> connLookup x ! h_id (hdr_view bs) = None"
  shows "Muxer_ReadFrom E (stream_of (bs # bss) e) x =
    Panics (if h_id (hdr_view bs) < length (connLookup x) then NilDeref else IndexOutOfRange)"
proof -
  have "pool_ok (mpool x)" using assms(2) by (simp add: mux_room_def)
  then obtain fd p where fd: "FrameDataAlloc (mpool x) = Ret (fd, p)" by (rule Alloc_empty)
  have ok: "frame_ok bs" using assms(1) by simp
  have run: "dispatch E \<lparr>fbytes = frame_wire bs, fspare = s\<rparr> y
      = Panics (if h_id (hdr_view bs) < length (connLookup x) then NilDeref else IndexOutOfRange)"
    if "connLookup y = connLookup x" for s y
    using assms(7) that by (subst dispatch_no_conn [OF ok assms(6)]) simp_all
  have "mux_room (x\<lparr>readers := Suc (readers x)\<rparr>)" using assms(2) by (simp add: mux_room_def)
  then have "ReadFrom_loop E (stream_of (bs # bss) e) 0 0 (x\<lparr>readers := Suc (readers x)\<rparr>) =
      Some (Panics (if h_id (hdr_view bs) < length (connLookup x) then NilDeref else IndexOutOfRange))"
    using assms(1,3) fd by (subst ReadFrom_loop_deliver) (simp_all add: run)
  then show ?thesis using assms(4,5) by (simp add: Muxer_ReadFrom_def run_loop_def)
qed

theorem frame_for_no_conn_panics_witness:
  "Muxer_ReadFrom rap_default (stream_of [[0, 0, 0x80, 1]] ErrEOF) (running_mux 7) = Panics IndexOutOfRange
   \<and> Muxer_ReadFrom rap_default (stream_of [[0, 0, 0x80, 0]] ErrEOF) (running_mux 7) = Panics NilDeref"
proof -
  have x: "mux_room (running_mux 7)" "collector (running_mux 7) = None" "\<not> mu (running_mux 7)" "\<not> doneChan (chans (running_mux 7))"
    "connLookup (running_mux 7) = [None]" by (simp_all add: running_mux_def mux_room_def)
  have ok: "list_all frame_ok [[0, 0, 0x80, b]]" for b by (simp add: frame_ok_def frame_sizes has_payload_def)
  show ?thesis
    using frame_for_no_conn_panics [OF ok x(1-4), of 1 rap_default ErrEOF]
      frame_for_no_conn_panics [OF ok x(1-4), of 0 rap_default ErrEOF]
    by (simp add: x(5))
qed

end
