(* ===== verification/Muxer_Close.thy ===== *)
theory Muxer_Close
  imports Muxer_Stream
begin

unbundle bit_operations_syntax

text \<open>
  Closing and shutting down a Muxer: what happens to the Conns that are not in use and to those that
  are, and what \<^verbatim>\<open>Shutdown\<close> returns.
\<close>

section \<open>Forgetting the idle Conns\<close>

text \<open>
  No lock is held by an idle Conn, and each is a Conn that the Muxer made itself, so with an ID of
  its own in the lookup table.
\<close>

definition idle_conn :: "Muxer \<Rightarrow> connref \<Rightarrow> bool" where
  "idle_conn x c \<longleftrightarrow> c < length (heap x) \<and> \<not> cmu (heap x ! c)
     \<and> 0 < unat (connID (heap x ! c)) \<and> unat (connID (heap x ! c)) < length (connLookup x)"

definition shut_inv :: "Muxer \<Rightarrow> bool" where
  "shut_inv x \<longleftrightarrow> \<not> mu x \<and> connLookup x \<noteq> [] \<and> connLookup x ! 0 \<noteq> None \<and> doneChan (chans x)
     \<and> list_all (idle_conn x) (conns (chans x))"

lemma cmu_view [simp]: "cmu (conn_view k x) = cmu k"
  by (cases k) (simp add: conn_view_def conn.defs)

lemma cmu_truncate [simp]: "cmu (conn.truncate s) = cmu s"
  by (cases s) (simp add: conn.defs)

text \<open>The Muxers that differ only in what \<open>drop_idle\<close> may change, on the Conns of a list.\<close>

definition forgot :: "connref list \<Rightarrow> Muxer \<Rightarrow> Muxer \<Rightarrow> bool" where
  "forgot cs x x' \<longleftrightarrow> mu x' = mu x \<and> length (connLookup x') = length (connLookup x) \<and> connLookup x' ! 0 = connLookup x ! 0
     \<and> doneChan (chans x') = doneChan (chans x) \<and> ReadTimeout x' = ReadTimeout x \<and> length (heap x') = length (heap x)
     \<and> (\<forall>d. d \<notin> set cs \<longrightarrow> heap x' ! d = heap x ! d)"

lemma forgot_trans: "forgot cs x y \<Longrightarrow> forgot ds y z \<Longrightarrow> forgot (cs @ ds) x z"
  by (simp add: forgot_def)

lemma drop_one:
  assumes "idle_conn x c"
  shows "\<exists>y. on_conn c (OnRecycle None) (x\<lparr>chans := (chans x)\<lparr>conns := cs\<rparr>\<rparr>) = Ret ((), y)
    \<and> forgot [c] x y \<and> conns (chans y) = cs \<and> connLookup y = connLookup x
    \<and> connID (heap y ! c) = connID (heap x ! c) \<and> \<not> cmu (heap y ! c)"
proof -
  let ?x = "x\<lparr>chans := (chans x)\<lparr>conns := cs\<rparr>\<rparr>" and ?k = "heap x ! c"
  have c: "c < length (heap x)" "\<not> cmu ?k" using assms by (simp_all add: idle_conn_def)
  let ?s = "(conn_view ?k ?x)\<lparr>onRecycle := None, cmu := False\<rparr>"
  have "on_conn c (OnRecycle None) ?x = Ret ((), put_conn c ?s ?x)"
    using c by (simp add: on_conn_def OnRecycle_def lock_cmu_def)
  then show ?thesis using c by (simp add: forgot_def put_conn_def)
qed

lemma drop_idle_returns:
  assumes "list_all (idle_conn x) cs"
  shows "\<exists>x'. drop_idle cs x = Ret x' \<and> forgot cs x x' \<and> (cs \<noteq> [] \<longrightarrow> conns (chans x') = [])"
  using assms
proof (induction cs arbitrary: x)
  case (Cons c cs)
  then have c: "idle_conn x c" by simp
  from drop_one [OF this, of cs] obtain y where y: "on_conn c (OnRecycle None) (x\<lparr>chans := (chans x)\<lparr>conns := cs\<rparr>\<rparr>) = Ret ((), y)"
    "forgot [c] x y" "conns (chans y) = cs" "connLookup y = connLookup x" "connID (heap y ! c) = connID (heap x ! c)"
    "\<not> cmu (heap y ! c)" by blast
  let ?z = "y\<lparr>connLookup := (connLookup x)[unat (connID (heap x ! c)) := None]\<rparr>"
  have id: "0 < unat (connID (heap x ! c))" "unat (connID (heap x ! c)) < length (connLookup x)" using c by (simp_all add: idle_conn_def)
  have z: "forgot [c] x ?z" using y(2) id(1) by (simp add: forgot_def)
  have "idle_conn ?z d" if "idle_conn x d" for d
    using that y(2,5,6) by (cases "d = c") (auto simp: idle_conn_def forgot_def)
  then have "list_all (idle_conn ?z) cs" using Cons.prems by (auto simp: list_all_iff)
  from Cons.IH [OF this] obtain x' where x': "drop_idle cs ?z = Ret x'" "forgot cs ?z x'" "cs \<noteq> [] \<longrightarrow> conns (chans x') = []" by blast
  have "conns (chans x') = []" using x' y(3) by (cases cs) auto
  moreover have "forgot (c # cs) x x'" using forgot_trans [OF z x'(2)] by simp
  ultimately show ?case using y x'(1) id(2) by (simp add: put_def)
qed (simp add: forgot_def)

lemma closeIdleConns_returns:
  assumes "shut_inv x"
  shows "\<exists>x'. closeIdleConns x = Ret (False, x') \<and> forgot (conns (chans x)) x x' \<and> conns (chans x') = [] \<and> shut_inv x'"
proof -
  let ?x = "x\<lparr>mu := True\<rparr>"
  have inv: "\<not> mu x" "connLookup x \<noteq> []" "connLookup x ! 0 \<noteq> None" "doneChan (chans x)" using assms by (simp_all add: shut_inv_def)
  have "idle_conn ?x = idle_conn x" by (simp add: idle_conn_def fun_eq_iff)
  then have "list_all (idle_conn ?x) (conns (chans x))" using assms by (simp add: shut_inv_def)
  from drop_idle_returns [OF this] obtain y where y: "drop_idle (conns (chans x)) ?x = Ret y" "forgot (conns (chans x)) ?x y"
    "conns (chans x) \<noteq> [] \<longrightarrow> conns (chans y) = []" by blast
  have conns: "conns (chans y) = []" using y by (cases "conns (chans x)") auto
  have "connLookup y \<noteq> []" "connLookup y ! 0 \<noteq> None" using y(2) inv by (auto simp: forgot_def)
  then have "\<not> list_all (\<lambda>co. co = None) (connLookup y)" by (cases "connLookup y") auto
  moreover have "forgot (conns (chans x)) x (y\<lparr>mu := False\<rparr>)" using y(2) inv(1) by (simp add: forgot_def)
  moreover from this have "shut_inv (y\<lparr>mu := False\<rparr>)" using inv conns by (auto simp: shut_inv_def forgot_def)
  ultimately show ?thesis using y(1) inv(1) conns by (simp add: closeIdleConns_def lock_mu_def closeIdleConnsLocked_def)
qed

lemma Close_twice: "\<not> mu x \<Longrightarrow> doneChan (chans x) \<Longrightarrow> Muxer_Close E x = Ret (None, x)"
  by (simp add: Muxer_Close_def lock_mu_def closeDoneChanLocked_def)

section \<open>Shutting down\<close>

lemma Shutdown_loop_times_out:
  assumes "shut_inv x" and "\<And>k y. shut_inv y \<Longrightarrow> shut_inv (meanwhile k y)"
  shows "\<exists>x'. Shutdown_loop E meanwhile k x = Ret (Some TimeoutError, x') \<and> shut_inv x'"
  using assms(1)
proof (induction k arbitrary: x)
  case 0
  from closeIdleConns_returns [OF this] obtain y where y: "closeIdleConns x = Ret (False, y)" "shut_inv y" by blast
  then have "Muxer_Close E y = Ret (None, y)" by (intro Close_twice) (simp_all add: shut_inv_def)
  with y show ?case by simp
next
  case (Suc k)
  from closeIdleConns_returns [OF Suc.prems] obtain y where y: "closeIdleConns x = Ret (False, y)" "shut_inv y" by blast
  from Suc.IH [OF assms(2) [OF y(2), of k]] y(1) show ?case by simp
qed

lemma Shutdown_loop_quiet:
  assumes "shut_inv x" and "Shutdown_loop E (\<lambda>_ y. y) k x = Ret (err, x')"
  shows "forgot (conns (chans x)) x x'"
  using assms
proof (induction k arbitrary: x)
  case 0
  from closeIdleConns_returns [OF 0(1)] obtain y where y: "closeIdleConns x = Ret (False, y)" "shut_inv y"
    "forgot (conns (chans x)) x y" by blast
  then have "Muxer_Close E y = Ret (None, y)" by (intro Close_twice) (simp_all add: shut_inv_def)
  with y 0(2) show ?case by simp
next
  case (Suc k)
  from closeIdleConns_returns [OF Suc.prems(1)] obtain y where y: "closeIdleConns x = Ret (False, y)" "shut_inv y"
    "forgot (conns (chans x)) x y" "conns (chans y) = []" by blast
  from Suc.IH [OF y(2)] Suc.prems(2) y(1) have "forgot (conns (chans y)) y x'" by simp
  from forgot_trans [OF y(3) this] y(4) show ?case by simp
qed

text \<open>The entry of Conn 0 in the lookup table is never taken out.\<close>

lemma fill_lookup_fills:
  assumes "fill_lookup E is x = Ret x'" and "i < length (connLookup x)" and "i \<in> set is \<or> connLookup x ! i \<noteq> None"
  shows "connLookup x' ! i \<noteq> None"
  using assms
proof (induction "is" arbitrary: x)
  case (Cons j "is")
  from Cons.prems(1) obtain s :: "mux_chans sys" where run: "fill_lookup E is (x\<lparr>heap := heap x @ [conn.truncate s], serials := serials x + 1,
      connLookup := (connLookup x)[j := Some (length (heap x))]\<rparr>) = Ret x'"
    by (auto simp: alloc_conn_def elim!: bnd_RetE)
  show ?case using Cons.prems(2,3) by (intro Cons.IH [OF run]) (cases "i = j"; auto)+
qed simp

lemma NewConn_lookup0:
  assumes "Muxer_NewConn E x = Ret (r, x')" and "0 \<le> connLastID x"
  shows "connLookup x' ! 0 = connLookup x ! 0"
  using assms
  by (auto simp: Muxer_NewConn_def alloc_conn_def put_def put_conn_def Let_def
    elim!: bnd_RetE on_conn_RetE split: list.splits if_splits)

lemma lookup0_kept:
  assumes "mux_reach E x out" and "MaxConnID E \<le> ProtocolMaxConnID"
  shows "connLookup x ! 0 \<noteq> None"
  using assms
proof (induction rule: mux_reach.induct)
  case (start serial p t orc x)
  show ?case using fill_lookup_fills [OF start.hyps [unfolded NewMuxer_def], of 0] by auto
next
  case (new x out c x')
  have "0 \<le> connLastID x" using mux_reach_hold [OF new.hyps(1) new.prems] by (simp add: hold_inv_def)
  with NewConn_lookup0 [OF new.hyps(2)] new.IH [OF new.prems] show ?case by simp
next
  case (release x out c x')
  then show ?case by (auto elim: on_conn_RetE)
next
  case (other x out x')
  then show ?case by (simp add: elsewhere_def)
qed

lemma reach_shut_inv:
  assumes "mux_reach E x out" and "MaxConnID E \<le> ProtocolMaxConnID"
    and "\<not> mu x" and "list_all (\<lambda>c. \<not> cmu (heap x ! c)) (conns (chans x))"
  shows "shut_inv (x\<lparr>chans := (chans x)\<lparr>doneChan := True\<rparr>\<rparr>)"
proof -
  let ?x = "x\<lparr>chans := (chans x)\<lparr>doneChan := True\<rparr>\<rparr>"
  have inv: "hold_inv E x out" using assms(1,2) by (rule mux_reach_hold)
  have "idle_conn ?x c" if c: "c \<in> set (conns (chans x))" for c
  proof -
    have "unat (connID (heap x ! c)) \<in> set (ids x (conns (chans x) @ out))" using c unfolding ids_def by auto
    then have "1 \<le> unat (connID (heap x ! c))" "unat (connID (heap x ! c)) \<le> nat (connLastID x)"
      using inv unfolding hold_inv_def by simp_all
    moreover have "connLastID x \<le> int (unat (MaxConnID E))" "0 \<le> connLastID x" "length (connLookup x) = Suc (unat (MaxConnID E))"
      using inv unfolding hold_inv_def by blast+
    ultimately have "0 < unat (connID (heap x ! c))" "unat (connID (heap x ! c)) < length (connLookup x)" by linarith+
    moreover have "c < length (heap x)" using inv c unfolding hold_inv_def list_all_iff entered_def by simp
    ultimately show ?thesis using assms(4) c by (simp add: idle_conn_def list_all_iff)
  qed
  moreover have "connLookup x \<noteq> []" using inv by (auto simp: hold_inv_def)
  ultimately show ?thesis using assms(3) lookup0_kept [OF assms(1,2)] by (simp add: shut_inv_def list_all_iff)
qed

text \<open>
  C32. \<^verbatim>\<open>Shutdown\<close> never succeeds and aborts nothing. However many Conns are in use, none included, and
  whatever the rest of the program does meanwhile (as long as it leaves the entry of Conn 0 alone and
  releases every lock), it runs until its ticker fires and returns a timeout: the lookup table is
  filled with a Conn for every ID at the start, and only those that come back through the channel
  are taken out, which Conn 0 never does. And the \<^verbatim>\<open>Close\<close> with which it means to abort the requests
  still running finds the Muxer closed already: with nothing else happening, every Conn that was handed
  out is at the end in the state it was in before. With a \<^verbatim>\<open>ReadTimeout\<close> of zero, which means no timeout
  elsewhere, it panics instead.
\<close>

theorem Shutdown_never_succeeds:
  assumes "sanitycheck E" and "mux_reach E x out" and "\<not> mu x"
    and "list_all (\<lambda>c. \<not> cmu (heap x ! c)) (conns (chans x))"
    and "\<And>k y. shut_inv y \<Longrightarrow> shut_inv (meanwhile k y)"
  shows "if 0 < ReadTimeout x
    then \<exists>x'. Muxer_Shutdown E meanwhile rounds x = Ret (Some TimeoutError, x')
      \<and> (meanwhile = (\<lambda>_ y. y) \<longrightarrow> list_all (\<lambda>c. heap x' ! c = heap x ! c) out)
    else Muxer_Shutdown E meanwhile rounds x = Panics (PanicMsg ''non-positive interval for NewTicker'')"
proof -
  let ?x = "x\<lparr>chans := (chans x)\<lparr>doneChan := True\<rparr>\<rparr>"
  have P: "MaxConnID E \<le> ProtocolMaxConnID" using assms(1) by (rule sanity_ProtocolMax)
  have shut: "shut_inv ?x" using assms(2) P assms(3,4) by (rule reach_shut_inv)
  have closed: "closeDoneChan x = Ret (\<not> doneChan (chans x), ?x)"
    using assms(3) by (cases x; cases "chans x") (auto simp: closeDoneChan_def lock_mu_def closeDoneChanLocked_def)
  obtain y where y: "Shutdown_loop E meanwhile rounds ?x = Ret (Some TimeoutError, y)" "shut_inv y"
    using Shutdown_loop_times_out [where meanwhile = meanwhile, OF shut] assms(5) by blast
  have "\<not> mu y" using y(2) by (simp add: shut_inv_def)
  then obtain z where z: "closeReader y = Ret (closeErr y, z)" "heap z = heap y"
    by (simp add: closeReader_def lock_mu_def closeReaderLocked_def)
  have same: "list_all (\<lambda>c. heap y ! c = heap x ! c) out" if "meanwhile = (\<lambda>_ y. y)"
  proof -
    have "forgot (conns (chans ?x)) ?x y" using Shutdown_loop_quiet [OF shut] y(1) that by blast
    moreover have "c \<notin> set (conns (chans x))" if "c \<in> set out" for c
      using mux_reach_hold [OF assms(2) P] that unfolding hold_inv_def ids_append by (auto simp: ids_def)
    ultimately show ?thesis by (simp add: forgot_def list_all_iff)
  qed
  show ?thesis
  proof (cases "0 < ReadTimeout x")
    case True
    then have "Muxer_Shutdown E meanwhile rounds x = (if \<not> doneChan (chans x) then Ret (Some TimeoutError, z) else Ret (Some TimeoutError, y))"
      by (simp add: Muxer_Shutdown_def closed y(1) z(1) del: Shutdown_loop.simps)
    then show ?thesis using True same z(2) by auto
  qed (simp add: Muxer_Shutdown_def closed)
qed

theorem Shutdown_never_succeeds_witness:
  "\<exists>x x'. mux_reach rap_default x [] \<and> Muxer_Shutdown rap_default (\<lambda>_ y. y) 3 x = Ret (Some TimeoutError, x')"
proof -
  have E: "sanitycheck rap_default" by simp
  obtain x where x: "NewMuxer rap_default 0 (pool_init rap_default) 0 (\<lambda>_. 0) = Ret x"
    using NewMuxer_Ret [OF sanity_ProtocolMax [OF E]] by blast
  note reach = mux_reach.start [OF x]
  have keeps: "chans x = \<lparr>writeCh = [], writing = False, doneChan = False, conns = [], conns_cap = 8190\<rparr>" "\<not> mu x" "0 < ReadTimeout x"
    using fill_lookup_keeps [OF x [unfolded NewMuxer_def]] by (simp_all add: DefaultReadTimeout_def)
  show ?thesis
    using Shutdown_never_succeeds [OF E reach keeps(2), of "\<lambda>_ y. y" 3] keeps reach by auto
qed

end
