(* ===== verification/Client.thy ===== *)
theory Client
  imports Muxer_Close Conn_Http
begin

unbundle bit_operations_syntax

text \<open>
  \<^verbatim>\<open>src/client.go\<close>. A Client keeps the Muxers it has dialled, finds a free Conn on one of them or dials
  another, and passes a request through the Conn and its response back.
\<close>

section \<open>State\<close>

text \<open>
  A Muxer is an object: \<open>cl_store\<close> is the store and a reference an index into it, so that \<^verbatim>\<open>c.mux\<close> and
  \<^verbatim>\<open>c.muxers\<close> can share one; an entry of \<^verbatim>\<open>c.muxers\<close> may be nil. A zero \<^verbatim>\<open>time.Time\<close> is \<^const>\<open>None\<close>. \<open>cl_dialed\<close>
  counts the calls of \<^verbatim>\<open>net.DialTimeout\<close>; \<open>cl_serials\<close>, \<open>cl_now\<close> and \<open>cl_choices\<close> are what new Muxers start with.
\<close>

type_synonym muxref = nat

record Client =
  cl_Addr :: string
  cl_DialTimeout :: int
  cl_ReadTimeout :: int
  cl_WriteTimeout :: int
  cl_mux :: "muxref option"
  cl_paused :: bool
  cl_mu :: bool
  cl_lastError :: "goerr option"
  cl_lastAttempt :: "int option"
  cl_firstAttempt :: "int option"
  cl_muxers :: "muxref option list"
  cl_store :: "Muxer list"
  cl_dialed :: nat
  cl_serials :: u32
  cl_now :: int
  cl_choices :: "nat \<Rightarrow> nat"

definition NewClient :: "string \<Rightarrow> u32 \<Rightarrow> int \<Rightarrow> (nat \<Rightarrow> nat) \<Rightarrow> Client" where
  "NewClient addr serial t orc =
     \<lparr>cl_Addr = addr, cl_DialTimeout = 60000000000, cl_ReadTimeout = 0, cl_WriteTimeout = 0, cl_mux = None,
      cl_paused = False, cl_mu = False, cl_lastError = None, cl_lastAttempt = None, cl_firstAttempt = None,
      cl_muxers = [], cl_store = [], cl_dialed = 0, cl_serials = serial, cl_now = t, cl_choices = orc\<rparr>"

definition lock_client :: "(Client \<Rightarrow> ('a \<times> Client) go) \<Rightarrow> Client \<Rightarrow> ('a \<times> Client) go" where
  "lock_client f c =
     (if cl_mu c then Blocks else bnd (f (c\<lparr>cl_mu := True\<rparr>)) (\<lambda>(r, c). Ret (r, c\<lparr>cl_mu := False\<rparr>)))"

text \<open>A method of the Muxer \<open>m\<close>.\<close>

definition on_mux :: "muxref \<Rightarrow> (Muxer \<Rightarrow> ('a \<times> Muxer) go) \<Rightarrow> Client \<Rightarrow> ('a \<times> Client) go" where
  "on_mux m f c =
     (if m < length (cl_store c)
      then bnd (f (cl_store c ! m)) (\<lambda>(r, x). Ret (r, c\<lparr>cl_store := (cl_store c)[m := x]\<rparr>))
      else Panics NilDeref)"

section \<open>Closing\<close>

fun close_muxers :: "rap_config \<Rightarrow> nat list \<Rightarrow> goerr option \<Rightarrow> Client \<Rightarrow> (goerr option \<times> Client) go" where
  "close_muxers E [] err c = Ret (err, c)"
| "close_muxers E (i # is) err c =
     bnd (idx (cl_muxers c) i) (\<lambda>mo.
       let c = c\<lparr>cl_muxers := (cl_muxers c)[i := None]\<rparr> in
       case mo of
         None \<Rightarrow> close_muxers E is err c
       | Some m \<Rightarrow> bnd (on_mux m (Muxer_Close E) c) (\<lambda>(muxerr, c). close_muxers E is (if err = None then muxerr else err) c))"

definition closeMuxersLocked :: "rap_config \<Rightarrow> Client \<Rightarrow> (goerr option \<times> Client) go" where
  "closeMuxersLocked E c = close_muxers E [0..<length (cl_muxers c)] None c"

definition closeMuxers :: "rap_config \<Rightarrow> Client \<Rightarrow> (goerr option \<times> Client) go" where
  "closeMuxers E = lock_client (closeMuxersLocked E)"

definition Client_Close :: "rap_config \<Rightarrow> Client \<Rightarrow> (goerr option \<times> Client) go" where
  "Client_Close E c =
     lock_client (\<lambda>c. bnd (closeMuxersLocked E c) (\<lambda>(_, c). Ret (None, c\<lparr>cl_muxers := []\<rparr>))) (c\<lparr>cl_paused := True\<rparr>)"

text \<open>\<open>meanwhile\<close> and \<open>rounds\<close> are those of \<^const>\<open>Muxer_Shutdown\<close>, Muxer by Muxer.\<close>

fun shutdown_muxers ::
  "rap_config \<Rightarrow> (nat \<Rightarrow> nat \<Rightarrow> Muxer \<Rightarrow> Muxer) \<Rightarrow> (nat \<Rightarrow> nat) \<Rightarrow> nat list \<Rightarrow> Client \<Rightarrow> (goerr option \<times> Client) go" where
  "shutdown_muxers E meanwhile rounds [] c = Ret (None, c)"
| "shutdown_muxers E meanwhile rounds (i # is) c =
     bnd (idx (cl_muxers c) i) (\<lambda>mo.
       let c = c\<lparr>cl_muxers := (cl_muxers c)[i := None]\<rparr> in
       case mo of
         None \<Rightarrow> shutdown_muxers E meanwhile rounds is c
       | Some m \<Rightarrow>
           bnd (on_mux m (Muxer_Shutdown E (meanwhile i) (rounds i)) c) (\<lambda>(err, c).
             if err \<noteq> None then Ret (err, c) else shutdown_muxers E meanwhile rounds is c))"

definition shutdownMuxers ::
  "rap_config \<Rightarrow> (nat \<Rightarrow> nat \<Rightarrow> Muxer \<Rightarrow> Muxer) \<Rightarrow> (nat \<Rightarrow> nat) \<Rightarrow> Client \<Rightarrow> (goerr option \<times> Client) go" where
  "shutdownMuxers E meanwhile rounds = lock_client (\<lambda>c. shutdown_muxers E meanwhile rounds [0..<length (cl_muxers c)] c)"

definition Client_Shutdown ::
  "rap_config \<Rightarrow> (nat \<Rightarrow> nat \<Rightarrow> Muxer \<Rightarrow> Muxer) \<Rightarrow> (nat \<Rightarrow> nat) \<Rightarrow> Client \<Rightarrow> (goerr option \<times> Client) go" where
  "Client_Shutdown E meanwhile rounds c =
     bnd (shutdownMuxers E meanwhile rounds (c\<lparr>cl_paused := True\<rparr>)) (\<lambda>(err, c).
       if err \<noteq> None then bnd (closeMuxers E c) (\<lambda>(_, c). Ret (err, c)) else Ret (None, c))"

section \<open>Finding a Conn\<close>

text \<open>
  \<^verbatim>\<open>dialLocked\<close>: \<open>dial k\<close> is the error of the \<open>k\<close>-th call of \<^verbatim>\<open>net.DialTimeout\<close>, if any. \<^verbatim>\<open>go mux.ServeHTTP(nil)\<close>
  starts the Muxer's goroutines, without a handler.
\<close>

definition dialLocked :: "rap_config \<Rightarrow> (nat \<Rightarrow> goerr option) \<Rightarrow> Client \<Rightarrow> (muxref option \<times> Client) go" where
  "dialLocked E dial c =
     (case dial (cl_dialed c) of
        Some err \<Rightarrow>
          Ret (None, c\<lparr>cl_dialed := cl_dialed c + 1, cl_lastError := Some err, cl_lastAttempt := Some (cl_now c),
                       cl_firstAttempt := (if cl_firstAttempt c = None then Some (cl_now c) else cl_firstAttempt c)\<rparr>)
      | None \<Rightarrow>
          let c = c\<lparr>cl_dialed := cl_dialed c + 1, cl_lastError := None, cl_lastAttempt := None, cl_firstAttempt := None\<rparr> in
          bnd (NewMuxer E (cl_serials c) (pool_init E) (cl_now c) (cl_choices c)) (\<lambda>x.
            let m = length (cl_store c); x = x\<lparr>chans := (chans x)\<lparr>writing := True\<rparr>\<rparr> in
            Ret (Some m, c\<lparr>cl_store := cl_store c @ [x], cl_serials := serials x, cl_muxers := cl_muxers c @ [Some m]\<rparr>)))"

fun select_best :: "rap_config \<Rightarrow> Muxer list \<Rightarrow> muxref option list \<Rightarrow> int \<Rightarrow> muxref option \<Rightarrow> muxref option go" where
  "select_best E st [] bestLength best = Ret best"
| "select_best E st (None # ms) bestLength best = Panics NilDeref"
| "select_best E st (Some m # ms) bestLength best =
     bnd (idx st m) (\<lambda>x.
       let avail = AvailableConns E x in
       if avail > bestLength then select_best E st ms avail (Some m) else select_best E st ms bestLength best)"

definition selectBestMuxLocked :: "rap_config \<Rightarrow> Client \<Rightarrow> muxref option go" where
  "selectBestMuxLocked E c = select_best E (cl_store c) (cl_muxers c) 0 None"

definition getMuxLocked :: "Client \<Rightarrow> muxref option" where
  "getMuxLocked c = cl_mux c"

definition getMux :: "Client \<Rightarrow> (muxref option \<times> Client) go" where
  "getMux = lock_client (\<lambda>c. Ret (getMuxLocked c, c))"

definition setMuxLocked :: "muxref option \<Rightarrow> Client \<Rightarrow> Client" where
  "setMuxLocked m c = c\<lparr>cl_mux := m\<rparr>"

text \<open>The error and, when more than one attempt has failed, for how long (the largest \<^verbatim>\<open>Duration\<close> since the zero time).\<close>

definition offlineError :: "Client \<Rightarrow> goerr \<times> int option" where
  "offlineError c =
     (case cl_lastError c of Some err \<Rightarrow> err | None \<Rightarrow> ErrOther ''upstream server unresponsive'',
      if cl_firstAttempt c \<noteq> cl_lastAttempt c
      then Some (case cl_firstAttempt c of Some t \<Rightarrow> cl_now c - t | None \<Rightarrow> 2 ^ 63 - 1) else None)"

definition Client_NewConn :: "rap_config \<Rightarrow> Client \<Rightarrow> ((muxref \<times> connref) option \<times> Client) go" where
  "Client_NewConn E = lock_client (\<lambda>c.
     bnd (case getMuxLocked c of
            None \<Rightarrow> Ret (None, c)
          | Some m \<Rightarrow> bnd (on_mux m (Muxer_NewConn E) c) (\<lambda>(k, c). Ret (map_option (Pair m) k, c))) (\<lambda>(conn, c).
       if conn = None then
         bnd (selectBestMuxLocked E c) (\<lambda>best.
           case best of
             None \<Rightarrow> Ret (None, c)
           | Some m \<Rightarrow>
               bnd (on_mux m (Muxer_NewConn E) c) (\<lambda>(k, c).
                 Ret (map_option (Pair m) k, if k \<noteq> None then setMuxLocked (Some m) c else c)))
       else Ret (conn, c)))"

fun available_conns :: "rap_config \<Rightarrow> Muxer list \<Rightarrow> muxref option list \<Rightarrow> int go" where
  "available_conns E st [] = Ret 0"
| "available_conns E st (None # ms) = Panics NilDeref"
| "available_conns E st (Some m # ms) =
     bnd (idx st m) (\<lambda>x. bnd (available_conns E st ms) (\<lambda>n. Ret (AvailableConns E x + n)))"

definition availableConnsLocked :: "rap_config \<Rightarrow> Client \<Rightarrow> int go" where
  "availableConnsLocked E c = available_conns E (cl_store c) (cl_muxers c)"

definition Client_AvailableConns :: "rap_config \<Rightarrow> Client \<Rightarrow> (int \<times> Client) go" where
  "Client_AvailableConns E = lock_client (\<lambda>c. bnd (availableConnsLocked E c) (\<lambda>n. Ret (n, c)))"

text \<open>
  The loop of \<^verbatim>\<open>NewConnMayDial\<close>: the best Muxer, or a new one if none has a free Conn and the last failed
  attempt is not from after the call. \<open>meanwhile\<close> is what other goroutines do while \<^verbatim>\<open>NewConnWait\<close> waits.
\<close>

partial_function (option) MayDial_loop ::
  "rap_config \<Rightarrow> (nat \<Rightarrow> goerr option) \<Rightarrow> (Muxer \<Rightarrow> Muxer) \<Rightarrow> int \<Rightarrow> Client
     \<Rightarrow> ((goerr \<times> int option + muxref \<times> connref) \<times> Client) go option" where
  "MayDial_loop E dial meanwhile startTime c =
     (case bnd (selectBestMuxLocked E c) (\<lambda>best.
             if best = None \<and> (case cl_lastAttempt c of None \<Rightarrow> True | Some t \<Rightarrow> t < startTime)
             then dialLocked E dial c else Ret (best, c)) of
        Ret (best, c) \<Rightarrow>
          (case best of
             None \<Rightarrow> Some (Ret (Inl (offlineError c), c))
           | Some m \<Rightarrow>
               (case on_mux m (NewConnWait E meanwhile) c of
                  Ret (conn, c) \<Rightarrow>
                    (case conn of
                       None \<Rightarrow> MayDial_loop E dial meanwhile startTime c
                     | Some k \<Rightarrow> Some (Ret (Inr (m, k), setMuxLocked (Some m) c)))
                | Panics p \<Rightarrow> Some (Panics p)
                | Blocks \<Rightarrow> Some Blocks))
      | Panics p \<Rightarrow> Some (Panics p)
      | Blocks \<Rightarrow> Some Blocks)"

definition NewConnMayDial ::
  "rap_config \<Rightarrow> (nat \<Rightarrow> goerr option) \<Rightarrow> (Muxer \<Rightarrow> Muxer) \<Rightarrow> Client
     \<Rightarrow> ((goerr \<times> int option + muxref \<times> connref) \<times> Client) go" where
  "NewConnMayDial E dial meanwhile c =
     (let startTime = cl_now c in lock_client (\<lambda>c. run_loop (MayDial_loop E dial meanwhile startTime c)) c)"

section \<open>Serving a request\<close>

text \<open>
  The \<^verbatim>\<open>http.ResponseWriter\<close> when a connection is upgraded: whether it is an \<^verbatim>\<open>http.Hijacker\<close>, the error of
  its \<^verbatim>\<open>Hijack\<close>, and how many bytes its reader has buffered.
\<close>

datatype http_hijacker = NoHijacker | HijackFails goerr | HijackGives nat

definition is_upgrade :: "request \<Rightarrow> bool" where
  "is_upgrade r =
     (case map_of (rq_Header r) ''Connection'' of
        None \<Rightarrow> False
      | Some vals \<Rightarrow> list_ex (\<lambda>val. map to_lower val = ''upgrade'') vals)"

text \<open>
  What is sent back on the response writer: its header and status (\<^typ>\<open>response_writer\<close>) and the body (\<open>'w\<close>).
  \<open>tunnel\<close> is what the two copies between the Conn and the hijacked connection do to the Conn. A
  \<^verbatim>\<open>panic\<close> of the method itself is a value, since the deferred \<^verbatim>\<open>Close\<close> of the Conn still runs.
\<close>

definition client_upgrade ::
  "http_hijacker \<Rightarrow> ('m sys \<Rightarrow> 'm sys go) \<Rightarrow> 'm sys \<Rightarrow> (gopanic option \<times> 'm sys) go" where
  "client_upgrade hj tunnel s =
     (case hj of
        NoHijacker \<Rightarrow> Ret (Some (PanicMsg ''rap.Client.ServeHTTP(): http.Hijacker unsupported''), s)
      | HijackFails err \<Rightarrow> Ret (Some (PanicMsg ''hijack failed''), s)
      | HijackGives buffered \<Rightarrow>
          if buffered > 0
          then Ret (Some (PanicMsg ''rap.Client.ServeHTTP(): websocket client sent data before handshake was complete''), s)
          else bnd (tunnel s) (\<lambda>s. Ret (None, s)))"

definition client_response ::
  "rap_config \<Rightarrow> 'm ConnMuxer \<Rightarrow> bool \<Rightarrow> http_hijacker \<Rightarrow> ('m sys \<Rightarrow> 'm sys go) \<Rightarrow> 'w writer \<Rightarrow> goerr option
     \<Rightarrow> response_writer \<Rightarrow> 'w \<Rightarrow> 'm sys
     \<Rightarrow> ((gopanic option \<times> goerr option \<times> goerr option \<times> response_writer \<times> 'w) \<times> 'm sys) go" where
  "client_response E M isUpgrade hj tunnel wr requestErr rw w s =
     (let requestInterrupted = isClosedError requestErr in
      if requestErr = None \<or> requestInterrupted then
        bnd (Conn_ProxyResponse E M rw s) (\<lambda>((statusCode, responseErr, rw), s).
          if responseErr = None then
            let requestErr = (if requestInterrupted then None else requestErr) in
            if isUpgrade \<and> statusCode = 101 then
              bnd (client_upgrade hj tunnel s) (\<lambda>(p, s). Ret ((p, requestErr, None, rw, w), s))
            else bnd (Conn_WriteTo E M wr w s) (\<lambda>((w, _, responseErr), s). Ret ((None, requestErr, responseErr, rw, w), s))
          else Ret ((None, requestErr, responseErr, rw, w), s))
      else Ret ((None, requestErr, None, rw, w), s))"

definition client_serveHTTP ::
  "rap_config \<Rightarrow> 'm ConnMuxer \<Rightarrow> int \<Rightarrow> int \<Rightarrow> http_hijacker \<Rightarrow> ('m sys \<Rightarrow> 'm sys go) \<Rightarrow> 'w writer
     \<Rightarrow> request \<Rightarrow> body option \<Rightarrow> response_writer \<Rightarrow> 'w \<Rightarrow> 'm sys
     \<Rightarrow> ((gopanic option \<times> response_writer \<times> 'w) \<times> 'm sys) go" where
  "client_serveHTTP E M readTimeout writeTimeout hj tunnel wr r rbody rw w s =
     (let s = (if readTimeout \<noteq> 0 then snd (SetDeadline (Some (clock s + readTimeout)) s) else s) in
      bnd (Conn_WriteRequest E M r rbody s) (\<lambda>(requestErr, s).
        let s = snd (SetDeadline (if writeTimeout \<noteq> 0 then Some (clock s + writeTimeout) else None) s) in
        bnd (client_response E M (is_upgrade r) hj tunnel wr requestErr rw w s)
          (\<lambda>((p, requestErr, responseErr, rw, w), s).
            let p = (if p \<noteq> None then p
                     else if responseErr = None \<and> requestErr = None then None
                     else Some (PanicMsg ''rap.Client.ServeHTTP()'')) in
            bnd (Close E M s) (\<lambda>(_, s). Ret ((p, rw, w), s)))))"

text \<open>How \<^verbatim>\<open>ServeHTTP\<close> ends: \<^verbatim>\<open>http.Error\<close> with a status and an error text, or the method above.\<close>

datatype 'w client_reply =
    ServiceUnavailable
  | GatewayTimeout goerr "int option"
  | Proxied "gopanic option" response_writer 'w

definition Client_ServeHTTP ::
  "rap_config \<Rightarrow> (nat \<Rightarrow> goerr option) \<Rightarrow> (Muxer \<Rightarrow> Muxer) \<Rightarrow> http_hijacker \<Rightarrow> (mux_chans sys \<Rightarrow> mux_chans sys go) \<Rightarrow> 'w writer
     \<Rightarrow> request \<Rightarrow> body option \<Rightarrow> response_writer \<Rightarrow> 'w \<Rightarrow> Client \<Rightarrow> ('w client_reply \<times> Client) go" where
  "Client_ServeHTTP E dial meanwhile hj tunnel wr r rbody rw w c =
     (if cl_paused c then Ret (ServiceUnavailable, c)
      else bnd (Client_NewConn E c) (\<lambda>(conn, c).
        bnd (case conn of Some mk \<Rightarrow> Ret (Inr mk, c) | None \<Rightarrow> NewConnMayDial E dial meanwhile c) (\<lambda>(conn, c).
          case conn of
            Inl (err, since) \<Rightarrow> Ret (GatewayTimeout err since, c)
          | Inr (m, k) \<Rightarrow>
              bnd (on_mux m (on_conn k (client_serveHTTP E muxer_conns (cl_ReadTimeout c) (cl_WriteTimeout c) hj tunnel wr r rbody rw w)) c)
                (\<lambda>((p, rw, w), c). Ret (Proxied p rw w, c)))))"

end
