(* ===== verification/Client_Laws.thy ===== *)
theory Client_Laws
  imports Client
begin

unbundle bit_operations_syntax

text \<open>
  The laws of a Client: that it finds a free Conn if one can be had, which one, and that it gives the
  Conn back, and what its Muxers look like after it is shut down.
\<close>

section \<open>Finding a Conn\<close>

text \<open>Every entry of \<^verbatim>\<open>c.muxers\<close> is a Muxer in a state it can get into, \<open>outs\<close> being the Conns it has handed out.\<close>

definition muxer_entry :: "rap_config \<Rightarrow> (muxref \<Rightarrow> connref list) \<Rightarrow> Muxer list \<Rightarrow> muxref option \<Rightarrow> bool" where
  "muxer_entry E outs st mo \<longleftrightarrow> (case mo of None \<Rightarrow> False | Some m \<Rightarrow> m < length st \<and> mux_reach E (st ! m) (outs m))"

lemma select_best_spec:
  assumes "list_all (muxer_entry E outs st) ms"
  obtains (keep) "select_best E st ms n b = Ret b" and "\<And>m. Some m \<in> set ms \<Longrightarrow> AvailableConns E (st ! m) \<le> n"
  | (better) m where "select_best E st ms n b = Ret (Some m)" and "Some m \<in> set ms" and "n < AvailableConns E (st ! m)"
      and "\<And>m'. Some m' \<in> set ms \<Longrightarrow> AvailableConns E (st ! m') \<le> AvailableConns E (st ! m)"
proof -
  have "select_best E st ms n b = Ret b \<and> (\<forall>m. Some m \<in> set ms \<longrightarrow> AvailableConns E (st ! m) \<le> n)
    \<or> (\<exists>m. select_best E st ms n b = Ret (Some m) \<and> Some m \<in> set ms \<and> n < AvailableConns E (st ! m)
        \<and> (\<forall>m'. Some m' \<in> set ms \<longrightarrow> AvailableConns E (st ! m') \<le> AvailableConns E (st ! m)))"
    using assms
  proof (induction ms arbitrary: n b)
    case (Cons mo ms)
    then obtain m where mo: "mo = Some m" "m < length st" by (auto simp: muxer_entry_def split: option.splits)
    have tl: "list_all (muxer_entry E outs st) ms" using Cons.prems by simp
    show ?case
    proof (cases "AvailableConns E (st ! m) > n")
      case True
      from Cons.IH [OF tl, of "AvailableConns E (st ! m)" "Some m"] True mo show ?thesis
        by (fastforce simp: idx_def Let_def)
    next
      case False
      from Cons.IH [OF tl, of n b] False mo show ?thesis
        by (fastforce simp: idx_def Let_def)
    qed
  qed simp
  then show thesis using that by blast
qed

lemma available_NewConn:
  assumes "sanitycheck E" and "mux_reach E x out" and "0 < AvailableConns E x"
  obtains k x' where "Muxer_NewConn E x = Ret (Some k, x')" and "mux_reach E x' (k # out)"
proof -
  have inv: "hold_inv E x out" using assms(1,2) by (intro mux_reach_hold sanity_ProtocolMax)
  then show thesis
  proof (cases rule: NewConn_step)
    case (some k x')
    then show thesis using that mux_reach.new [OF assms(2)] by blast
  next
    case none
    then show thesis using hold_available(1) [OF inv] assms(3) by simp
  qed
qed

lemma NewConnWait_available:
  assumes "sanitycheck E" and "mux_reach E x out" and "0 < AvailableConns E x"
  obtains k x' where "NewConnWait E meanwhile x = Ret (Some k, x')" and "mux_reach E x' (k # out)"
proof -
  from available_NewConn [OF assms] obtain k x' where "Muxer_NewConn E x = Ret (Some k, x')" "mux_reach E x' (k # out)" .
  then show thesis by (intro that) (simp_all add: NewConnWait_def)
qed

text \<open>A Muxer that has just been dialled.\<close>

lemma dial_ok:
  assumes "sanitycheck E" and "dial (cl_dialed c) = None"
  obtains x where "dialLocked E dial c = Ret (Some (length (cl_store c)), c\<lparr>cl_dialed := cl_dialed c + 1, cl_lastError := None,
      cl_lastAttempt := None, cl_firstAttempt := None, cl_store := cl_store c @ [x], cl_serials := serials x,
      cl_muxers := cl_muxers c @ [Some (length (cl_store c))]\<rparr>)" and "mux_reach E x []"
proof -
  from NewMuxer_Ret [OF sanity_ProtocolMax [OF assms(1)]] obtain x where
    x: "NewMuxer E (cl_serials c) (pool_init E) (cl_now c) (cl_choices c) = Ret x" by blast
  let ?x = "x\<lparr>chans := (chans x)\<lparr>writing := True\<rparr>\<rparr>"
  have "mux_reach E ?x []" using mux_reach.start [OF x] by (rule mux_reach.other) (simp add: elsewhere_def)
  with x assms(2) that [of ?x] show thesis by (simp add: dialLocked_def Let_def)
qed

lemma on_mux_Ret:
  assumes "m < length (cl_store c)" and "f (cl_store c ! m) = Ret (r, x)"
  shows "on_mux m f c = Ret (r, c\<lparr>cl_store := (cl_store c)[m := x]\<rparr>)"
  using assms by (simp add: on_mux_def)

text \<open>What \<^verbatim>\<open>NewConnMayDial\<close> promises: see the property below.\<close>

definition recent_failure :: "Client \<Rightarrow> bool" where
  "recent_failure c \<longleftrightarrow> (case cl_lastAttempt c of None \<Rightarrow> False | Some t \<Rightarrow> cl_now c \<le> t)"

definition none_available :: "rap_config \<Rightarrow> Client \<Rightarrow> bool" where
  "none_available E c \<longleftrightarrow> (\<forall>m. Some m \<in> set (cl_muxers c) \<longrightarrow> AvailableConns E (cl_store c ! m) = 0)"

definition from_muxer :: "rap_config \<Rightarrow> (muxref \<Rightarrow> connref list) \<Rightarrow> Client \<Rightarrow> muxref \<Rightarrow> connref \<Rightarrow> Client \<Rightarrow> bool" where
  "from_muxer E outs c m k c' \<longleftrightarrow> Some m \<in> set (cl_muxers c) \<and> m < length (cl_store c)
     \<and> (\<forall>m'. Some m' \<in> set (cl_muxers c) \<longrightarrow> AvailableConns E (cl_store c ! m') \<le> AvailableConns E (cl_store c ! m))
     \<and> mux_reach E (cl_store c' ! m) (k # outs m) \<and> cl_mux c' = Some m \<and> cl_dialed c' = cl_dialed c \<and> cl_muxers c' = cl_muxers c"

definition from_dial :: "rap_config \<Rightarrow> Client \<Rightarrow> muxref \<Rightarrow> connref \<Rightarrow> Client \<Rightarrow> bool" where
  "from_dial E c m k c' \<longleftrightarrow> none_available E c \<and> m = length (cl_store c) \<and> mux_reach E (cl_store c' ! m) [k]
     \<and> cl_mux c' = Some m \<and> cl_dialed c' = cl_dialed c + 1 \<and> cl_muxers c' = cl_muxers c @ [Some m]"

text \<open>
  The two ways to fail: this call has dialled and the dial failed, which is recorded; or a dial of
  another call has failed since this one began, and its recorded error is passed on. The second
  component of the error is for how long the server has not responded, if it was not the first failure.
\<close>

definition failed_now :: "(nat \<Rightarrow> goerr option) \<Rightarrow> Client \<Rightarrow> goerr \<times> int option \<Rightarrow> Client \<Rightarrow> bool" where
  "failed_now dial c err c' \<longleftrightarrow> \<not> recent_failure c \<and> dial (cl_dialed c) = Some (fst err)
     \<and> cl_dialed c' = cl_dialed c + 1 \<and> cl_lastError c' = Some (fst err) \<and> cl_lastAttempt c' = Some (cl_now c)
     \<and> snd err = (case cl_firstAttempt c of
          None \<Rightarrow> None | Some t \<Rightarrow> if t = cl_now c then None else Some (cl_now c - t))"

definition failed_before :: "Client \<Rightarrow> goerr \<times> int option \<Rightarrow> Client \<Rightarrow> bool" where
  "failed_before c err c' \<longleftrightarrow> recent_failure c \<and> (\<forall>e. cl_lastError c = Some e \<longrightarrow> fst err = e)
     \<and> cl_dialed c' = cl_dialed c \<and> cl_lastError c' = cl_lastError c \<and> cl_lastAttempt c' = cl_lastAttempt c"

definition answers ::
  "rap_config \<Rightarrow> (muxref \<Rightarrow> connref list) \<Rightarrow> (nat \<Rightarrow> goerr option) \<Rightarrow> Client \<Rightarrow> (goerr \<times> int option) + (muxref \<times> connref) \<Rightarrow> Client \<Rightarrow> bool" where
  "answers E outs dial c res c' \<longleftrightarrow>
     (case res of
        Inl err \<Rightarrow> none_available E c \<and> (failed_now dial c err c' \<or> failed_before c err c') \<and> cl_muxers c' = cl_muxers c
      | Inr (m, k) \<Rightarrow> from_muxer E outs c m k c' \<or> dial (cl_dialed c) = None \<and> from_dial E c m k c')"

lemma client_mu [simp]: "recent_failure (c\<lparr>cl_mu := b\<rparr>) = recent_failure c" "offlineError (c\<lparr>cl_mu := b\<rparr>) = offlineError c"
  "none_available E (c\<lparr>cl_mu := b\<rparr>) = none_available E c" "from_muxer E outs (c\<lparr>cl_mu := b\<rparr>) m k c' = from_muxer E outs c m k c'"
  "from_muxer E outs c m k (c'\<lparr>cl_mu := b\<rparr>) = from_muxer E outs c m k c'"
  "from_dial E (c\<lparr>cl_mu := b\<rparr>) m k c' = from_dial E c m k c'" "from_dial E c m k (c'\<lparr>cl_mu := b\<rparr>) = from_dial E c m k c'"
  "failed_now dial (c\<lparr>cl_mu := b\<rparr>) err c' = failed_now dial c err c'" "failed_now dial c err (c'\<lparr>cl_mu := b\<rparr>) = failed_now dial c err c'"
  "failed_before (c\<lparr>cl_mu := b\<rparr>) err c' = failed_before c err c'" "failed_before c err (c'\<lparr>cl_mu := b\<rparr>) = failed_before c err c'"
  by (simp_all add: failed_now_def failed_before_def recent_failure_def offlineError_def none_available_def from_muxer_def from_dial_def split: option.split)

lemma answers_mu: "answers E outs dial (c\<lparr>cl_mu := b\<rparr>) res c' \<Longrightarrow> answers E outs dial c res (c'\<lparr>cl_mu := b'\<rparr>)"
  by (cases res) (auto simp: answers_def)

lemma MayDial_loop_finds:
  assumes "sanitycheck E" and "0 < MaxConnID E" and "list_all (muxer_entry E outs (cl_store c)) (cl_muxers c)"
  shows "\<exists>res c'. MayDial_loop E dial meanwhile (cl_now c) c = Some (Ret (res, c')) \<and> answers E outs dial c res c'"
proof -
  let ?best = "selectBestMuxLocked E c"
  from assms(3) have "?best = Ret None \<and> none_available E c
    \<or> (\<exists>m. ?best = Ret (Some m) \<and> Some m \<in> set (cl_muxers c) \<and> 0 < AvailableConns E (cl_store c ! m)
        \<and> (\<forall>m'. Some m' \<in> set (cl_muxers c) \<longrightarrow> AvailableConns E (cl_store c ! m') \<le> AvailableConns E (cl_store c ! m)))"
  proof (cases rule: select_best_spec [where n = 0 and b = None])
    case keep
    have "AvailableConns E x \<ge> 0" for x by (simp add: AvailableConns_def)
    with keep show ?thesis by (auto simp: selectBestMuxLocked_def none_available_def intro: antisym)
  next
    case (better m)
    then show ?thesis by (auto simp: selectBestMuxLocked_def)
  qed
  then consider (none) "?best = Ret None" "none_available E c"
    | (best) m where "?best = Ret (Some m)" "Some m \<in> set (cl_muxers c)" "0 < AvailableConns E (cl_store c ! m)"
        "\<forall>m'. Some m' \<in> set (cl_muxers c) \<longrightarrow> AvailableConns E (cl_store c ! m') \<le> AvailableConns E (cl_store c ! m)"
    by blast
  then show ?thesis
  proof cases
    case (best m)
    then have m: "m < length (cl_store c)" "mux_reach E (cl_store c ! m) (outs m)"
      using assms(3) by (auto simp: list_all_iff muxer_entry_def)
    from NewConnWait_available [OF assms(1) m(2) best(3)] obtain k x' where
      k: "NewConnWait E meanwhile (cl_store c ! m) = Ret (Some k, x')" "mux_reach E x' (k # outs m)" .
    have "MayDial_loop E dial meanwhile (cl_now c) c
        = Some (Ret (Inr (m, k), c\<lparr>cl_store := (cl_store c)[m := x'], cl_mux := Some m\<rparr>))"
      by (subst MayDial_loop.simps) (simp add: best(1) on_mux_Ret [where f = "NewConnWait E meanwhile", OF m(1) k(1)] setMuxLocked_def)
    moreover have "from_muxer E outs c m k (c\<lparr>cl_store := (cl_store c)[m := x'], cl_mux := Some m\<rparr>)"
      using best m k(2) by (simp add: from_muxer_def)
    ultimately show ?thesis by (simp add: answers_def)
  next
    case none
    show ?thesis
    proof (cases "recent_failure c")
      case True
      then have "MayDial_loop E dial meanwhile (cl_now c) c = Some (Ret (Inl (offlineError c), c))"
        by (subst MayDial_loop.simps) (auto simp: none(1) recent_failure_def split: option.splits)
      moreover have "failed_before c (offlineError c) c" using True by (simp add: failed_before_def offlineError_def)
      ultimately show ?thesis using none(2) by (simp add: answers_def)
    next
      case False
      then have due: "case cl_lastAttempt c of None \<Rightarrow> True | Some t \<Rightarrow> t < cl_now c"
        by (auto simp: recent_failure_def split: option.splits)
      show ?thesis
      proof (cases "dial (cl_dialed c)")
        case (Some err)
        let ?c = "c\<lparr>cl_dialed := cl_dialed c + 1, cl_lastError := Some err, cl_lastAttempt := Some (cl_now c),
          cl_firstAttempt := (if cl_firstAttempt c = None then Some (cl_now c) else cl_firstAttempt c)\<rparr>"
        have "MayDial_loop E dial meanwhile (cl_now c) c = Some (Ret (Inl (offlineError ?c), ?c))"
          using due Some by (subst MayDial_loop.simps) (simp add: none(1) dialLocked_def)
        moreover have "failed_now dial c (offlineError ?c) ?c"
          using False Some by (simp add: failed_now_def offlineError_def split: option.splits)
        ultimately show ?thesis using none(2) by (simp add: answers_def)
      next
        case None
        from dial_ok [OF assms(1), of dial c] None obtain x where
          d: "dialLocked E dial c = Ret (Some (length (cl_store c)), c\<lparr>cl_dialed := cl_dialed c + 1, cl_lastError := None,
            cl_lastAttempt := None, cl_firstAttempt := None, cl_store := cl_store c @ [x], cl_serials := serials x,
            cl_muxers := cl_muxers c @ [Some (length (cl_store c))]\<rparr>)" "mux_reach E x []" by blast
        have "hold_inv E x []" using d(2) assms(1) by (intro mux_reach_hold sanity_ProtocolMax)
        from hold_available(1) [OF this] have "AvailableConns E x = int (unat (MaxConnID E))" by simp
        moreover have "0 < unat (MaxConnID E)" using assms(2) by (simp add: word_less_nat_alt)
        ultimately have "0 < AvailableConns E x" by linarith
        from NewConnWait_available [OF assms(1) d(2) this] obtain k x' where
          k: "NewConnWait E meanwhile x = Ret (Some k, x')" "mux_reach E x' [k]" .
        let ?c = "c\<lparr>cl_dialed := cl_dialed c + 1, cl_lastError := None,
            cl_lastAttempt := None, cl_firstAttempt := None, cl_store := cl_store c @ [x'], cl_serials := serials x,
            cl_muxers := cl_muxers c @ [Some (length (cl_store c))], cl_mux := Some (length (cl_store c))\<rparr>"
        have "MayDial_loop E dial meanwhile (cl_now c) c = Some (Ret (Inr (length (cl_store c), k), ?c))"
          using due k(1) by (subst MayDial_loop.simps) (simp add: none(1) d(1) on_mux_def setMuxLocked_def)
        moreover have "from_dial E c (length (cl_store c)) k ?c" using none(2) k(2) by (simp add: from_dial_def)
        ultimately show ?thesis using None by (simp add: answers_def)
      qed
    qed
  qed
qed

text \<open>
  C11. A Client that may dial always comes to an answer. Whatever its Muxers have handed out (each of
  them in a state a Muxer can get into, none of the entries nil) and whatever the network says,
  \<^verbatim>\<open>NewConnMayDial\<close> returns, without looping: a Conn of the Muxer with the most Conns to spare, if any has
  one, and then nothing is dialled; otherwise a Conn of the one new Muxer it dials; otherwise, when its
  dial fails, the very error of that dial, which it records with the time of the attempt; and without a
  dial of its own, when another call's has failed since this one began, the error recorded for that
  failure. The Conn is one that nobody
  else of that Muxer holds, and the Muxer becomes the current one. (\<^verbatim>\<open>MaxConnID\<close> is not zero: with no
  Conn to give, the loop would dial on and on.)
\<close>

theorem NewConnMayDial_answers:
  assumes "sanitycheck E" and "0 < MaxConnID E" and "\<not> cl_mu c"
    and "list_all (muxer_entry E outs (cl_store c)) (cl_muxers c)"
  shows "\<exists>res c'. NewConnMayDial E dial meanwhile c = Ret (res, c') \<and> \<not> cl_mu c' \<and> answers E outs dial c res c'"
proof -
  let ?c = "c\<lparr>cl_mu := True\<rparr>"
  have "list_all (muxer_entry E outs (cl_store ?c)) (cl_muxers ?c)" using assms(4) by simp
  from MayDial_loop_finds [OF assms(1,2) this, of dial meanwhile] obtain res c' where
    r: "MayDial_loop E dial meanwhile (cl_now c) ?c = Some (Ret (res, c'))" "answers E outs dial ?c res c'" by auto
  have "NewConnMayDial E dial meanwhile c = Ret (res, c'\<lparr>cl_mu := False\<rparr>)"
    using assms(3) r(1) by (simp add: NewConnMayDial_def lock_client_def run_loop_def Let_def)
  with answers_mu [OF r(2)] show ?thesis by auto
qed

theorem NewConnMayDial_answers_witness:
  "(\<exists>k c'. NewConnMayDial rap_default (\<lambda>_. None) id (NewClient ''localhost'' 0 0 (\<lambda>_. 0)) = Ret (Inr (0, k), c')
     \<and> cl_dialed c' = 1 \<and> mux_reach rap_default (cl_store c' ! 0) [k])
   \<and> (\<exists>c'. NewConnMayDial rap_default (\<lambda>_. Some (ErrOther ''refused'')) id (NewClient ''localhost'' 0 0 (\<lambda>_. 0))
       = Ret (Inl (ErrOther ''refused'', None), c') \<and> cl_lastError c' = Some (ErrOther ''refused''))"
proof -
  let ?c = "NewClient ''localhost'' 0 0 (\<lambda>_. 0)" and ?e = "ErrOther ''refused''"
  have c: "\<not> cl_mu ?c" "cl_muxers ?c = []" "cl_store ?c = []" "cl_dialed ?c = 0" "\<not> recent_failure ?c" "cl_firstAttempt ?c = None"
    by (simp_all add: NewClient_def recent_failure_def)
  have pos: "0 < MaxConnID rap_default" by (simp add: word_less_nat_alt)
  from NewConnMayDial_answers [of rap_default ?c "\<lambda>_. []" "\<lambda>_. None" id] pos c obtain res c' where
    r: "NewConnMayDial rap_default (\<lambda>_. None) id ?c = Ret (res, c')" "answers rap_default (\<lambda>_. []) (\<lambda>_. None) ?c res c'" by auto
  from r(2) c obtain k where "res = Inr (0, k)" "cl_dialed c' = 1" "mux_reach rap_default (cl_store c' ! 0) [k]"
    by (auto simp: answers_def from_muxer_def from_dial_def failed_now_def failed_before_def split: sum.splits)
  moreover
  from NewConnMayDial_answers [of rap_default ?c "\<lambda>_. []" "\<lambda>_. Some ?e" id] pos c obtain res2 c2 where
    r2: "NewConnMayDial rap_default (\<lambda>_. Some ?e) id ?c = Ret (res2, c2)" "answers rap_default (\<lambda>_. []) (\<lambda>_. Some ?e) ?c res2 c2" by auto
  from r2(2) c have "res2 = Inl (?e, None)" "cl_lastError c2 = Some ?e"
    by (auto simp: answers_def from_muxer_def failed_now_def failed_before_def split: sum.splits)
  ultimately show ?thesis using r(1) r2(1) by blast
qed

end
