(* ===== verification/Server.thy ===== *)
theory Server
  imports Muxer_Close
begin

text \<open>
  \<^verbatim>\<open>src/server.go\<close>. A Server accepts network connections on listeners, runs a Muxer on each, no more
  than a limit at a time, and counts bytes and the errors its Muxers end with.
\<close>

section \<open>State\<close>

text \<open>
  Listeners and Muxers are objects with an identity: \<open>sv_store\<close> is the store of the Muxers made so far,
  \<open>sv_running\<close> those whose goroutine has not ended, \<open>sv_shut\<close> the listeners closed so far. A channel
  that has not been made is \<^const>\<open>None\<close>; \<open>sv_doneChan\<close> is whether it is closed, \<open>sv_muxerLimiter\<close> the tokens in it and its
  capacity. \<open>sv_slept\<close> are the delays \<^verbatim>\<open>Serve\<close> has slept, latest last. Times are in nanoseconds.
\<close>

type_synonym listener = nat

record Server =
  sv_Addr :: string
  sv_hasHandler :: bool
  sv_MaxMuxers :: int
  sv_ReadTimeout :: int
  sv_WriteTimeout :: int
  sv_listeners :: "listener list"
  sv_bytesWritten :: i64
  sv_bytesRead :: i64
  sv_mu :: bool
  sv_serveErrorsMu :: bool
  sv_serveErrors :: "(goerr \<times> nat) list"
  sv_muxerLimiter :: "(nat \<times> nat) option"
  sv_doneChan :: "bool option"
  sv_activeMuxer :: "nat list"
  sv_store :: "Muxer list"
  sv_running :: "nat list"
  sv_shut :: "listener list"
  sv_slept :: "int list"
  sv_serials :: u32
  sv_now :: int
  sv_choices :: "nat \<Rightarrow> nat"

text \<open>A \<^verbatim>\<open>Server\<close> as a program makes one: its exported fields set, the rest zero.\<close>

definition new_server :: "string \<Rightarrow> bool \<Rightarrow> int \<Rightarrow> int \<Rightarrow> int \<Rightarrow> u32 \<Rightarrow> int \<Rightarrow> (nat \<Rightarrow> nat) \<Rightarrow> Server" where
  "new_server addr handler maxMuxers rt wt serial t orc =
     \<lparr>sv_Addr = addr, sv_hasHandler = handler, sv_MaxMuxers = maxMuxers, sv_ReadTimeout = rt, sv_WriteTimeout = wt,
      sv_listeners = [], sv_bytesWritten = 0, sv_bytesRead = 0, sv_mu = False, sv_serveErrorsMu = False, sv_serveErrors = [],
      sv_muxerLimiter = None, sv_doneChan = None, sv_activeMuxer = [], sv_store = [], sv_running = [], sv_shut = [],
      sv_slept = [], sv_serials = serial, sv_now = t, sv_choices = orc\<rparr>"

definition lock_server :: "(Server \<Rightarrow> ('a \<times> Server) go) \<Rightarrow> Server \<Rightarrow> ('a \<times> Server) go" where
  "lock_server f v =
     (if sv_mu v then Blocks else bnd (f (v\<lparr>sv_mu := True\<rparr>)) (\<lambda>(r, v). Ret (r, v\<lparr>sv_mu := False\<rparr>)))"

definition lock_errors :: "(Server \<Rightarrow> ('a \<times> Server) go) \<Rightarrow> Server \<Rightarrow> ('a \<times> Server) go" where
  "lock_errors f v =
     (if sv_serveErrorsMu v then Blocks
      else bnd (f (v\<lparr>sv_serveErrorsMu := True\<rparr>)) (\<lambda>(r, v). Ret (r, v\<lparr>sv_serveErrorsMu := False\<rparr>)))"

section \<open>Listening\<close>

definition DefaultListenAddr :: string where
  "DefaultListenAddr = '':10111''"

definition getListenAddr :: "string \<Rightarrow> string" where
  "getListenAddr addr = (if addr = [] then DefaultListenAddr else addr)"

text \<open>\<^verbatim>\<open>Listen\<close>: \<open>net_Listen\<close> gives the listener and its address, or an error.\<close>

definition Listen ::
  "(string \<Rightarrow> goerr + (listener \<times> string)) \<Rightarrow> string \<Rightarrow> Server \<Rightarrow> (goerr + listener) \<times> Server" where
  "Listen net_Listen address v =
     (case net_Listen address of
        Inl err \<Rightarrow> (Inl err, v)
      | Inr (ln, addr) \<Rightarrow> (Inr ln, v\<lparr>sv_Addr := addr\<rparr>))"

text \<open>The listener that \<^verbatim>\<open>Listen\<close> returns sets keep-alive on every connection its \<^verbatim>\<open>AcceptTCP\<close> gives, and passes on its errors.\<close>

record TCPConn =
  tcp_KeepAlive :: bool
  tcp_KeepAlivePeriod :: int

definition tcpKeepAliveListener_Accept :: "goerr + TCPConn \<Rightarrow> goerr + TCPConn" where
  "tcpKeepAliveListener_Accept accepted =
     (case accepted of
        Inl err \<Rightarrow> Inl err
      | Inr tc \<Rightarrow> Inr (tc\<lparr>tcp_KeepAlive := True, tcp_KeepAlivePeriod := 180000000000\<rparr>))"

definition trackListenerLocked :: "listener \<Rightarrow> bool \<Rightarrow> Server \<Rightarrow> Server" where
  "trackListenerLocked ln add v =
     (if add then
        let v = (if length (sv_listeners v) = 0 \<and> length (sv_activeMuxer v) = 0 then v\<lparr>sv_doneChan := None\<rparr> else v) in
        v\<lparr>sv_listeners := List.insert ln (sv_listeners v)\<rparr>
      else v\<lparr>sv_listeners := removeAll ln (sv_listeners v)\<rparr>)"

definition trackListener :: "listener \<Rightarrow> bool \<Rightarrow> Server \<Rightarrow> (unit \<times> Server) go" where
  "trackListener ln add = lock_server (\<lambda>v. Ret ((), trackListenerLocked ln add v))"

definition trackMuxer :: "nat \<Rightarrow> Server \<Rightarrow> (unit \<times> Server) go" where
  "trackMuxer m = lock_server (\<lambda>v. Ret ((), v\<lparr>sv_activeMuxer := List.insert m (sv_activeMuxer v)\<rparr>))"

definition server_getDoneChanLocked :: "Server \<Rightarrow> bool \<times> Server" where
  "server_getDoneChanLocked v =
     (case sv_doneChan v of None \<Rightarrow> (False, v\<lparr>sv_doneChan := Some False\<rparr>) | Some closed \<Rightarrow> (closed, v))"

definition server_getDoneChan :: "Server \<Rightarrow> (bool \<times> Server) go" where
  "server_getDoneChan = lock_server (\<lambda>v. Ret (server_getDoneChanLocked v))"

definition server_closeDoneChanLocked :: "Server \<Rightarrow> Server" where
  "server_closeDoneChanLocked v =
     (case server_getDoneChanLocked v of (closed, v) \<Rightarrow> if closed then v else v\<lparr>sv_doneChan := Some True\<rparr>)"

definition getMuxerLimiterLocked :: "rap_config \<Rightarrow> Server \<Rightarrow> (nat \<times> nat) \<times> Server" where
  "getMuxerLimiterLocked E v =
     (case sv_muxerLimiter v of
        Some lim \<Rightarrow> (lim, v)
      | None \<Rightarrow>
          let maxMuxers = (if sv_MaxMuxers v < 1 then 1 + int (ProtocolMaxConcurrentConns div (unat (MaxConnID E) + 1)) else sv_MaxMuxers v);
              lim = (0, nat maxMuxers) in
          (lim, v\<lparr>sv_muxerLimiter := Some lim\<rparr>))"

definition getMuxerLimiter :: "rap_config \<Rightarrow> Server \<Rightarrow> ((nat \<times> nat) \<times> Server) go" where
  "getMuxerLimiter E = lock_server (\<lambda>v. Ret (getMuxerLimiterLocked E v))"

section \<open>Serving\<close>

text \<open>A token into the limiter, which waits while it is full, and one out of it, which waits while it is empty.\<close>

definition limiter_put :: "rap_config \<Rightarrow> Server \<Rightarrow> Server go" where
  "limiter_put E v =
     bnd (getMuxerLimiter E v) (\<lambda>((n, k), v). if n < k then Ret (v\<lparr>sv_muxerLimiter := Some (n + 1, k)\<rparr>) else Blocks)"

definition limiter_take :: "rap_config \<Rightarrow> Server \<Rightarrow> Server go" where
  "limiter_take E v =
     bnd (getMuxerLimiter E v) (\<lambda>((n, k), v). if n > 0 then Ret (v\<lparr>sv_muxerLimiter := Some (n - 1, k)\<rparr>) else Blocks)"

text \<open>
  The goroutine of an accepted connection: its start, up to the call of \<^verbatim>\<open>mux.ServeHTTP\<close>, which starts the
  goroutines of the Muxer, and its end, \<^verbatim>\<open>mux.ServeHTTP\<close> having returned \<open>err\<close>. The accepting goroutine takes the
  place and starts this one; here it gets to \<^verbatim>\<open>mux.ServeHTTP\<close> before the next connection is accepted, so
  \<open>sv_running\<close> counts a Muxer from the moment its place is taken, also where the code would let it start later.
\<close>

definition start_muxer :: "rap_config \<Rightarrow> Server \<Rightarrow> Server go" where
  "start_muxer E v =
     bnd (NewMuxer E (sv_serials v) (pool_init E) (sv_now v) (sv_choices v)) (\<lambda>x.
       let m = length (sv_store v);
           x = x\<lparr>collector := Some (0, 0), ReadTimeout := sv_ReadTimeout v, WriteTimeout := sv_WriteTimeout v,
                 hasHandler := sv_hasHandler v, chans := (chans x)\<lparr>writing := True\<rparr>\<rparr>
       in bnd (trackMuxer m (v\<lparr>sv_store := sv_store v @ [x], sv_serials := serials x, sv_running := sv_running v @ [m]\<rparr>))
            (\<lambda>(_, v). Ret v))"

fun count_error :: "goerr \<Rightarrow> (goerr \<times> nat) list \<Rightarrow> (goerr \<times> nat) list" where
  "count_error e [] = [(e, 1)]"
| "count_error e ((e', n) # m) = (if e = e' then (e', n + 1) # m else (e', n) # count_error e m)"

definition end_muxer :: "rap_config \<Rightarrow> nat \<Rightarrow> goerr option \<Rightarrow> Server \<Rightarrow> Server go" where
  "end_muxer E m err v =
     bnd (case err of
            None \<Rightarrow> limiter_take E v
          | Some e \<Rightarrow>
              bnd (lock_errors (\<lambda>v. bnd (limiter_take E (v\<lparr>sv_serveErrors := count_error e (sv_serveErrors v)\<rparr>)) (\<lambda>v. Ret ((), v))) v)
                (\<lambda>(_, v). Ret v)) (\<lambda>v.
       Ret (v\<lparr>sv_running := remove1 m (sv_running v)\<rparr>))"

text \<open>
  What \<^verbatim>\<open>l.Accept\<close> returns, each time after other goroutines have done what \<open>meanwhile\<close> says: a connection,
  for which there may be a wait (and again \<open>meanwhile\<close>) until the limiter has room, or an error, temporary or not.
\<close>

datatype accept_event = AcceptConn "Server \<Rightarrow> Server" | AcceptError goerr bool

fun Serve_loop :: "rap_config \<Rightarrow> (accept_event \<times> (Server \<Rightarrow> Server)) list \<Rightarrow> int \<Rightarrow> Server \<Rightarrow> (goerr \<times> Server) go" where
  "Serve_loop E [] tempDelay v = Blocks"
| "Serve_loop E ((AcceptError err temporary, meanwhile) # evs) tempDelay v =
     bnd (server_getDoneChan (meanwhile v)) (\<lambda>(closed, v).
       if closed then Ret (ServerClosedError, v)
       else if temporary then
         let tempDelay = (if tempDelay = 0 then 5000000 else tempDelay * 2);
             tempDelay = (if tempDelay > 1000000000 then 1000000000 else tempDelay) in
         Serve_loop E evs tempDelay (v\<lparr>sv_slept := sv_slept v @ [tempDelay]\<rparr>)
       else Ret (err, v))"
| "Serve_loop E ((AcceptConn waits, meanwhile) # evs) tempDelay v =
     bnd (limiter_put E (waits (meanwhile v))) (\<lambda>v. bnd (start_muxer E v) (\<lambda>v. Serve_loop E evs 0 v))"

definition close_listener :: "listener \<Rightarrow> Server \<Rightarrow> Server" where
  "close_listener l v = v\<lparr>sv_shut := List.insert l (sv_shut v)\<rparr>"

definition Server_Serve :: "rap_config \<Rightarrow> listener \<Rightarrow> (accept_event \<times> (Server \<Rightarrow> Server)) list \<Rightarrow> Server \<Rightarrow> (goerr \<times> Server) go" where
  "Server_Serve E l evs v =
     bnd (lock_server (\<lambda>v.
            case server_getDoneChanLocked v of (closed, v) \<Rightarrow>
              if closed then Ret (True, v) else Ret (False, trackListenerLocked l True v)) v) (\<lambda>(closed, v).
       if closed then Ret (ServerClosedError, close_listener l v)
       else bnd (lock_errors (\<lambda>v. Ret ((), v\<lparr>sv_serveErrors := []\<rparr>)) v) (\<lambda>(_, v).
            bnd (Serve_loop E evs 0 v) (\<lambda>(err, v).
            bnd (trackListener l False v) (\<lambda>(_, v). Ret (err, close_listener l v)))))"

definition ListenAndServe ::
  "rap_config \<Rightarrow> (string \<Rightarrow> goerr + (listener \<times> string)) \<Rightarrow> (accept_event \<times> (Server \<Rightarrow> Server)) list \<Rightarrow> Server \<Rightarrow> (goerr \<times> Server) go" where
  "ListenAndServe E net_Listen evs v =
     (case Listen net_Listen (getListenAddr (sv_Addr v)) v of
        (Inl err, v) \<Rightarrow> Ret (err, v)
      | (Inr l, v) \<Rightarrow> Server_Serve E l evs v)"

definition ServeErrors :: "Server \<Rightarrow> ((goerr \<times> nat) list \<times> Server) go" where
  "ServeErrors = lock_errors (\<lambda>v. Ret (sv_serveErrors v, v))"

section \<open>Closing and statistics\<close>

text \<open>\<open>close_err\<close> is the error of closing a listener, if any.\<close>

fun close_listeners :: "(listener \<Rightarrow> goerr option) \<Rightarrow> listener list \<Rightarrow> goerr option \<Rightarrow> Server \<Rightarrow> goerr option \<times> Server" where
  "close_listeners close_err [] err v = (err, v)"
| "close_listeners close_err (ln # lns) err v =
     (let v = close_listener ln v; cerr = close_err ln in
      close_listeners close_err lns (if cerr \<noteq> None \<and> err = None then cerr else err)
        (v\<lparr>sv_listeners := removeAll ln (sv_listeners v)\<rparr>))"

definition closeListenersLocked :: "(listener \<Rightarrow> goerr option) \<Rightarrow> Server \<Rightarrow> goerr option \<times> Server" where
  "closeListenersLocked close_err v = close_listeners close_err (sv_listeners v) None v"

fun close_active_muxers :: "rap_config \<Rightarrow> nat list \<Rightarrow> Server \<Rightarrow> Server go" where
  "close_active_muxers E [] v = Ret v"
| "close_active_muxers E (m # ms) v =
     bnd (idx (sv_store v) m) (\<lambda>x.
     bnd (Muxer_Close E x) (\<lambda>(_, x).
       close_active_muxers E ms (v\<lparr>sv_store := (sv_store v)[m := x], sv_activeMuxer := removeAll m (sv_activeMuxer v)\<rparr>)))"

definition Server_Close :: "rap_config \<Rightarrow> (listener \<Rightarrow> goerr option) \<Rightarrow> Server \<Rightarrow> (goerr option \<times> Server) go" where
  "Server_Close E close_err = lock_server (\<lambda>v.
     case closeListenersLocked close_err (server_closeDoneChanLocked v) of (err, v) \<Rightarrow>
       bnd (close_active_muxers E (sv_activeMuxer v) v) (\<lambda>v. Ret (err, v)))"

definition ActiveMuxers :: "rap_config \<Rightarrow> Server \<Rightarrow> (nat \<times> Server) go" where
  "ActiveMuxers E v = bnd (getMuxerLimiter E v) (\<lambda>((n, k), v). Ret (n, v))"

definition Server_AddBytesWritten :: "i64 \<Rightarrow> Server \<Rightarrow> Server" where
  "Server_AddBytesWritten n v = v\<lparr>sv_bytesWritten := sv_bytesWritten v + n\<rparr>"

definition BytesWritten :: "Server \<Rightarrow> i64" where
  "BytesWritten v = sv_bytesWritten v"

definition Server_AddBytesRead :: "i64 \<Rightarrow> Server \<Rightarrow> Server" where
  "Server_AddBytesRead n v = v\<lparr>sv_bytesRead := sv_bytesRead v + n\<rparr>"

definition BytesRead :: "Server \<Rightarrow> i64" where
  "BytesRead v = sv_bytesRead v"

end
