(* ===== verification/Server_Laws.thy ===== *)
theory Server_Laws
  imports Server
begin

text \<open>
  The laws of a Server: its limit on the number of Muxers, and that once closed it stays closed.
\<close>

section \<open>The limit\<close>

definition muxer_limit :: "rap_config \<Rightarrow> Server \<Rightarrow> nat" where
  "muxer_limit E v = nat (if sv_MaxMuxers v < 1 then 1 + int (ProtocolMaxConcurrentConns div (unat (MaxConnID E) + 1)) else sv_MaxMuxers v)"

definition limiter_inv :: "rap_config \<Rightarrow> Server \<Rightarrow> bool" where
  "limiter_inv E v \<longleftrightarrow>
     (case sv_muxerLimiter v of
        None \<Rightarrow> sv_running v = []
      | Some (n, k) \<Rightarrow> n = length (sv_running v) \<and> n \<le> k \<and> k = muxer_limit E v)"

lemma muxer_limit_pos: "0 < muxer_limit E v"
  by (simp add: muxer_limit_def)

lemma muxer_limit_running [simp]: "muxer_limit E (v\<lparr>sv_running := ms\<rparr>) = muxer_limit E v"
  by (simp add: muxer_limit_def)

text \<open>What the rest of the Server leaves alone of it.\<close>

definition aside :: "Server \<Rightarrow> Server \<Rightarrow> bool" where
  "aside v v' \<longleftrightarrow> sv_muxerLimiter v' = sv_muxerLimiter v \<and> sv_running v' = sv_running v \<and> sv_MaxMuxers v' = sv_MaxMuxers v"

lemma aside_inv: "limiter_inv E v \<Longrightarrow> aside v v' \<Longrightarrow> limiter_inv E v'"
  by (auto simp: limiter_inv_def aside_def muxer_limit_def split: option.splits prod.splits)

lemma aside_refl: "aside v v" and aside_trans: "aside u v \<Longrightarrow> aside v w \<Longrightarrow> aside u w"
  by (simp_all add: aside_def)

lemma limiter_ready:
  assumes "limiter_inv E v" and "\<not> sv_mu v"
  obtains v' where "getMuxerLimiter E v = Ret ((length (sv_running v), muxer_limit E v), v')"
    and "sv_muxerLimiter v' = Some (length (sv_running v), muxer_limit E v)" and "sv_running v' = sv_running v"
    and "sv_MaxMuxers v' = sv_MaxMuxers v" and "\<not> sv_mu v'" and "sv_serveErrorsMu v' = sv_serveErrorsMu v"
    and "length (sv_running v) \<le> muxer_limit E v"
proof (cases "sv_muxerLimiter v")
  case None
  with assms show thesis
    by (intro that [of "v\<lparr>sv_muxerLimiter := Some (0, muxer_limit E v)\<rparr>"])
      (auto simp: getMuxerLimiter_def getMuxerLimiterLocked_def lock_server_def limiter_inv_def muxer_limit_def Let_def)
next
  case (Some lim)
  with assms show thesis
    by (intro that [of v]) (auto simp: getMuxerLimiter_def getMuxerLimiterLocked_def lock_server_def limiter_inv_def split: prod.splits)
qed

lemma trackMuxer_aside: "trackMuxer m v = Ret (u, v') \<Longrightarrow> aside v v'"
  by (auto simp: trackMuxer_def lock_server_def aside_def split: if_splits)

lemma accept_inv:
  assumes "limiter_inv E v" and "bnd (limiter_put E v) (start_muxer E) = Ret v'"
  shows "limiter_inv E v'"
proof -
  have "\<not> sv_mu v" using assms(2) by (auto simp: limiter_put_def getMuxerLimiter_def lock_server_def)
  from limiter_ready [OF assms(1) this] obtain w where w: "getMuxerLimiter E v = Ret ((length (sv_running v), muxer_limit E v), w)"
    "sv_muxerLimiter w = Some (length (sv_running v), muxer_limit E v)" "sv_running w = sv_running v" "sv_MaxMuxers w = sv_MaxMuxers v" .
  let ?n = "length (sv_running v)" and ?w = "w\<lparr>sv_muxerLimiter := Some (length (sv_running v) + 1, muxer_limit E v)\<rparr>"
  from assms(2) w(1) have room: "?n < muxer_limit E v" and st: "start_muxer E ?w = Ret v'"
    by (auto simp: limiter_put_def split: if_splits)
  from st obtain x serial where "trackMuxer (length (sv_store ?w)) (?w\<lparr>sv_store := sv_store ?w @ [x], sv_serials := serial,
      sv_running := sv_running ?w @ [length (sv_store ?w)]\<rparr>) = Ret ((), v')"
    by (auto simp: start_muxer_def Let_def elim!: bnd_RetE)
  from trackMuxer_aside [OF this] show ?thesis
    using room w(3,4) by (simp add: aside_def limiter_inv_def muxer_limit_def)
qed

lemma limiter_take_inv:
  assumes "limiter_inv E v" and "limiter_take E v = Ret v'"
  shows "sv_running v' = sv_running v" and "0 < length (sv_running v)"
    and "sv_muxerLimiter v' = Some (length (sv_running v) - 1, muxer_limit E v)" and "sv_MaxMuxers v' = sv_MaxMuxers v"
    and "length (sv_running v) \<le> muxer_limit E v"
proof -
  have "\<not> sv_mu v" using assms(2) by (auto simp: limiter_take_def getMuxerLimiter_def lock_server_def)
  from limiter_ready [OF assms(1) this] obtain w where w: "getMuxerLimiter E v = Ret ((length (sv_running v), muxer_limit E v), w)"
    "sv_running w = sv_running v" "sv_MaxMuxers w = sv_MaxMuxers v" "length (sv_running v) \<le> muxer_limit E v" .
  with assms(2) show "sv_running v' = sv_running v" "0 < length (sv_running v)"
    "sv_muxerLimiter v' = Some (length (sv_running v) - 1, muxer_limit E v)" "sv_MaxMuxers v' = sv_MaxMuxers v"
    "length (sv_running v) \<le> muxer_limit E v"
    by (auto simp: limiter_take_def split: if_splits)
qed

lemma end_inv:
  assumes "limiter_inv E v" and "m \<in> set (sv_running v)" and "end_muxer E m err v = Ret v'"
  shows "limiter_inv E v'"
proof -
  have "\<exists>u w. limiter_take E u = Ret w \<and> aside v u \<and> (\<exists>w'. aside w w' \<and> v' = w'\<lparr>sv_running := remove1 m (sv_running w')\<rparr>)"
  proof (cases err)
    case None
    with assms(3) show ?thesis by (auto simp: end_muxer_def intro: aside_refl elim!: bnd_RetE)
  next
    case (Some e)
    let ?u = "v\<lparr>sv_serveErrorsMu := True, sv_serveErrors := count_error e (sv_serveErrors v)\<rparr>"
    from Some assms(3) obtain w where "limiter_take E ?u = Ret w" "v' = w\<lparr>sv_serveErrorsMu := False, sv_running := remove1 m (sv_running w)\<rparr>"
      by (auto simp: end_muxer_def lock_errors_def elim!: bnd_RetE split: if_splits)
    then show ?thesis
      by (intro exI [where x = ?u] exI [where x = w] conjI exI [where x = "w\<lparr>sv_serveErrorsMu := False\<rparr>"]) (simp_all add: aside_def)
  qed
  then obtain u w w' where t: "limiter_take E u = Ret w" "aside v u" "aside w w'" "v' = w'\<lparr>sv_running := remove1 m (sv_running w')\<rparr>" by blast
  note l = limiter_take_inv [OF aside_inv [OF assms(1) t(2)] t(1)]
  have "sv_running w' = sv_running v" "sv_muxerLimiter w' = Some (length (sv_running v) - 1, muxer_limit E u)" "muxer_limit E u = muxer_limit E w'"
    using l t(2,3) by (simp_all add: aside_def muxer_limit_def)
  moreover have "length (sv_running v) \<le> muxer_limit E u" using l(5) t(2) by (simp add: aside_def)
  ultimately show ?thesis using assms(2) by (simp add: t(4) limiter_inv_def length_remove1)
qed

lemma close_listeners_aside: "close_listeners ce lns err v = (err', v') \<Longrightarrow> aside v v' \<and> sv_doneChan v' = sv_doneChan v"
proof (induction lns arbitrary: err v)
  case (Cons ln lns)
  from Cons.IH [of _ "(close_listener ln v)\<lparr>sv_listeners := removeAll ln (sv_listeners (close_listener ln v))\<rparr>"] Cons.prems show ?case
    by (auto simp: Let_def close_listener_def aside_def)
qed (simp add: aside_refl)

lemma close_active_aside: "close_active_muxers E ms v = Ret v' \<Longrightarrow> aside v v' \<and> sv_doneChan v' = sv_doneChan v"
proof (induction ms arbitrary: v)
  case (Cons m ms)
  from Cons.prems obtain x where "close_active_muxers E ms (v\<lparr>sv_store := (sv_store v)[m := x], sv_activeMuxer := removeAll m (sv_activeMuxer v)\<rparr>) = Ret v'"
    by (auto elim!: bnd_RetE)
  from Cons.IH [OF this] show ?case by (simp add: aside_def)
qed (simp add: aside_refl)

lemma Server_Close_closed:
  assumes "Server_Close E ce v = Ret (err, v')"
  shows "aside v v' \<and> sv_doneChan v' = Some True \<and> \<not> sv_mu v'"
proof -
  let ?v = "server_closeDoneChanLocked (v\<lparr>sv_mu := True\<rparr>)"
  have v: "aside v ?v" "sv_doneChan ?v = Some True"
    by (auto simp: server_closeDoneChanLocked_def server_getDoneChanLocked_def aside_def split: option.splits)
  obtain e w where w: "closeListenersLocked ce ?v = (e, w)" by (cases "closeListenersLocked ce ?v")
  with assms obtain u where u: "close_active_muxers E (sv_activeMuxer w) w = Ret u" "v' = u\<lparr>sv_mu := False\<rparr>"
    by (auto simp: Server_Close_def lock_server_def elim!: bnd_RetE split: if_splits)
  from close_listeners_aside [OF w [unfolded closeListenersLocked_def]] close_active_aside [OF u(1)] v show ?thesis
    by (simp add: u(2) aside_def)
qed

text \<open>
  The states of a Server: connections are accepted, Muxers end, it is closed, and anything else
  happens that leaves the limiter and its Muxers alone.
\<close>

inductive srv_reach :: "rap_config \<Rightarrow> Server \<Rightarrow> bool" for E where
  new: "srv_reach E (new_server addr handler maxMuxers rt wt serial t orc)"
| accept: "srv_reach E v \<Longrightarrow> bnd (limiter_put E v) (start_muxer E) = Ret v' \<Longrightarrow> srv_reach E v'"
| ends: "srv_reach E v \<Longrightarrow> m \<in> set (sv_running v) \<Longrightarrow> end_muxer E m err v = Ret v' \<Longrightarrow> srv_reach E v'"
| close: "srv_reach E v \<Longrightarrow> Server_Close E ce v = Ret (err, v') \<Longrightarrow> srv_reach E v'"
| other: "srv_reach E v \<Longrightarrow> aside v v' \<Longrightarrow> srv_reach E v'"

lemma srv_reach_inv: "srv_reach E v \<Longrightarrow> limiter_inv E v"
proof (induction rule: srv_reach.induct)
  case new
  show ?case by (simp add: limiter_inv_def new_server_def)
next
  case (accept v v')
  then show ?case by (blast intro: accept_inv)
next
  case (ends v m err v')
  then show ?case by (blast intro: end_inv)
next
  case (close v ce err v')
  then show ?case using Server_Close_closed aside_inv by blast
next
  case (other v v')
  then show ?case by (blast intro: aside_inv)
qed

text \<open>
  C12. A Server runs no more Muxers at a time than its limit, \<^verbatim>\<open>MaxMuxers\<close> or else what keeps the number of
  concurrent Conns at ten million: in every state it can get into by accepting connections, Muxers
  ending with and without errors, closing, and anything else that leaves the limiter alone, \<^verbatim>\<open>ActiveMuxers\<close>
  is the number of Muxers running and no more than the limit; accepting another one waits exactly
  when the limit is reached; and a Muxer that ends never waits to hand back its place.
\<close>

theorem server_limits_muxers:
  assumes "srv_reach E v" and "\<not> sv_mu v" and "\<not> sv_serveErrorsMu v"
  shows "(\<exists>v'. ActiveMuxers E v = Ret (length (sv_running v), v'))
    \<and> length (sv_running v) \<le> muxer_limit E v
    \<and> (limiter_put E v = Blocks \<longleftrightarrow> length (sv_running v) = muxer_limit E v)
    \<and> (\<forall>m err. m \<in> set (sv_running v) \<longrightarrow> (\<exists>v'. end_muxer E m err v = Ret v' \<and> length (sv_running v') + 1 = length (sv_running v)))"
proof -
  have inv: "limiter_inv E v" using assms(1) by (rule srv_reach_inv)
  from limiter_ready [OF inv assms(2)] obtain w where w: "getMuxerLimiter E v = Ret ((length (sv_running v), muxer_limit E v), w)"
    "sv_muxerLimiter w = Some (length (sv_running v), muxer_limit E v)" "sv_running w = sv_running v" "\<not> sv_mu w"
    "length (sv_running v) \<le> muxer_limit E v" .
  have fin: "\<exists>v'. end_muxer E m err v = Ret v' \<and> length (sv_running v') + 1 = length (sv_running v)" if m: "m \<in> set (sv_running v)" for m err
  proof -
    have take: "\<exists>u'. limiter_take E u = Ret u' \<and> sv_running u' = sv_running v" if "aside v u" "\<not> sv_mu u" for u
    proof -
      from limiter_ready [OF aside_inv [OF inv that(1)] that(2)] obtain t where
        "getMuxerLimiter E u = Ret ((length (sv_running u), muxer_limit E u), t)" "sv_running t = sv_running u" .
      moreover have "0 < length (sv_running v)" using m by (cases "sv_running v") auto
      ultimately show ?thesis using that(1) by (simp add: limiter_take_def aside_def)
    qed
    have len: "length (remove1 m (sv_running v)) + 1 = length (sv_running v)" using length_pos_if_in_set [OF m] m by (simp add: length_remove1)
    show ?thesis
    proof (cases err)
      case None
      from take [OF aside_refl assms(2)] None len show ?thesis by (auto simp: end_muxer_def)
    next
      case (Some e)
      from take [of "v\<lparr>sv_serveErrorsMu := True, sv_serveErrors := count_error e (sv_serveErrors v)\<rparr>"] assms(2,3) Some len
      show ?thesis by (auto simp: end_muxer_def lock_errors_def aside_def)
    qed
  qed
  show ?thesis using w fin by (auto simp: ActiveMuxers_def limiter_put_def)
qed

theorem server_limits_muxers_witness:
  "\<exists>v'. ActiveMuxers rap_default (new_server [] True 3 0 0 0 0 (\<lambda>_. 0)) = Ret (0, v')
     \<and> limiter_put rap_default (new_server [] True 3 0 0 0 0 (\<lambda>_. 0)) \<noteq> Blocks"
  using server_limits_muxers [OF srv_reach.new [of rap_default "[]" True 3 0 0 0 0 "\<lambda>_. 0"]]
  by (auto simp: new_server_def muxer_limit_def)

section \<open>Closing\<close>

text \<open>
  A Server that has been closed cannot be used again, although \<^verbatim>\<open>trackListenerLocked\<close> means to make that
  possible: after \<^verbatim>\<open>Close\<close> has returned, with or without an error, \<^verbatim>\<open>Serve\<close> on any listener returns that the
  server is closed and closes the listener, having accepted nothing, since it looks at the closed
  channel before the code that would replace it.
\<close>

theorem closed_server_stays_closed:
  assumes "Server_Close E close_err v = Ret (err, v')"
  shows "Server_Serve E l evs v' = Ret (ServerClosedError, close_listener l v')"
proof -
  note closed = Server_Close_closed [OF assms]
  then have same: "v'\<lparr>sv_mu := False\<rparr> = v'" by (cases v') simp
  from closed show ?thesis
    by (simp add: Server_Serve_def lock_server_def server_getDoneChanLocked_def same)
qed

theorem closed_server_stays_closed_witness:
  "\<exists>v'. Server_Close rap_default (\<lambda>_. None) (new_server [] True 3 0 0 0 0 (\<lambda>_. 0)) = Ret (None, v')
     \<and> Server_Serve rap_default 5 [] v' = Ret (ServerClosedError, close_listener 5 v')"
proof -
  obtain v' where v: "Server_Close rap_default (\<lambda>_. None) (new_server [] True 3 0 0 0 0 (\<lambda>_. 0)) = Ret (None, v')"
    by (simp add: Server_Close_def lock_server_def new_server_def server_closeDoneChanLocked_def server_getDoneChanLocked_def closeListenersLocked_def)
  from closed_server_stays_closed [OF v, of 5 "[]"] v show ?thesis by blast
qed

end
