(* ===== verification/Reverse_Proxy.thy ===== *)
theory Reverse_Proxy
  imports Conn_Http
begin

text \<open>
  \<^verbatim>\<open>src/reverseproxy.go\<close>. The handler that passes the requests of a Conn on to an HTTP server, on one of
  a fixed number of transports, and the response back.
\<close>

section \<open>State\<close>

text \<open>The upstream server, and the channel of the transports that are not in use with its capacity.\<close>

record ReverseProxy =
  rp_Scheme :: string
  rp_Host :: string
  rp_transports :: "nat list"
  rp_cap :: nat

definition NewReverseProxy :: "string \<Rightarrow> string \<Rightarrow> int \<Rightarrow> ReverseProxy" where
  "NewReverseProxy scheme host maxConnections =
     (let n = nat (if maxConnections < 1 then 512 else maxConnections) in
      \<lparr>rp_Scheme = scheme, rp_Host = host, rp_transports = [0..<n], rp_cap = n\<rparr>)"

text \<open>An \<^verbatim>\<open>http.Response\<close>: what the server has sent back.\<close>

record http_response =
  res_StatusCode :: int
  res_Header :: kvv
  res_Body :: body

section \<open>Serving a request\<close>

text \<open>The request as it goes upstream: there, and without the headers about the connection.\<close>

definition connection_header :: "kvv \<Rightarrow> kvv" where
  "connection_header hdr =
     (let hdr = kv_delete ''Keep-Alive'' hdr in
      case map_of hdr ''Connection'' of
        None \<Rightarrow> hdr
      | Some vv \<Rightarrow>
          if length vv > 0 then
            let newVv = filter (\<lambda>v. map to_lower v \<noteq> ''close'') vv in
            if length newVv > 0 then kv_set ''Connection'' newVv hdr else kv_delete ''Connection'' hdr
          else hdr)"

definition upstream_request :: "ReverseProxy \<Rightarrow> http_request \<Rightarrow> http_request" where
  "upstream_request rp req =
     req\<lparr>reqURL := (reqURL req)\<lparr>url_Scheme := rp_Scheme rp, url_Host := rp_Host rp\<rparr>,
         reqHeader := connection_header (reqHeader req)\<rparr>"

definition copy_header :: "kvv \<Rightarrow> kvv \<Rightarrow> kvv" where
  "copy_header src dst = fold (\<lambda>(k, vv) dst. fold (\<lambda>v. Header_Add k v) vv dst) src dst"

text \<open>
  \<^verbatim>\<open>ServeHTTP\<close> with the \<open>ResponseWriter\<close> of a Conn, which is how a Conn calls it. \<open>RoundTrip\<close> is that of the
  transports. A body that is only an \<^verbatim>\<open>io.Reader\<close> is copied by \<^verbatim>\<open>io.Copy\<close> with the \<^verbatim>\<open>ReadFrom\<close> of the destination when it
  has one, and a \<open>ResponseWriter\<close> has the one of the Conn embedded in it.
\<close>

definition ReverseProxy_ServeHTTP ::
  "rap_config \<Rightarrow> 'm ConnMuxer \<Rightarrow> (nat \<Rightarrow> http_request \<Rightarrow> goerr + http_response) \<Rightarrow> ResponseWriter \<Rightarrow> http_request
     \<Rightarrow> ReverseProxy \<Rightarrow> 'm sys \<Rightarrow> ((ResponseWriter \<times> ReverseProxy) \<times> 'm sys) go" where
  "ReverseProxy_ServeHTTP E M RoundTrip rw req rp s =
     (case rp_transports rp of
        [] \<Rightarrow> Blocks
      | t # ts \<Rightarrow>
          let rp = rp\<lparr>rp_transports := ts\<rparr> in
          (case RoundTrip t (upstream_request rp req) of
             Inl err \<Rightarrow> Ret ((rw, rp), s)
           | Inr res \<Rightarrow>
               if length (rp_transports rp) < rp_cap rp then
                 let rp = rp\<lparr>rp_transports := rp_transports rp @ [t]\<rparr> in
                 (case RW_Header rw of (dst, rw) \<Rightarrow>
                    let rw = rw\<lparr>HeaderMap := Some (copy_header (res_Header res) dst)\<rparr> in
                    bnd (Conn_ReadFrom E M (Some (res_Body res)) s) (\<lambda>(_, s). Ret ((rw, rp), s)))
               else Blocks))"

section \<open>What is lost\<close>

definition example_http_request :: http_request where
  "example_http_request = \<lparr>Method = ''GET'', reqURL = empty_url\<lparr>url_Path := ''/a''\<rparr>, reqHeader = [(''Connection'', [''close''])],
     Host = ''h'', RequestURI = ''/a'', ContentLength = 0\<rparr>"

text \<open>
  A sequence of requests, each with its own Conn and a new \<open>ResponseWriter\<close>: the proxy afterwards, and
  how many of them ended in an error of \<^verbatim>\<open>RoundTrip\<close>.
\<close>

fun proxy_run ::
  "rap_config \<Rightarrow> 'm ConnMuxer \<Rightarrow> ((nat \<Rightarrow> http_request \<Rightarrow> goerr + http_response) \<times> http_request \<times> 'm sys) list
     \<Rightarrow> ReverseProxy \<Rightarrow> ReverseProxy go" where
  "proxy_run E M [] rp = Ret rp"
| "proxy_run E M ((rt, req, s) # qs) rp =
     bnd (ReverseProxy_ServeHTTP E M rt NewResponseWriter req rp s) (\<lambda>((_, rp), _). proxy_run E M qs rp)"

definition fails :: "(nat \<Rightarrow> http_request \<Rightarrow> goerr + http_response) \<Rightarrow> bool" where
  "fails rt \<longleftrightarrow> (\<forall>t req. \<exists>err. rt t req = Inl err)"

definition succeeds :: "(nat \<Rightarrow> http_request \<Rightarrow> goerr + http_response) \<Rightarrow> bool" where
  "succeeds rt \<longleftrightarrow> (\<forall>t req. \<exists>res. rt t req = Inr res)"

lemma ServeHTTP_transports:
  assumes "ReverseProxy_ServeHTTP E M rt rw req rp s = Ret ((rw', rp'), s')" and "fails rt \<or> succeeds rt"
  shows "rp_transports rp \<noteq> [] \<and> rp_cap rp' = rp_cap rp
    \<and> length (rp_transports rp') + (if fails rt then 1 else 0) = length (rp_transports rp)"
proof (cases "rp_transports rp")
  case (Cons t ts)
  show ?thesis
  proof (cases "rt t (upstream_request (rp\<lparr>rp_transports := ts\<rparr>) req)")
    case (Inl err)
    then have "fails rt" using assms(2) unfolding succeeds_def by (metis sum.distinct(1))
    with Inl Cons assms(1) show ?thesis by (auto simp: ReverseProxy_ServeHTTP_def)
  next
    case (Inr res)
    then have "\<not> fails rt" unfolding fails_def by (metis sum.distinct(1))
    with Inr Cons assms(1) show ?thesis
      by (auto simp: ReverseProxy_ServeHTTP_def Let_def split: if_splits prod.splits elim!: bnd_RetE)
  qed
qed (use assms in \<open>simp add: ReverseProxy_ServeHTTP_def\<close>)

lemma proxy_run_counts:
  assumes "list_all (\<lambda>(rt, _). fails rt \<or> succeeds rt) qs" and "proxy_run E M qs rp = Ret rp'"
  shows "length (rp_transports rp') + length (filter (\<lambda>(rt, _). fails rt) qs) = length (rp_transports rp)"
  using assms
proof (induction qs arbitrary: rp)
  case (Cons q qs)
  obtain rt req s where q: "q = (rt, req, s)" by (cases q)
  from Cons.prems obtain rw' rp1 s' where r: "ReverseProxy_ServeHTTP E M rt NewResponseWriter req rp s = Ret ((rw', rp1), s')"
    "proxy_run E M qs rp1 = Ret rp'" unfolding q by (auto elim!: bnd_RetE)
  have "fails rt \<or> succeeds rt" using Cons.prems(1) by (simp add: q)
  from ServeHTTP_transports [OF r(1) this] Cons.IH [OF _ r(2)] Cons.prems(1) show ?case by (auto simp: q)
qed simp

text \<open>
  Every request whose \<^verbatim>\<open>RoundTrip\<close> fails takes its transport with it: after any sequence of requests that
  all returned, the transports left are those the proxy was made with less the failed requests; and
  when as many have failed as there were transports, the next request waits for ever, whatever
  the upstream server would answer.
\<close>

theorem proxy_runs_dry:
  assumes "list_all (\<lambda>(rt, _). fails rt \<or> succeeds rt) qs"
    and "proxy_run E M qs (NewReverseProxy scheme host n) = Ret rp"
  shows "length (rp_transports rp) + length (filter (\<lambda>(rt, _). fails rt) qs) = (if n < 1 then 512 else nat n)
    \<and> (length (filter (\<lambda>(rt, _). fails rt) qs) = (if n < 1 then 512 else nat n)
        \<longrightarrow> ReverseProxy_ServeHTTP E M RoundTrip rw req rp s = Blocks)"
proof -
  have "length (rp_transports (NewReverseProxy scheme host n)) = (if n < 1 then 512 else nat n)"
    by (simp add: NewReverseProxy_def Let_def)
  with proxy_run_counts [OF assms] have left: "length (rp_transports rp) + length (filter (\<lambda>(rt, _). fails rt) qs) = (if n < 1 then 512 else nat n)"
    by simp
  then show ?thesis by (auto simp: ReverseProxy_ServeHTTP_def)
qed

theorem proxy_runs_dry_witness:
  "\<exists>rp. proxy_run rap_default wire_mux (replicate 2 (\<lambda>_ _. Inl ErrEOF, example_http_request, wire_conn rap_default 7 id)) (NewReverseProxy ''http'' ''h'' 2) = Ret rp
     \<and> ReverseProxy_ServeHTTP rap_default wire_mux (\<lambda>_ _. Inl ErrEOF) NewResponseWriter example_http_request rp (wire_conn rap_default 7 id) = Blocks"
proof -
  let ?rt = "\<lambda>(_ :: nat) (_ :: http_request). Inl ErrEOF :: goerr + http_response"
  let ?qs = "replicate 2 (?rt, example_http_request, wire_conn rap_default 7 id)"
  have f: "fails ?rt" by (simp add: fails_def)
  obtain rp where rp: "proxy_run rap_default wire_mux ?qs (NewReverseProxy ''http'' ''h'' 2) = Ret rp"
    by (simp add: eval_nat_numeral NewReverseProxy_def ReverseProxy_ServeHTTP_def Let_def)
  have "list_all (\<lambda>(rt, _). fails rt \<or> succeeds rt) ?qs" using f by (simp add: list_all_iff)
  from proxy_runs_dry [OF this rp, of ?rt NewResponseWriter example_http_request "wire_conn rap_default 7 id"] f rp show ?thesis by auto
qed

text \<open>
  C34. The status and the header of the upstream response never reach the peer. On the \<open>ResponseWriter\<close> of a
  Conn, the copy of the body goes through \<^verbatim>\<open>Conn.ReadFrom\<close>, past the code that writes the header: two
  upstream servers whose responses differ in status and header as much as they like, and agree in
  the body, leave the Conn, its Muxer and everything sent in the same state, panics and waits
  included, and the header unwritten when it was unwritten before.
\<close>

theorem proxied_header_never_sent:
  assumes "\<And>t q. RoundTrip' t q = map_sum id (\<lambda>res. res\<lparr>res_StatusCode := code q, res_Header := hdr q\<rparr>) (RoundTrip t q)"
  shows "map_go snd (ReverseProxy_ServeHTTP E M RoundTrip' rw req rp s) = map_go snd (ReverseProxy_ServeHTTP E M RoundTrip rw req rp s)
    \<and> (\<forall>rw' rp' s'. ReverseProxy_ServeHTTP E M RoundTrip rw req rp s = Ret ((rw', rp'), s') \<longrightarrow> wroteHeader rw' = wroteHeader rw)"
proof (cases "rp_transports rp")
  case (Cons t ts)
  let ?q = "upstream_request (rp\<lparr>rp_transports := ts\<rparr>) req"
  show ?thesis
  proof (cases "RoundTrip t ?q")
    case (Inl err)
    with Cons assms show ?thesis by (simp add: ReverseProxy_ServeHTTP_def)
  next
    case (Inr res)
    obtain dst rw1 where h: "RW_Header rw = (dst, rw1)" by (cases "RW_Header rw")
    then have w: "wroteHeader rw1 = wroteHeader rw" by (auto simp: RW_Header_def split: option.splits)
    show ?thesis
      using Cons Inr assms h w
      by (cases "Conn_ReadFrom E M (Some (res_Body res)) s") (auto simp: ReverseProxy_ServeHTTP_def Let_def map_go_bnd split: if_splits prod.splits)
  qed
qed (simp add: ReverseProxy_ServeHTTP_def)

definition example_body :: body where
  "example_body = \<lparr>b_reads = [([1, 2], None)], b_err = ErrEOF, b_limit = None\<rparr>"

theorem proxied_header_never_sent_witness:
  "map_go snd (ReverseProxy_ServeHTTP rap_default wire_mux
       (\<lambda>_ _. Inr \<lparr>res_StatusCode = 404, res_Header = [(''Etag'', [''7''])], res_Body = example_body\<rparr>)
       NewResponseWriter example_http_request (NewReverseProxy ''http'' ''h'' 2) (wire_conn rap_default 7 id)) =
   map_go snd (ReverseProxy_ServeHTTP rap_default wire_mux
       (\<lambda>_ _. Inr \<lparr>res_StatusCode = 200, res_Header = [], res_Body = example_body\<rparr>)
       NewResponseWriter example_http_request (NewReverseProxy ''http'' ''h'' 2) (wire_conn rap_default 7 id))"
proof -
  let ?a = "\<lambda>(_ :: nat) (_ :: http_request). Inr \<lparr>res_StatusCode = 404, res_Header = [(''Etag'', [''7''])], res_Body = example_body\<rparr> :: goerr + http_response"
    and ?b = "\<lambda>(_ :: nat) (_ :: http_request). Inr \<lparr>res_StatusCode = 200, res_Header = [], res_Body = example_body\<rparr> :: goerr + http_response"
  have "?a t q = map_sum id (\<lambda>res. res\<lparr>res_StatusCode := 404, res_Header := [(''Etag'', [''7''])]\<rparr>) (?b t q)" for t q by simp
  from proxied_header_never_sent [where code = "\<lambda>_. 404" and hdr = "\<lambda>_. [(''Etag'', [''7''])]", OF this] show ?thesis by blast
qed

end
