(* ===== verification/Muxer_Demux.thy ===== *)
theory Muxer_Demux
  imports Muxer_Stream
begin

text \<open>
  What the Conns of a Muxer see of the stream they share: a frame reaches the Conn whose ID it carries
  and no other, so that each Conn finds in its inbox exactly the frames sent to it, in the order they
  were sent, whatever the other Conns do in between. The abstract inbox of a Conn is the specification;
  the reading and writing loops of two Muxers refine it.
\<close>

section \<open>Inboxes\<close>

text \<open>What has come in on a Conn and not been taken yet, and whether its own side has said its last word.\<close>

record inbox =
  ib_frames :: "byte list list"
  ib_acks :: nat
  ib_final :: bool
  ib_closed :: bool

definition inbox_of :: "('m, 'z) conn_scheme \<Rightarrow> inbox" where
  "inbox_of k = \<lparr>ib_frames = map fbytes (readCh k), ib_acks = ackCh k, ib_final = remoteSentFinal k, ib_closed = localSentFinal k\<rparr>"

definition new_inbox :: inbox where
  "new_inbox = \<lparr>ib_frames = [], ib_acks = 0, ib_final = False, ib_closed = False\<rparr>"

definition inbox_gets :: "byte list \<Rightarrow> inbox \<Rightarrow> inbox" where
  "inbox_gets bs b = (let h = hdr_view bs in
     if \<not> h_flow h then b\<lparr>ib_frames := ib_frames b @ [bs]\<rparr>
     else if h_body h then (if ib_closed b then new_inbox else b\<lparr>ib_final := True\<rparr>)
     else if \<not> h_head h then b\<lparr>ib_acks := Suc (ib_acks b)\<rparr>
     else b)"

lemma inbox_of_view [simp]: "inbox_of (conn_view k x) = inbox_of k" "inbox_of (conn.truncate s) = inbox_of s"
  by (cases k, simp add: inbox_of_def conn_view_def conn.defs, cases s, simp add: inbox_of_def conn.defs)

lemma inbox_of_upd [simp]:
  "inbox_of (free_frame fdo s) = inbox_of s" "inbox_of (s\<lparr>cmu := b\<rparr>) = inbox_of s" "inbox_of (s\<lparr>wmu := b\<rparr>) = inbox_of s"
  "inbox_of (s\<lparr>rmu := b\<rparr>) = inbox_of s" "inbox_of (s\<lparr>mux := m\<rparr>) = inbox_of s"
  by (simp_all add: inbox_of_def free_frame_def)

lemma recycle_inbox:
  assumes "recycle E s = Ret (u, s')"
  shows "inbox_of s' = new_inbox \<and> connID s' = connID s"
proof -
  have fr: "connID (fold (\<lambda>fd. free_frame (Some fd)) fds t) = connID t" "ackCh (fold (\<lambda>fd. free_frame (Some fd)) fds t) = ackCh t" for fds and t :: "'a sys"
    by (induction fds arbitrary: t) (simp_all add: free_frame_def)
  show ?thesis using assms
    by (auto simp: recycle_def lock_wmu_def lock_rmu_def map_go_bnd recycleLocked_def forceRecycleLocked_def Let_def
      inbox_of_def new_inbox_def fr elim!: bnd_RetE split: if_splits option.splits)
qed

lemma SubmitFrame_inbox:
  assumes "SubmitFrame E (Some fd) s = Ret s'" and "4 \<le> length (fbytes fd)"
  shows "inbox_of s' = inbox_gets (fbytes fd) (inbox_of s) \<and> connID s' = connID s"
proof -
  note v = view_read [OF assms(2)]
  show ?thesis
  proof (cases "h_flow (fhdr fd) \<and> h_body (fhdr fd)")
    case True
    then have "\<not> is_ack fd" "is_final fd" by (simp_all add: is_ack_def is_final_def)
    with True assms(1) v obtain u where "receivedFinal E (Some fd) s = Ret (u, s')"
      by (auto simp: SubmitFrame_def hdr_of_def map_go_bnd elim!: bnd_RetE)
    then obtain t where t: "s' = t\<lparr>cmu := False\<rparr>" and "remoteSentFinal t \<and> t = (free_frame (Some fd) (s\<lparr>cmu := True\<rparr>))\<lparr>remoteSentFinal := True, readChClosed := True\<rparr> \<and> \<not> localSentFinal s
        \<or> localSentFinal s \<and> (\<exists>u. recycle E ((free_frame (Some fd) (s\<lparr>cmu := True\<rparr>))\<lparr>remoteSentFinal := True, readChClosed := True\<rparr>) = Ret (u, t))"
      by (auto simp: receivedFinal_def lock_cmu_def hdr_of_def v remoteSendingFinal_def free_frame_def elim!: bnd_RetE split: if_splits)
    then show ?thesis
      using True recycle_inbox by (fastforce simp: t inbox_gets_def inbox_of_def free_frame_def)
  next
    case False
    with assms(1) v show ?thesis
      by (auto simp: SubmitFrame_def hdr_of_def is_ack_def is_final_def inbox_gets_def inbox_of_def Let_def free_frame_def
        elim!: bnd_RetE split: if_splits)
  qed
qed

lemma start_conn_inbox: "start_conn x s = Ret (r, s') \<Longrightarrow> inbox_of s' = inbox_of s \<and> connID s' = connID s"
  by (auto simp: start_conn_def starting_def SetReadDeadline_def SetWriteDeadline_def Let_def inbox_of_def split: if_splits)

lemma on_conn_changes:
  assumes "on_conn c f x = Ret (r, x')"
  obtains s where "c < length (heap x)" "f (conn_view (heap x ! c) x) = Ret (r, s)" "heap x' = (heap x)[c := conn.truncate s]"
    "connLookup x' = connLookup x"
  using assms by (elim on_conn_RetE) (auto simp: put_conn_def)

text \<open>Every entry of the lookup table names a Conn with the ID it stands under.\<close>

definition table_ok :: "Muxer \<Rightarrow> bool" where
  "table_ok x \<longleftrightarrow> (\<forall>i < length (connLookup x). \<forall>c. connLookup x ! i = Some c \<longrightarrow>
     c < length (heap x) \<and> unat (connID (heap x ! c)) = i)"

lemma table_okD: "table_ok x \<Longrightarrow> i < length (connLookup x) \<Longrightarrow> connLookup x ! i = Some c \<Longrightarrow>
    c < length (heap x) \<and> unat (connID (heap x ! c)) = i"
  by (simp add: table_ok_def)

lemma table_ok_cong: "connLookup x' = connLookup x \<Longrightarrow> map connID (heap x') = map connID (heap x) \<Longrightarrow> table_ok x' = table_ok x"
  using map_eq_imp_length_eq [of connID "heap x'" connID "heap x"] nth_map [of _ "heap x" connID] nth_map [of _ "heap x'" connID]
  by (auto simp: table_ok_def)

lemma dispatch_control:
  assumes "dispatch E fd x = Ret (err, x')" and "4 \<le> length (fbytes fd)" and "h_id (fhdr fd) = 0x1fff"
  shows "heap x' = heap x \<and> connLookup x' = connLookup x"
proof -
  have "muxerControlHandlers mc fd x = Ret (err, x') \<Longrightarrow> heap x' = heap x \<and> connLookup x' = connLookup x" for mc
    by (auto simp: muxerControlHandlers_def muxerControlPanicHandler_def muxerControlPingHandler_def
      muxerControlPongHandler_def muxerControlReservedHandler_def mux_write_def free_mux_def Let_def
      elim!: bnd_RetE split: if_splits)
  moreover have "IsMuxerControl (fbytes fd) = Ret True"
    using hdr_classify(5) [OF frame_view(2) [OF assms(2)], of "drop 4 (fbytes fd)"] frame_view(1) [OF assms(2), symmetric] assms(3) by simp
  ultimately show ?thesis using assms(1) by (auto simp: dispatch_def elim!: bnd_RetE)
qed

lemma view_id:
  assumes "4 \<le> length (fbytes fd)"
  shows "map_go unat (ConnIDOf (fbytes fd)) = Ret (h_id (fhdr fd))" and "IsMuxerControl (fbytes fd) = Ret (h_id (fhdr fd) = 0x1fff)"
proof -
  note v = frame_view [OF assms]
  have "unat (of_nat (h_id (fhdr fd)) :: ConnID) = h_id (fhdr fd)" using v(2) by (simp add: hdr_ok_def unat_of_nat take_bit_nat_eq_self)
  then show "map_go unat (ConnIDOf (fbytes fd)) = Ret (h_id (fhdr fd))"
    using hdr_read(2) [OF v(2), of "drop 4 (fbytes fd)"] v(1) [symmetric] by simp
  show "IsMuxerControl (fbytes fd) = Ret (h_id (fhdr fd) = 0x1fff)"
    using hdr_classify(5) [OF v(2), of "drop 4 (fbytes fd)"] v(1) [symmetric] by simp
qed

text \<open>A frame changes the inbox of the Conn it names and no other Conn.\<close>

lemma dispatch_inbox:
  assumes "dispatch E fd x = Ret (err, x')" and "4 \<le> length (fbytes fd)" and "table_ok x"
    and "i < length (connLookup x)" and "connLookup x ! i = Some c" and "i \<noteq> 0x1fff"
  shows "connLookup x' = connLookup x \<and> map connID (heap x') = map connID (heap x) \<and>
    (if h_id (fhdr fd) = i then inbox_of (heap x' ! c) = inbox_gets (fbytes fd) (inbox_of (heap x ! c)) else heap x' ! c = heap x ! c)"
proof (cases "h_id (fhdr fd) = 0x1fff")
  case True
  with dispatch_control [OF assms(1,2)] assms(6) show ?thesis by auto
next
  case False
  obtain j where j: "ConnIDOf (fbytes fd) = Ret j" "unat j = h_id (fhdr fd)" using view_id(1) [OF assms(2)] by (auto simp: map_go_Ret_conv)
  from assms(1) False view_id(2) [OF assms(2)] have "dispatch_conn E fd x = Ret x'" by (auto simp: dispatch_def elim!: bnd_RetE)
  with j obtain d first x1 where d: "h_id (fhdr fd) < length (connLookup x)" "connLookup x ! h_id (fhdr fd) = Some d"
    "on_conn d (start_conn x) x = Ret (first, x1)"
    "on_conn d (\<lambda>s. map_go (Pair ()) (SubmitFrame E (Some fd) s)) (if first \<and> hasHandler x1 then x1\<lparr>spawned := spawned x1 @ [d]\<rparr> else x1) = Ret ((), x')"
    by (auto simp: dispatch_conn_def Let_def idx_def elim!: bnd_RetE split: option.splits if_splits)
  from d(3) obtain s where s: "d < length (heap x)" "start_conn x (conn_view (heap x ! d) x) = Ret (first, s)"
    "heap x1 = (heap x)[d := conn.truncate s]" "connLookup x1 = connLookup x" by (rule on_conn_changes)
  let ?x2 = "if first \<and> hasHandler x1 then x1\<lparr>spawned := spawned x1 @ [d]\<rparr> else x1"
  have x2: "heap ?x2 = heap x1" "connLookup ?x2 = connLookup x" using s(4) by simp_all
  from d(4) obtain t where t: "map_go (Pair ()) (SubmitFrame E (Some fd) (conn_view (heap ?x2 ! d) ?x2)) = Ret ((), t)"
    "heap x' = (heap ?x2)[d := conn.truncate t]" "connLookup x' = connLookup ?x2" by (rule on_conn_changes)
  have "SubmitFrame E (Some fd) (conn_view (conn.truncate s) ?x2) = Ret t" using t(1) s(1) unfolding x2 s(3) by (auto simp: map_go_bnd elim!: bnd_RetE)
  note st = SubmitFrame_inbox [OF this assms(2)] start_conn_inbox [OF s(2)]
  have h: "heap x' = (heap x)[d := conn.truncate t]" unfolding t(2) x2 s(3) by simp
  have ids: "map connID (heap x') = map connID (heap x)" unfolding h using st s(1) by (simp add: map_update list_update_same_conv)
  have "d = c \<longleftrightarrow> h_id (fhdr fd) = i" using table_okD [OF assms(3) d(1,2)] table_okD [OF assms(3-5)] assms(5) d(2) by auto
  with h st s(1) ids t(3) x2(2) show ?thesis by auto
qed

lemma frame_wire_id:
  assumes "frame_ok bs"
  shows "h_id (hdr_view (frame_wire bs)) = h_id (hdr_view bs)"
proof -
  from assms have len: "4 \<le> length bs" "length bs \<le> FrameMaxSize" by (simp_all add: frame_ok_def)
  from len(1) obtain h p where bs: "bs = hdr_bytes h @ p" "hdr_ok h" by (rule frame_cases) blast
  moreover have "length p < 65536" using len(2) by (simp add: bs(1) frame_sizes)
  ultimately show ?thesis by (simp add: frame_wire_bytes)
qed

lemma deliver_inbox:
  assumes "deliver E bss n x = Ret ((m, None, rest), x')" and "list_all frame_ok bss" and "table_ok x"
    and "i < length (connLookup x)" and "connLookup x ! i = Some c" and "i \<noteq> 0x1fff"
  shows "table_ok x' \<and> connLookup x' = connLookup x \<and>
    inbox_of (heap x' ! c) = fold inbox_gets (map frame_wire (filter (\<lambda>bs. h_id (hdr_view bs) = i) bss)) (inbox_of (heap x ! c))"
  using assms
proof (induction bss arbitrary: n x)
  case (Cons bs bss)
  from Cons.prems(1) obtain fd p err y where al: "FrameDataAlloc (mpool x) = Ret (fd, p)"
    and ds: "dispatch E \<lparr>fbytes = frame_wire bs, fspare = drop (length bs) (fspare fd)\<rparr> (x\<lparr>mpool := p\<rparr>) = Ret (err, y)"
    and "(if err = None then deliver E bss (n + length bs) y else Ret ((n + length bs, err, bss), y)) = Ret ((m, None, rest), x')"
    by (auto elim!: bnd_RetE)
  then have dl: "deliver E bss (n + length bs) y = Ret ((m, None, rest), x')" by (auto split: if_splits)
  have ok: "frame_ok bs" "list_all frame_ok bss" using Cons.prems(2) by simp_all
  then have len: "4 \<le> length (fbytes \<lparr>fbytes = frame_wire bs, fspare = drop (length bs) (fspare fd)\<rparr>)"
    by (simp add: frame_ok_def length_frame_wire)
  have id: "h_id (hdr_view (frame_wire bs)) = h_id (hdr_view bs)" by (rule frame_wire_id [OF ok(1)])
  have tx: "table_ok (x\<lparr>mpool := p\<rparr>)" using Cons.prems(3) by (simp add: table_ok_def)
  from dispatch_inbox [OF ds len tx, of i c] Cons.prems(4-6) id
  have y: "connLookup y = connLookup x" "map connID (heap y) = map connID (heap x)"
    "inbox_of (heap y ! c) = (if h_id (hdr_view bs) = i then inbox_gets (frame_wire bs) (inbox_of (heap x ! c)) else inbox_of (heap x ! c))"
    by (auto split: if_splits)
  have ty: "table_ok y" using table_ok_cong [OF y(1,2)] Cons.prems(3) by simp
  from Cons.IH [OF dl ok(2) ty] Cons.prems(4-6) y show ?case by simp
qed simp

section \<open>Handing a frame over\<close>

lemma conn_view_truncate:
  "conn_view (conn.truncate s) x = s\<lparr>mux := chans x, pool := mpool x, clock := now x, choices := mchoices x, tick := mtick x\<rparr>"
  by (cases s) (simp add: conn_view_def conn.defs sys.defs)

lemma view_put:
  assumes "c < length (heap x)" and "clock s = now x" and "choices s = mchoices x"
  shows "conn_view (heap (put_conn c s x) ! c) (put_conn c s x) = s"
  using assms by (simp add: conn_view_truncate) (simp add: put_conn_def)

lemma start_conn_env:
  "start_conn x s = Ret (r, s') \<Longrightarrow> mux s' = mux s \<and> pool s' = pool s \<and> clock s' = clock s \<and> choices s' = choices s \<and> tick s' = tick s"
  by (auto simp: start_conn_def starting_def SetReadDeadline_def SetWriteDeadline_def Let_def split: if_splits)

lemma put_conn_twice:
  "put_conn c s' (put_conn c s x) = put_conn c s' x" "put_conn c s' ((put_conn c s x)\<lparr>spawned := q\<rparr>) = put_conn c s' (x\<lparr>spawned := q\<rparr>)"
  by (simp_all add: put_conn_def)

text \<open>A frame that its Conn takes: the deadlines are set on the first one, the frame is submitted, nothing else happens.\<close>

lemma dispatch_submits:
  assumes "4 \<le> length (fbytes fd)" and "h_id (fhdr fd) \<noteq> 0x1fff" and "h_id (fhdr fd) < length (connLookup x)"
    and "connLookup x ! h_id (fhdr fd) = Some c" and "c < length (heap x)"
    and "start_conn x (conn_view (heap x ! c) x) = Ret (first, s)" and "SubmitFrame E (Some fd) s = Ret s'"
  shows "dispatch E fd x = Ret (None, put_conn c s' (if first \<and> hasHandler x then x\<lparr>spawned := spawned x @ [c]\<rparr> else x))"
proof -
  obtain j where j: "ConnIDOf (fbytes fd) = Ret j" "unat j = h_id (fhdr fd)" using view_id(1) [OF assms(1)] by (auto simp: map_go_Ret_conv)
  let ?y = "put_conn c s x" and ?q = "if first \<and> hasHandler x then spawned x @ [c] else spawned x"
  have env: "mux s = chans x" "pool s = mpool x" "clock s = now x" "choices s = mchoices x" "tick s = mtick x"
    using start_conn_env [OF assms(6)] by simp_all
  have v: "conn_view (heap (?y\<lparr>spawned := q\<rparr>) ! c) (?y\<lparr>spawned := q\<rparr>) = s" for q
    using view_put [OF assms(5) env(3,4)] by (simp add: conn_view_def)
  have st: "on_conn c (start_conn x) x = Ret (first, ?y)" using assms(5,6) by (simp add: on_conn_def)
  have y: "(if first \<and> hasHandler ?y then ?y\<lparr>spawned := spawned ?y @ [c]\<rparr> else ?y) = ?y\<lparr>spawned := ?q\<rparr>"
    by (simp add: put_conn_def)
  have sb: "on_conn c (\<lambda>s. map_go (Pair ()) (SubmitFrame E (Some fd) s)) (?y\<lparr>spawned := ?q\<rparr>) = Ret ((), put_conn c s' (x\<lparr>spawned := ?q\<rparr>))"
    using assms(5,7) v by (simp add: on_conn_def put_conn_twice)
  have "dispatch_conn E fd x = Ret (put_conn c s' (x\<lparr>spawned := ?q\<rparr>))"
    unfolding dispatch_conn_def j bnd.simps using assms(3,4) st sb y by (simp add: idx_def j(2))
  then show ?thesis using view_id(2) [OF assms(1)] assms(2) by (simp add: dispatch_def)
qed

text \<open>The first data frame of an idle Conn starts it and waits in its queue.\<close>

lemma start_conn_first:
  assumes "runstate s = runStateUnused" and "\<not> localSentFinal s" and "clock s = now x" and "0 \<le> ReadTimeout x" and "0 \<le> WriteTimeout x"
  shows "\<exists>rd wd. start_conn x s = Ret (True, s\<lparr>runstate := runStateActive, readDeadline := rd, writeDeadline := wd\<rparr>)
    \<and> deadline_ok rd \<and> deadline_ok wd \<and> \<not> cancel rd \<and> \<not> cancel wd"
proof -
  let ?rd = "deadline_set (now x) (readDeadline s) (if ReadTimeout x \<noteq> 0 then Some (now x + ReadTimeout x) else None)"
  let ?wd = "deadline_set (now x) (writeDeadline s) (if WriteTimeout x \<noteq> 0 then Some (now x + WriteTimeout x) else None)"
  have c: "\<not> cancel ?rd" "\<not> cancel ?wd" using assms(4,5) by (auto simp: deadline_set_def Let_def makeConnDeadline_def)
  have "start_conn x s = Ret (True, s\<lparr>runstate := runStateActive, readDeadline := ?rd, writeDeadline := ?wd\<rparr>)"
    using assms(1-3) by (simp add: start_conn_def starting_def SetReadDeadline_def SetWriteDeadline_def Let_def)
  with c show ?thesis by (intro exI [of _ ?rd] exI [of _ ?wd]) simp
qed

text \<open>The next frame of a stream, taken off it into a frame of the pool and handed to its Conn.\<close>

lemma deliver_next:
  assumes "frame_ok bs" and "h_id (hdr_view bs) \<noteq> 0x1fff" and "h_id (hdr_view bs) < length (connLookup x)"
    and "connLookup x ! h_id (hdr_view bs) = Some c" and "c < length (heap x)" and "pool_ok (mpool x)"
  obtains fd p where "fbytes fd = frame_wire bs" and "frame_room fd" and "pool_ok p"
    and "\<And>first s s' bss n. start_conn x (conn_view (heap x ! c) (x\<lparr>mpool := p\<rparr>)) = Ret (first, s) \<Longrightarrow> SubmitFrame E (Some fd) s = Ret s' \<Longrightarrow>
      deliver E (bs # bss) n x = deliver E bss (n + length bs)
        (put_conn c s' (if first \<and> hasHandler x then x\<lparr>mpool := p, spawned := spawned x @ [c]\<rparr> else x\<lparr>mpool := p\<rparr>))"
proof -
  from assms(6) obtain fd p where fd: "FrameDataAlloc (mpool x) = Ret (fd, p)" "fbytes fd = []" "frame_room fd" "pool_ok p" by (rule Alloc_empty)
  let ?fd = "\<lparr>fbytes = frame_wire bs, fspare = drop (length bs) (fspare fd)\<rparr>"
  have len: "4 \<le> length bs" "length bs \<le> FrameMaxSize" using assms(1) by (simp_all add: frame_ok_def)
  have room: "frame_room ?fd" using fd(2,3) len by (simp add: frame_room_def fcap_def length_frame_wire)
  have l4: "4 \<le> length (fbytes ?fd)" using len by (simp add: length_frame_wire)
  have id: "h_id (fhdr ?fd) = h_id (hdr_view bs)" using frame_wire_id [OF assms(1)] by simp
  have st: "start_conn (x\<lparr>mpool := p\<rparr>) s = start_conn x s" for s by (cases "starting s") (simp add: start_conn_def Let_def)
  show thesis
  proof (rule that [of ?fd p])
    fix first s s' bss n
    assume "start_conn x (conn_view (heap x ! c) (x\<lparr>mpool := p\<rparr>)) = Ret (first, s)" "SubmitFrame E (Some ?fd) s = Ret s'"
    with dispatch_submits [of ?fd "x\<lparr>mpool := p\<rparr>" c first s E s'] l4 id assms(2-5)
    have "dispatch E ?fd (x\<lparr>mpool := p\<rparr>) = Ret (None, put_conn c s' (if first \<and> hasHandler x then x\<lparr>mpool := p, spawned := spawned x @ [c]\<rparr> else x\<lparr>mpool := p\<rparr>))"
      by (simp add: st split: if_splits)
    with fd(1) show "deliver E (bs # bss) n x = deliver E bss (n + length bs)
        (put_conn c s' (if first \<and> hasHandler x then x\<lparr>mpool := p, spawned := spawned x @ [c]\<rparr> else x\<lparr>mpool := p\<rparr>))" by simp
  qed (use room fd(4) in simp_all)
qed

lemma ReadFrom_of_deliver:
  assumes "list_all frame_ok bss" and "mux_room x" and "collector x = None" and "\<not> mu x" and "\<not> doneChan (chans x)"
    and "deliver E bss 0 (x\<lparr>readers := Suc (readers x)\<rparr>) = Ret ((n, None, []), y)" and "pool_ok (mpool y)"
  shows "\<exists>p. Muxer_ReadFrom E (stream_of bss e) x = Ret ((n, Some e, stream_of [] e), y\<lparr>mpool := p, readers := readers y - 1\<rparr>) \<and> pool_ok p"
proof -
  have x: "mux_room (x\<lparr>readers := Suc (readers x)\<rparr>)" using assms(2) by (simp add: mux_room_def)
  from assms(7) obtain fd p where fd: "FrameDataAlloc (mpool y) = Ret (fd, p)" "fbytes fd = []" "frame_room fd" "pool_ok p" by (rule Alloc_empty)
  have "Muxer_ReadFrom E (stream_of bss e) x = Ret ((n, Some e, stream_of [] e), y\<lparr>mpool := FrameDataFree (Some fd) p, readers := readers y - 1\<rparr>)"
    using assms(1,3-6) x fd(1) by (simp add: Muxer_ReadFrom_def ReadFrom_loop_deliver run_loop_def read_rest_def free_mux_def)
  moreover have "pool_ok (FrameDataFree (Some fd) p)" using fd(3,4) by simp
  ultimately show ?thesis by blast
qed
section \<open>Independent pipes over one stream\<close>

lemma alloc_conn_table: "alloc_conn E i x = Ret (c, x') \<Longrightarrow> c = length (heap x) \<and> length (heap x') = Suc (length (heap x))
    \<and> (\<forall>d < length (heap x). heap x' ! d = heap x ! d) \<and> connID (heap x' ! c) = i \<and> connLookup x' = connLookup x"
  by (auto simp: alloc_conn_def NewConn_def nth_append elim!: bnd_RetE split: if_splits)

lemma table_ok_enter:
  assumes "table_ok x" and "connLookup z = (connLookup x)[i := Some c]" and "length (heap x) \<le> length (heap z)"
    and "\<And>d. d < length (heap x) \<Longrightarrow> heap z ! d = heap x ! d" and "c < length (heap z)" and "unat (connID (heap z ! c)) = i"
  shows "table_ok z"
  unfolding table_ok_def
proof (intro allI impI)
  fix j d
  assume j: "j < length (connLookup z)" "connLookup z ! j = Some d"
  show "d < length (heap z) \<and> unat (connID (heap z ! d)) = j"
  proof (cases "j = i")
    case True
    with j assms(2,5,6) show ?thesis by simp
  next
    case False
    with j assms(2) have "j < length (connLookup x)" "connLookup x ! j = Some d" by simp_all
    from table_okD [OF assms(1) this] assms(3,4) show ?thesis by simp
  qed
qed

lemma fill_lookup_table:
  assumes "fill_lookup E is x = Ret x'" and "table_ok x" and "list_all (\<lambda>i. i < 2 ^ 16 \<and> i < length (connLookup x)) is"
  shows "table_ok x'"
  using assms
proof (induction "is" arbitrary: x)
  case (Cons i "is")
  from Cons.prems(1) obtain c y where a: "alloc_conn E (of_nat i) x = Ret (c, y)"
    "fill_lookup E is (y\<lparr>connLookup := (connLookup y)[i := Some c]\<rparr>) = Ret x'"
    by (auto elim!: bnd_RetE)
  note t = alloc_conn_table [OF a(1)]
  have i: "unat (of_nat i :: ConnID) = i" using Cons.prems(3) by (simp add: unat_of_nat take_bit_nat_eq_self)
  have "table_ok (y\<lparr>connLookup := (connLookup y)[i := Some c]\<rparr>)"
    using t i by (intro table_ok_enter [OF Cons.prems(2), where i = i and c = c]) auto
  then show ?case using Cons.IH [OF a(2)] Cons.prems(3) t by (simp add: list_all_iff)
qed simp

lemma NewMuxer_table:
  assumes "NewMuxer E serial p t orc = Ret x"
  shows "table_ok x"
proof (rule fill_lookup_table [OF assms [unfolded NewMuxer_def]])
qed (use unat_u16_bound [of "MaxConnID E"] in \<open>auto simp: table_ok_def list_all_iff simp del: upt_Suc replicate.simps\<close>)

lemma NewConn_table:
  assumes "Muxer_NewConn E x = Ret (co, x')" and "table_ok x" and "0 \<le> connLastID x"
  shows "table_ok x'"
proof (cases "conns (chans x)")
  case (Cons c cs)
  with assms show ?thesis by (auto simp: Muxer_NewConn_def table_ok_def)
next
  case Nil
  show ?thesis
  proof (cases "connLastID x \<ge> int (unat (MaxConnID E))")
    case True
    with Nil assms show ?thesis by (simp add: Muxer_NewConn_def)
  next
    case False
    let ?n = "connLastID x + 1" and ?x = "x\<lparr>connLastID := connLastID x + 1\<rparr>"
    from assms(1) Nil False obtain c y u z tbl where a: "alloc_conn E (word_of_int ?n) ?x = Ret (c, y)"
      "on_conn c (OnRecycle (Some (ConnRelease c))) y = Ret (u, z)" "put (connLookup z) (nat ?n) (Some c) = Ret tbl"
      "x' = z\<lparr>connLookup := tbl\<rparr>" by (auto simp: Muxer_NewConn_def Let_def elim!: bnd_RetE)
    note t = alloc_conn_table [OF a(1)]
    from a(2) obtain s where s: "c < length (heap y)" "OnRecycle (Some (ConnRelease c)) (conn_view (heap y ! c) y) = Ret (u, s)"
      "heap z = (heap y)[c := conn.truncate s]" "connLookup z = connLookup y" by (rule on_conn_changes)
    have i: "connID s = connID (heap y ! c)" using s(2) by (auto simp: OnRecycle_def lock_wmu_def lock_rmu_def lock_cmu_def elim!: bnd_RetE split: if_splits)
    have n: "unat (word_of_int ?n :: ConnID) = nat ?n" using False assms(3) by (intro small_id [of _ E]) auto
    have tbl: "tbl = (connLookup x)[nat ?n := Some c]" using a(3) t s(4) by (auto simp: put_def split: if_splits)
    have hz: "length (heap z) = Suc (length (heap x))" "connID (heap z ! c) = word_of_int ?n" "d < length (heap x) \<Longrightarrow> heap z ! d = heap x ! d" for d
      using t s(1,3) i by auto
    show ?thesis
      using t hz n by (intro table_ok_enter [OF assms(2), where i = "nat ?n" and c = c]) (simp_all add: a(4) tbl)
  qed
qed

lemma mux_reach_table: "mux_reach E x out \<Longrightarrow> MaxConnID E \<le> ProtocolMaxConnID \<Longrightarrow> table_ok x"
proof (induction rule: mux_reach.induct)
  case (start serial p t orc x)
  then show ?case by (intro NewMuxer_table)
next
  case (new x out c x')
  have "0 \<le> connLastID x" using mux_reach_hold [OF new.hyps(1) new.prems] unfolding hold_inv_def by blast
  with new.hyps(2) new.IH [OF new.prems] show ?case by (rule NewConn_table)
next
  case (release x out c x')
  from release.hyps(3) obtain s where s: "c < length (heap x)" "map_go (Pair ()) (recycleLocked E (conn_view (heap x ! c) x)) = Ret ((), s)"
    "heap x' = (heap x)[c := conn.truncate s]" "connLookup x' = connLookup x" by (rule on_conn_changes)
  have c: "onRecycle (heap x ! c) = Some (ConnRelease c)"
    using mux_reach_hold [OF release.hyps(1) release.prems] release.hyps(2) unfolding hold_inv_def list_all_iff entered_def by simp
  have "recycleLocked E (conn_view (heap x ! c) x) = Ret s" using s(2) by (auto simp: map_go_bnd elim!: bnd_RetE)
  from recycleLocked_releases [OF _ this] c have "connID s = connID (heap x ! c)" by simp
  then have "map connID (heap x') = map connID (heap x)" unfolding s(3) using s(1) by (simp add: map_update list_update_same_conv)
  from table_ok_cong [OF s(4) this] release.IH [OF release.prems] show ?case by simp
next
  case (other x out x')
  then have "connLookup x' = connLookup x" "map connID (heap x') = map connID (heap x)" by (simp_all add: elsewhere_def)
  from table_ok_cong [OF this] other.IH [OF other.prems] show ?case by simp
qed

text \<open>Every ID up to the limit has a Conn from the start, and entries are only ever replaced.\<close>

definition table_full :: "Muxer \<Rightarrow> bool" where
  "table_full x \<longleftrightarrow> None \<notin> set (connLookup x)"

lemma fill_lookup_full:
  assumes "fill_lookup E is x = Ret x'" and "list_all (\<lambda>i. i < length (connLookup x)) is"
  shows "length (connLookup x') = length (connLookup x)
    \<and> (\<forall>j < length (connLookup x). connLookup x ! j \<noteq> None \<or> j \<in> set is \<longrightarrow> connLookup x' ! j \<noteq> None)"
  using assms
proof (induction "is" arbitrary: x)
  case (Cons i "is")
  from Cons.prems(1) obtain c y where a: "alloc_conn E (of_nat i) x = Ret (c, y)"
    "fill_lookup E is (y\<lparr>connLookup := (connLookup y)[i := Some c]\<rparr>) = Ret x'"
    by (auto elim!: bnd_RetE)
  note t = alloc_conn_table [OF a(1)]
  from Cons.IH [OF a(2)] Cons.prems(2) t show ?case
    by (auto simp: list_all_iff nth_list_update split: if_splits)
qed simp

lemma NewConn_lookup:
  assumes "Muxer_NewConn E x = Ret (co, x')"
  shows "connLookup x' = connLookup x \<or> (\<exists>i c. connLookup x' = (connLookup x)[i := Some c])"
proof (cases "conns (chans x) = [] \<and> connLastID x < int (unat (MaxConnID E))")
  case True
  let ?n = "connLastID x + 1" and ?x = "x\<lparr>connLastID := connLastID x + 1\<rparr>"
  from assms True obtain c y u z tbl where a: "alloc_conn E (word_of_int ?n) ?x = Ret (c, y)"
    "on_conn c (OnRecycle (Some (ConnRelease c))) y = Ret (u, z)" "put (connLookup z) (nat ?n) (Some c) = Ret tbl"
    "x' = z\<lparr>connLookup := tbl\<rparr>" by (auto simp: Muxer_NewConn_def Let_def elim!: bnd_RetE)
  from a(2) have "connLookup z = connLookup y" by (rule on_conn_changes)
  with a alloc_conn_table [OF a(1)] show ?thesis by (auto simp: put_def split: if_splits)
qed (use assms in \<open>auto simp: Muxer_NewConn_def split: list.splits\<close>)

lemma mux_reach_full: "mux_reach E x out \<Longrightarrow> MaxConnID E \<le> ProtocolMaxConnID \<Longrightarrow> table_full x"
proof (induction rule: mux_reach.induct)
  case (start serial p t orc x)
  from fill_lookup_full [OF start.hyps [unfolded NewMuxer_def]]
  have "\<forall>j < length (connLookup x). connLookup x ! j \<noteq> None"
    by (auto simp: list_all_iff simp del: upt_Suc replicate.simps)
  then show ?case by (auto simp: table_full_def in_set_conv_nth)
next
  case (new x out c x')
  from NewConn_lookup [OF new.hyps(2)] new.IH [OF new.prems] show ?case
    by (auto simp: table_full_def dest!: set_update_subset_insert [THEN subsetD])
next
  case (release x out c x')
  from release.hyps(3) obtain s where "connLookup x' = connLookup x" by (rule on_conn_changes)
  with release.IH [OF release.prems] show ?case by (simp add: table_full_def)
next
  case (other x out x')
  then show ?case by (simp add: elsewhere_def table_full_def)
qed

text \<open>
  C22. The lookup table of a Muxer is well typed in every state the Muxer can get into by handing out Conns, taking back
  recycled ones, and anything that leaves its table, counter and channel alone (\<^verbatim>\<open>Close\<close> and \<^verbatim>\<open>Shutdown\<close>, which clear entries, do not):
  an ID up to \<^verbatim>\<open>MaxConnID\<close> always has a Conn, never nil, and that Conn is one the Muxer has made and carries this very ID; a
  larger ID, the one for control frames included, has none; and the Conns handed out are among those the table has.
\<close>

theorem ids_name_conns:
  assumes "sanitycheck E" and "mux_reach E x out"
  shows "length (connLookup x) = Suc (unat (MaxConnID E))
    \<and> (\<forall>i. if i \<le> MaxConnID E then \<exists>c < length (heap x). getConn E i x = Ret (Some c) \<and> connID (heap x ! c) = i
           else getConn E i x = Ret None)
    \<and> getConn E MuxerConnID x = Ret None
    \<and> Some ` set out \<subseteq> set (connLookup x)"
proof -
  have E: "MaxConnID E \<le> ProtocolMaxConnID" by (rule sanity_ProtocolMax [OF assms(1)])
  have inv: "hold_inv E x out" by (rule mux_reach_hold [OF assms(2) E])
  then have len: "length (connLookup x) = Suc (unat (MaxConnID E))" by (simp add: hold_inv_def)
  note tab = mux_reach_table [OF assms(2) E] and full = mux_reach_full [OF assms(2) E]
  have some: "\<exists>c < length (heap x). getConn E i x = Ret (Some c) \<and> connID (heap x ! c) = i" if i: "i \<le> MaxConnID E" for i
  proof -
    have lt: "unat i < length (connLookup x)" using i len by (simp add: word_le_nat_alt)
    then obtain c where c: "connLookup x ! unat i = Some c" using full nth_mem [OF lt] by (cases "connLookup x ! unat i") (auto simp: table_full_def)
    from table_okD [OF tab lt c] c lt i show ?thesis by (auto simp: getConn_def idx_def not_less word_unat_eq_iff intro!: exI [of _ c])
  qed
  have "Some c \<in> set (connLookup x)" if "c \<in> set out" for c
  proof -
    have "unat (connID (heap x ! c)) \<le> unat (MaxConnID E)" using hold_id [OF inv] that by simp
    moreover have "connLookup x ! unat (connID (heap x ! c)) = Some c" using inv that unfolding hold_inv_def list_all_iff entered_def by simp
    ultimately show ?thesis using nth_mem [of "unat (connID (heap x ! c))" "connLookup x"] len by simp
  qed
  moreover have "MuxerConnID > MaxConnID E" using assms(1) E by (auto simp: sanitycheck_def)
  ultimately show ?thesis using len some by (auto simp: getConn_def)
qed

theorem ids_name_conns_witness:
  "\<exists>x. mux_reach rap_default x [] \<and> (\<exists>c < length (heap x). getConn rap_default 7 x = Ret (Some c) \<and> connID (heap x ! c) = 7)"
proof -
  have E: "sanitycheck rap_default" by simp
  obtain x where x: "NewMuxer rap_default 0 (pool_init rap_default) 0 (\<lambda>_. 0) = Ret x"
    using NewMuxer_Ret [OF sanity_ProtocolMax [OF E]] by blast
  have "(7 :: ConnID) \<le> MaxConnID rap_default" by (simp add: rap_default_def ProtocolMaxConnID_def MuxerConnID_eq)
  with ids_name_conns [OF E mux_reach.start [OF x]] mux_reach.start [OF x] show ?thesis by metis
qed

lemma dispatch_error:
  assumes "dispatch E fd x = Ret (Some err, x')"
  shows "err = ServerClosedError \<or> err = ProtocolError \<or> (\<exists>msg. err = PanicError msg)"
proof -
  have w: "mux_write fd x = Ret (Some err, x') \<Longrightarrow> err = ServerClosedError" for fd
    using Muxer_ConnWrite_cases [of "mchoices x (mtick x)" fd "chans x"] by (auto simp: mux_write_def)
  from assms show ?thesis
    by (auto simp: dispatch_def muxerControlHandlers_def muxerControlPanicHandler_def muxerControlPingHandler_def
      muxerControlPongHandler_def muxerControlReservedHandler_def Let_def dest!: w elim!: bnd_RetE split: if_splits)
qed

lemma deliver_error: "deliver E bss n x = Ret ((m, Some err, rest), x') \<Longrightarrow> err \<noteq> ErrEOF"
proof (induction bss arbitrary: n x)
  case (Cons bs bss)
  from Cons.prems obtain fd p e y where al: "FrameDataAlloc (mpool x) = Ret (fd, p)" and ds:
    "dispatch E \<lparr>fbytes = frame_wire bs, fspare = drop (length bs) (fspare fd)\<rparr> (x\<lparr>mpool := p\<rparr>) = Ret (e, y)"
    and re: "(if e = None then deliver E bss (n + length bs) y else Ret ((n + length bs, e, bss), y)) = Ret ((m, Some err, rest), x')"
    by (auto elim!: bnd_RetE)
  show ?case
  proof (cases e)
    case None
    with re Cons.IH show ?thesis by simp
  next
    case (Some e')
    with re dispatch_error [OF ds [unfolded Some]] show ?thesis by auto
  qed
qed simp

lemma ReadFrom_inbox:
  assumes "list_all frame_ok bss" and "mux_room x" and "collector x = None" and "\<not> mu x" and "\<not> doneChan (chans x)"
    and "table_ok x" and "length (connLookup x) \<le> 0x1fff" and "i < length (connLookup x)" and "connLookup x ! i = Some c"
    and "Muxer_ReadFrom E (stream_of bss ErrEOF) x = Ret ((n, Some ErrEOF, r), x')"
  shows "inbox_of (heap x' ! c) = fold inbox_gets (map frame_wire (filter (\<lambda>bs. h_id (hdr_view bs) = i) bss)) (inbox_of (heap x ! c))"
proof -
  let ?x = "x\<lparr>readers := Suc (readers x)\<rparr>"
  have x: "mux_room ?x" "table_ok ?x" using assms(2,6) by (simp_all add: mux_room_def table_ok_def)
  have "Muxer_ReadFrom E (stream_of bss ErrEOF) x =
      bnd (deliver E bss 0 ?x) (\<lambda>r. bnd (read_rest ErrEOF r) (\<lambda>(res, x). Ret (res, x\<lparr>readers := readers x - 1\<rparr>)))"
    using assms(1,3-5) x(1) by (simp add: Muxer_ReadFrom_def ReadFrom_loop_deliver run_loop_def bnd_assoc)
  with assms(10) obtain m err rest y z where d: "deliver E bss 0 ?x = Ret ((m, err, rest), y)"
    and z: "read_rest ErrEOF ((m, err, rest), y) = Ret ((n, Some ErrEOF, r), z)" "x' = z\<lparr>readers := readers z - 1\<rparr>"
    by (auto elim!: bnd_RetE)
  have "err = None"
  proof (cases err)
    case (Some e)
    with z(1) have "e = ErrEOF" by (simp add: read_rest_def)
    with deliver_error d Some show ?thesis by blast
  qed simp
  with z have "heap x' = heap y" by (auto simp: read_rest_def free_mux_def elim!: bnd_RetE)
  with deliver_inbox [OF d [unfolded \<open>err = None\<close>] assms(1) x(2)] assms(7-9) show ?thesis by simp
qed

text \<open>
  C5. Two Muxers over one stream are as many independent pipes as they have Conns. The one writes the
  frames its Conns hand over, in any interleaving, to an output without faults; the other reads the bytes
  to their end. Then each of its Conns has received exactly the frames that carry its ID, each once and
  in the order they were handed over, as if the others had not been there: data frames wait in its
  queue, acknowledgements and the final frame are counted, and a final frame to a Conn whose own side
  has finished leaves it new. No other Conn is touched by a frame.
\<close>

theorem muxers_are_parallel_pipes:
  assumes "mux_writer wr out fl" and "faultless wr fl" and "out w = []"
    and "list_all frame_event evs" and "list_all (\<lambda>fd. frame_ok (fbytes fd)) (taken evs)"
    and "Muxer_WriteTo wr fl (evs @ [LateDone]) w a = Ret ((n, err, w'), a')"
    and "mux_room b" and "collector b = None" and "\<not> mu b" and "\<not> doneChan (chans b)"
    and "table_ok b" and "length (connLookup b) \<le> 0x1fff"
    and "Muxer_ReadFrom E \<lparr>rd_data = out w', rd_err = ErrEOF\<rparr> b = Ret ((m, Some ErrEOF, r), b')"
    and "i < length (connLookup b)" and "connLookup b ! i = Some c"
  shows "inbox_of (heap b' ! c) =
    fold inbox_gets (map frame_wire (filter (\<lambda>bs. h_id (hdr_view bs) = i) (map fbytes (taken evs)))) (inbox_of (heap b ! c))"
proof -
  from mux_writer.WriteTo_loop_writes [OF assms(1,4), of 0 0 w a] assms(2,3,6)
  have "out w' = wire_of (taken evs)" by (auto simp: Muxer_WriteTo_def)
  then have s: "\<lparr>rd_data = out w', rd_err = ErrEOF\<rparr> = stream_of (map fbytes (taken evs)) ErrEOF"
    by (simp add: stream_of_def wire_of_def comp_def)
  have "list_all frame_ok (map fbytes (taken evs))" using assms(5) by (simp add: list_all_iff)
  then show ?thesis using assms(7-12,14,15) assms(13) [unfolded s] by (rule ReadFrom_inbox)
qed

text \<open>A Muxer with two Conns.\<close>

definition blank_conn :: "ConnID \<Rightarrow> mux_chans conn" where
  "blank_conn i = \<lparr>connID = i, onRecycle = None, ackCh = 0, readCh = [], readChClosed = False, cmu = False,
     localClosed = False, localSentFinal = False, remoteSentFinal = False, sendWindow = 8, runstate = runStateUnused,
     hijacked = False, wmu = False, fdw = None, rmu = False, fdr = None, cfp = [],
     readDeadline = makeConnDeadline, writeDeadline = makeConnDeadline, serialNumber = 1\<rparr>"

definition pair_mux :: Muxer where
  "pair_mux = (running_mux 7)\<lparr>heap := [blank_conn 0, blank_conn 1], connLookup := [Some 0, Some 1], hasHandler := True\<rparr>"

theorem muxers_are_parallel_pipes_witness:
  "\<exists>w' a' b'. Muxer_WriteTo (FrameData_Write rap_default) (Some (\<lambda>w. (None, w)))
       [WaitingFrame \<lparr>fbytes = [0, 1, 0x40, 1, 42], fspare = []\<rparr>, WaitingFrame \<lparr>fbytes = [0, 0, 0x80, 0], fspare = []\<rparr>, LateDone]
       NewFrameData (running_mux 7) = Ret ((9, Some ServerClosedError, w'), a')
     \<and> Muxer_ReadFrom rap_default \<lparr>rd_data = fbytes w', rd_err = ErrEOF\<rparr> pair_mux = Ret ((9, Some ErrEOF, stream_of [] ErrEOF), b')
     \<and> ib_frames (inbox_of (heap b' ! 1)) = [[0, 1, 0x40, 1, 42]] \<and> ib_acks (inbox_of (heap b' ! 0)) = 1"
proof -
  let ?bss = "[[0, 1, 0x40, 1, 42], [0, 0, 0x80, 0]]"
  let ?evs = "map (\<lambda>bs. WaitingFrame \<lparr>fbytes = bs, fspare = []\<rparr>) ?bss" and ?wr = "FrameData_Write rap_default" and ?fl = "Some (\<lambda>w. (None, w))"
  have mw: "mux_writer ?wr fbytes ?fl" by (rule frame_out.mux_writer_axioms)
  have ff: "faultless ?wr ?fl" by (auto simp: faultless_def FrameData_Write_def)
  have ev: "list_all frame_event ?evs" "list_all (\<lambda>fd. frame_ok (fbytes fd)) (taken ?evs)" "map fbytes (taken ?evs) = ?bss"
    by (simp_all add: frame_event_def sized_def frame_sizes taken_def frame_ok_def has_payload_def bit_simps)
  have fw: "frame_wire [0, 1, 0x40, 1, 42] = [0, 1, 0x40, 1, 42]" "frame_wire [0, 0, 0x80, 0] = [0, 0, 0x80, 0]"
    by (simp_all add: frame_wire_def Let_def has_payload_def bit_simps hdr_bytes_def ctl_byte_def)
  have wo: "wire_of (taken ?evs) = [0, 1, 0x40, 1, 42, 0, 0, 0x80, 0]" by (simp add: wire_of_def taken_def fw)
  from mux_writer.WriteTo_loop_writes [OF mw ev(1), of 0 0 NewFrameData "running_mux 7"] ff wo obtain w' a' where
    w: "Muxer_WriteTo ?wr ?fl (?evs @ [LateDone]) NewFrameData (running_mux 7) = Ret ((9, Some ServerClosedError, w'), a')"
    "fbytes w' = [0, 1, 0x40, 1, 42, 0, 0, 0x80, 0]" by (auto simp: Muxer_WriteTo_def NewFrameData_def)
  have st: "\<lparr>rd_data = fbytes w', rd_err = ErrEOF\<rparr> = stream_of ?bss ErrEOF" by (simp add: w(2) stream_of_def fw)
  have x: "mux_room pair_mux" "collector pair_mux = None" "\<not> mu pair_mux" "\<not> doneChan (chans pair_mux)"
    "length (connLookup pair_mux) = 2" "connLookup pair_mux ! 0 = Some 0" "connLookup pair_mux ! 1 = Some 1"
    by (simp_all add: pair_mux_def running_mux_def mux_room_def blank_conn_def)
  have tb: "table_ok pair_mux" by (auto simp: pair_mux_def blank_conn_def table_ok_def less_Suc_eq)
  have ok: "list_all frame_ok ?bss" using ev(2) by (simp add: taken_def)
  have "\<exists>b'. deliver rap_default ?bss 0 (pair_mux\<lparr>readers := Suc (readers pair_mux)\<rparr>) = Ret ((9, None, []), b') \<and> pool_ok (mpool b')"
    by (simp add: fw pair_mux_def running_mux_def FrameDataAlloc_def pool_init_def dispatch_def IsMuxerControl_def ConnIDOf_def getSmallValue_def
      FrameFlagMask_eq MuxerConnID_eq dispatch_conn_def on_conn_def start_conn_def starting_def conn_view_def conn.defs sys.defs put_conn_def
      SetReadDeadline_def SetWriteDeadline_def blank_conn_def SubmitFrame_def HasFlow_def IsAck_def flag_defs hdr_of_def MaxSendWindowSize_def
      free_frame_def FrameDataFree_def Let_def pool_ok_def frame_room_def fcap_def NewFrameData_def frame_sizes)
  then have "\<exists>b'. Muxer_ReadFrom rap_default (stream_of ?bss ErrEOF) pair_mux = Ret ((9, Some ErrEOF, stream_of [] ErrEOF), b')"
    using ReadFrom_of_deliver [OF ok x(1-4)] by blast
  then obtain b' where b: "Muxer_ReadFrom rap_default \<lparr>rd_data = fbytes w', rd_err = ErrEOF\<rparr> pair_mux = Ret ((9, Some ErrEOF, stream_of [] ErrEOF), b')"
    unfolding st by blast
  have nil: "fbytes NewFrameData = []" by (simp add: NewFrameData_def)
  note p = muxers_are_parallel_pipes [OF mw ff nil ev(1,2) w(1) x(1-4) tb _ b, unfolded ev(3)]
  have "inbox_of (heap b' ! 1) = inbox_gets [0, 1, 0x40, 1, 42] (inbox_of (blank_conn 1))" "inbox_of (heap b' ! 0) = inbox_gets [0, 0, 0x80, 0] (inbox_of (blank_conn 0))"
    using p [of 1 1] p [of 0 0] x(5-7) by (simp_all add: fw) (simp_all add: pair_mux_def)
  then have "ib_frames (inbox_of (heap b' ! 1)) = [[0, 1, 0x40, 1, 42]]" "ib_acks (inbox_of (heap b' ! 0)) = 1"
    by (simp_all add: inbox_gets_def inbox_of_def blank_conn_def bit_simps)
  with w(1) b show ?thesis by auto
qed

end
