(* ===== verification/Rap_Arrivals.thy ===== *)
theory Rap_Arrivals
  imports Muxer_Demux
begin

text \<open>
  One Conn inside its Muxer: how a call on the Conn and a frame read off the stream change it, and what of the Muxer
  they leave alone. These are the steps an exchange between two Muxers is made of.
\<close>

section \<open>Frames as Conns put them on the wire\<close>

lemma wire_frame_wire:
  assumes "wire_frame i fd"
  shows "frame_wire (fbytes fd) = fbytes fd"
proof -
  have len: "4 \<le> length (fbytes fd)" using assms by (simp add: wire_frame_def frame_ok_def)
  note v = frame_view [OF len]
  have "fhdr fd\<lparr>h_size := length (fbytes fd) - 4\<rparr> = fhdr fd" using assms by (simp add: wire_frame_def)
  then have "(if has_payload (fhdr fd) then fhdr fd\<lparr>h_size := length (drop 4 (fbytes fd))\<rparr> else fhdr fd) = fhdr fd" by simp
  then have "frame_wire (hdr_bytes (fhdr fd) @ drop 4 (fbytes fd)) = hdr_bytes (fhdr fd) @ drop 4 (fbytes fd)"
    using frame_wire_bytes [OF v(2), of "drop 4 (fbytes fd)"] by (simp only:)
  then show ?thesis using v(1) by (simp only: v(1) [symmetric])
qed

lemma frame_kinds_copy:
  assumes "fbytes fd' = fbytes fd"
  shows "is_data fd' = is_data fd" "is_ack fd' = is_ack fd" "is_final fd' = is_final fd" "record_frame rt p fd' = record_frame rt p fd"
  using assms by (simp_all add: is_data_def is_ack_def is_final_def record_frame_def)

lemma wire_frame_copy: "wire_frame i fd \<Longrightarrow> fbytes fd' = fbytes fd \<Longrightarrow> frame_room fd' \<Longrightarrow> wire_frame i fd'"
  using frame_kinds_copy [of fd' fd] by (simp add: wire_frame_def)

lemma wire_kind_bytes:
  "fbytes fd' = fbytes fd \<Longrightarrow> is_ack fd \<Longrightarrow> is_ack fd'" "fbytes fd' = fbytes fd \<Longrightarrow> is_data fd \<Longrightarrow> is_data fd'"
  "fbytes fd' = fbytes fd \<Longrightarrow> is_final fd \<Longrightarrow> is_final fd'"
  using frame_kinds_copy by blast+

section \<open>A Conn in its Muxer\<close>

lemma conn_view_again:
  "conn_view k y = (conn_view k x)\<lparr>mux := chans y, pool := mpool y, clock := now y, choices := mchoices y, tick := mtick y\<rparr>"
  using conn_view_truncate [of "conn_view k x" y] by simp

lemma conn_inv_env:
  "conn_inv E s \<Longrightarrow> pool_ok p \<Longrightarrow> conn_inv E (s\<lparr>mux := m, pool := p, clock := t, choices := q, tick := n\<rparr>)"
  "conn_inv E s \<Longrightarrow> pool_ok p \<Longrightarrow> conn_inv E (s\<lparr>pool := p\<rparr>)"
  by (simp_all add: conn_inv_def conn_core_def)

lemma mux_room_put:
  assumes "mux_room x" and "conn_inv E s"
  shows "mux_room (put_conn c s x)"
proof -
  have "list_all frame_room (readCh s)" using assms(2) by (auto simp: conn_inv_def conn_core_def list_all_iff in_frame_def)
  then have "\<forall>k \<in> set ((heap x)[c := conn.truncate s]). list_all frame_room (readCh k)"
    using assms(1) set_update_subset_insert [of "heap x" c "conn.truncate s"] by (auto simp: mux_room_def list_all_iff)
  moreover have "pool_ok (pool s)" using assms(2) by (simp add: conn_inv_def conn_core_def)
  ultimately show ?thesis by (simp add: mux_room_def list_all_iff)
qed

text \<open>The Conn \<open>c\<close> of a Muxer, found under its ID, with the state \<open>s\<close>; and a Muxer of which only Conns, channels and pool have changed.\<close>

definition conn_at :: "rap_config \<Rightarrow> Muxer \<Rightarrow> connref \<Rightarrow> mux_chans sys \<Rightarrow> bool" where
  "conn_at E x c s \<longleftrightarrow> c < length (heap x) \<and> conn_view (heap x ! c) x = s \<and> conn_inv E s
     \<and> unat (connID s) < length (connLookup x) \<and> connLookup x ! unat (connID s) = Some c"

definition same_mux :: "Muxer \<Rightarrow> Muxer \<Rightarrow> bool" where
  "same_mux x y \<longleftrightarrow> connLookup y = connLookup x \<and> collector y = collector x \<and> mu y = mu x \<and> hasHandler y = hasHandler x
     \<and> ReadTimeout y = ReadTimeout x \<and> WriteTimeout y = WriteTimeout x \<and> (mux_room x \<longrightarrow> mux_room y)"

lemma same_mux_refl [simp]: "same_mux x x"
  by (simp add: same_mux_def)

lemma same_mux_trans: "same_mux x y \<Longrightarrow> same_mux y z \<Longrightarrow> same_mux x z"
  by (simp add: same_mux_def)

lemma same_place_refl [simp]: "same_place s s"
  by (simp add: same_place_def)

lemma same_place_trans: "same_place s t \<Longrightarrow> same_place t u \<Longrightarrow> same_place s u"
  by (simp add: same_place_def)

lemma changes_place: "write_changes s s' \<Longrightarrow> same_place s s'" "read_changes s s' \<Longrightarrow> same_place s s'"
  by (simp_all add: write_changes_def read_changes_def same_place_def)

lemma conn_atD:
  assumes "conn_at E x c s"
  shows "c < length (heap x)" "s = conn_view (heap x ! c) x" "conn_inv E s" "mux s = chans x" "pool s = mpool x" "clock s = now x"
    "choices s = mchoices x" "pool_ok (mpool x)" "connID s \<le> ProtocolMaxConnID"
proof -
  show c: "c < length (heap x)" "s = conn_view (heap x ! c) x" "conn_inv E s" using assms by (auto simp: conn_at_def)
  show e: "mux s = chans x" "pool s = mpool x" "clock s = now x" "choices s = mchoices x" by (simp_all add: c(2))
  show "pool_ok (mpool x)" "connID s \<le> ProtocolMaxConnID" using c(3) e(2) by (auto simp: conn_inv_def conn_core_def intro: order_trans)
qed

lemma conn_at_put:
  assumes "conn_at E x c s" and "conn_inv E s'" and "same_place s s'"
  shows "conn_at E (put_conn c s' x) c s'" and "same_mux x (put_conn c s' x)"
proof -
  note c = conn_atD [OF assms(1)]
  have v: "conn_view (heap (put_conn c s' x) ! c) (put_conn c s' x) = s'" using assms(3) c by (intro view_put) (simp_all add: same_place_def)
  show "conn_at E (put_conn c s' x) c s'" unfolding conn_at_def v using assms by (simp add: conn_at_def same_place_def put_conn_def)
  show "same_mux x (put_conn c s' x)" using mux_room_put [OF _ assms(2)] by (simp add: same_mux_def put_conn_def)
qed

lemma conn_at_pool:
  assumes "conn_at E x c s" and "pool_ok (mpool z)" and "heap z = heap x" and "connLookup z = connLookup x" and "chans z = chans x"
    and "now z = now x" and "mchoices z = mchoices x" and "mtick z = mtick x"
  shows "conn_at E z c (s\<lparr>pool := mpool z\<rparr>)"
proof -
  note c = conn_atD [OF assms(1)]
  have "conn_view (heap z ! c) z = s\<lparr>pool := mpool z\<rparr>" by (subst conn_view_again [where x = x]) (simp add: c(2) assms(3-8))
  then show ?thesis using assms(1,3,4) conn_inv_env(2) [OF c(3) assms(2)] by (simp add: conn_at_def)
qed

text \<open>A call on the Conn.\<close>

lemma on_conn_at:
  assumes "conn_at E x c s" and "f s = Ret (r, s')" and "conn_inv E s'" and "same_place s s'"
  obtains x' where "on_conn c f x = Ret (r, x')" and "conn_at E x' c s'" and "same_mux x x'" and "spawned x' = spawned x"
proof (rule that [of "put_conn c s' x"])
  show "on_conn c f x = Ret (r, put_conn c s' x)" using assms(1,2) by (simp add: conn_at_def on_conn_def)
qed (use conn_at_put [OF assms(1,3,4)] in \<open>simp_all add: put_conn_def\<close>)

section \<open>Frames that arrive\<close>

text \<open>
  The frames of a Conn arrive one by one at the Conn with their ID: what is read off the stream into a frame of
  the pool is the frame that was sent, and the Conn is given it.
\<close>

lemma deliver_active:
  assumes "wire_frame i fd" and "i \<le> ProtocolMaxConnID" and "unat i < length (connLookup x)" and "connLookup x ! unat i = Some c"
    and "c < length (heap x)" and "pool_ok (mpool x)" and "s = conn_view (heap x ! c) x" and "runstate s \<noteq> runStateUnused"
  obtains fd' p where "fbytes fd' = fbytes fd" and "wire_frame i fd'" and "pool_ok p"
    and "\<And>s' bss n. SubmitFrame E (Some fd') (s\<lparr>pool := p\<rparr>) = Ret s' \<Longrightarrow>
      deliver E (fbytes fd # bss) n x = deliver E bss (n + length (fbytes fd)) (put_conn c s' (x\<lparr>mpool := p\<rparr>))"
proof -
  have id: "h_id (fhdr fd) = unat i" "frame_ok (fbytes fd)" using assms(1) by (simp_all add: wire_frame_def)
  have ne: "unat i \<noteq> 0x1fff" using assms(2) by (simp add: ProtocolMaxConnID_def MuxerConnID_eq word_le_nat_alt)
  obtain fd' p where f: "fbytes fd' = fbytes fd" "frame_room fd'" "pool_ok p"
    and nxt: "\<And>first s0 s' bss n. start_conn x (conn_view (heap x ! c) (x\<lparr>mpool := p\<rparr>)) = Ret (first, s0) \<Longrightarrow> SubmitFrame E (Some fd') s0 = Ret s' \<Longrightarrow>
      deliver E (fbytes fd # bss) n x = deliver E bss (n + length (fbytes fd))
        (put_conn c s' (if first \<and> hasHandler x then x\<lparr>mpool := p, spawned := spawned x @ [c]\<rparr> else x\<lparr>mpool := p\<rparr>))"
    using deliver_next [OF id(2), of x c E] ne id(1) assms(3-6) wire_frame_wire [OF assms(1)] by metis
  have v: "conn_view (heap x ! c) (x\<lparr>mpool := p\<rparr>) = s\<lparr>pool := p\<rparr>" by (subst conn_view_again [where x = x]) (simp add: assms(7))
  have st: "start_conn x (s\<lparr>pool := p\<rparr>) = Ret (False, s\<lparr>pool := p\<rparr>)" using assms(8) by (simp add: start_conn_def starting_def)
  show thesis
    by (rule that [OF f(1) wire_frame_copy [OF assms(1) f(1,2)] f(3)]) (use nxt [OF _ , unfolded v, OF st] in simp)
qed

text \<open>What the arrival of a frame makes of a Conn, whatever the pool that the frame came from.\<close>

definition arrived :: "rap_config \<Rightarrow> FrameData \<Rightarrow> mux_chans sys \<Rightarrow> mux_chans sys \<Rightarrow> bool" where
  "arrived E fd s s' \<longleftrightarrow> same_place s s' \<and> mux s' = mux s \<and>
     (if is_data fd then \<exists>fd' p. fbytes fd' = fbytes fd \<and> s' = s\<lparr>pool := p, readCh := readCh s @ [fd']\<rparr>
      else if is_ack fd then \<exists>p. s' = s\<lparr>pool := p, ackCh := Suc (ackCh s)\<rparr>
      else if localSentFinal s then like_new E s'
      else \<exists>p. s' = s\<lparr>pool := p, remoteSentFinal := True, readChClosed := True\<rparr>)"

lemma recycle_alone:
  assumes "localClosed s" "localSentFinal s" "remoteSentFinal s" "fdw s = None" "onRecycle s = None" "\<not> wmu s" "\<not> rmu s"
  shows "\<exists>s'. recycle E s = Ret ((), s') \<and> mux s' = mux s"
  using assms by (simp add: recycle_def lock_wmu_def lock_rmu_def recycleLocked_def canRecycleLocked_def forceRecycleLocked_def Let_def
      fold_free_frame map_go_bnd)

lemma SubmitFrame_arrives:
  assumes "conn_inv E s" and "may_submit E fd s" and "mux_running (mux s)" and "onRecycle s = None \<or> \<not> localSentFinal s \<or> \<not> is_final fd"
  shows "\<exists>s'. SubmitFrame E (Some fd) s = Ret s' \<and> conn_inv E s' \<and> same_place s s' \<and> mux s' = mux s
    \<and> (if is_data fd then s' = s\<lparr>readCh := readCh s @ [fd]\<rparr>
       else if is_ack fd then s' = (free_frame (Some fd) s)\<lparr>ackCh := Suc (ackCh s)\<rparr>
       else if localSentFinal s then like_new E s'
       else s' = (free_frame (Some fd) s)\<lparr>remoteSentFinal := True, readChClosed := True\<rparr>)"
proof -
  note w = assms(2) [unfolded may_submit_def]
  have i: "conn_core E s" "\<not> cmu s" "\<not> wmu s" "\<not> rmu s" "localSentFinal s = localClosed s" "localClosed s \<Longrightarrow> fdw s = None" "readChClosed s = remoteSentFinal s"
    using assms(1) by (simp_all add: conn_inv_def conn_core_def)
  from w consider (data) "is_data fd" | (ack) "is_ack fd" "\<not> is_data fd" | (final) "is_final fd" "\<not> is_data fd" "\<not> is_ack fd"
    using frame_kinds_disjoint [of fd] by (auto simp: wire_frame_def)
  then have "\<exists>s'. SubmitFrame E (Some fd) s = Ret s' \<and> mux s' = mux s"
  proof cases
    case data
    with SubmitFrame_data [of "connID s" fd s E] w i(7) show ?thesis by simp
  next
    case ack
    with SubmitFrame_ack [of "connID s" fd s E] w show ?thesis by (simp add: free_frame_def)
  next
    case final
    let ?s1 = "(free_frame (Some fd) (s\<lparr>cmu := True\<rparr>))\<lparr>remoteSentFinal := True, readChClosed := True\<rparr>"
    have "localSentFinal s \<Longrightarrow> \<exists>s'. recycle E ?s1 = Ret ((), s') \<and> mux s' = mux ?s1"
      using i(3-6) assms(4) final by (intro recycle_alone) (simp_all add: free_frame_def)
    then show ?thesis using SubmitFrame_final [of "connID s" fd s E] w final i(2) by (auto simp: Let_def free_frame_def)
  qed
  then obtain s' where s': "SubmitFrame E (Some fd) s = Ret s'" "mux s' = mux s" by blast
  have "mux_run.recycle_ok s" if "is_final fd" "localSentFinal s" using that assms(4) by (simp add: mux_run.recycle_ok_def)
  from mux_run.SubmitFrame_keeps [OF assms(1-3) this] s' show ?thesis by simp
qed

text \<open>A frame off the stream for a Conn that is in use.\<close>

lemma frame_arrives:
  assumes "conn_at E x c s" and "runstate s \<noteq> runStateUnused" and "mux_running (chans x)" and "may_submit E fd s"
    and "onRecycle s = None \<or> \<not> localSentFinal s \<or> \<not> is_final fd"
  obtains x' s' where "\<And>bss n. deliver E (fbytes fd # bss) n x = deliver E bss (n + length (fbytes fd)) x'"
    and "conn_at E x' c s'" and "same_mux x x'" and "arrived E fd s s'" and "spawned x' = spawned x"
proof -
  note c = conn_atD [OF assms(1)]
  have l: "unat (connID s) < length (connLookup x)" "connLookup x ! unat (connID s) = Some c" using assms(1) by (simp_all add: conn_at_def)
  have w: "wire_frame (connID s) fd" using assms(4) by (simp add: may_submit_def)
  obtain fd' p where f: "fbytes fd' = fbytes fd" "wire_frame (connID s) fd'" "pool_ok p"
    "\<And>s' bss n. SubmitFrame E (Some fd') (s\<lparr>pool := p\<rparr>) = Ret s' \<Longrightarrow>
      deliver E (fbytes fd # bss) n x = deliver E bss (n + length (fbytes fd)) (put_conn c s' (x\<lparr>mpool := p\<rparr>))"
    using deliver_active [OF w c(9) l c(1,8,2) assms(2)] by metis
  note k = frame_kinds_copy [OF f(1)]
  let ?s = "s\<lparr>pool := p\<rparr>"
  have "conn_inv E ?s" "may_submit E fd' ?s" "mux_running (mux ?s)" "onRecycle ?s = None \<or> \<not> localSentFinal ?s \<or> \<not> is_final fd'"
    using conn_inv_env(2) [OF c(3) f(3)] assms(3-5) c(4) f(2) k by (simp_all add: may_submit_def credit_def)
  from SubmitFrame_arrives [OF this] obtain s' where
    s': "SubmitFrame E (Some fd') ?s = Ret s'" "conn_inv E s'" "same_place ?s s'" "mux s' = mux s"
    "if is_data fd then s' = ?s\<lparr>readCh := readCh s @ [fd']\<rparr>
       else if is_ack fd then s' = (free_frame (Some fd') ?s)\<lparr>ackCh := Suc (ackCh s)\<rparr>
       else if localSentFinal s then like_new E s'
       else s' = (free_frame (Some fd') ?s)\<lparr>remoteSentFinal := True, readChClosed := True\<rparr>" by (auto simp: k)
  have pl: "same_place s s'" using s'(3) by (simp add: same_place_def)
  have ar: "arrived E fd s s'" unfolding arrived_def using s'(4,5) pl f(1) by (auto simp: free_frame_def)
  have at: "conn_at E (x\<lparr>mpool := p\<rparr>) c ?s" using conn_at_pool [OF assms(1), of "x\<lparr>mpool := p\<rparr>"] f(3) by simp
  note put = conn_at_put [OF at s'(2,3)]
  have "same_mux x (x\<lparr>mpool := p\<rparr>)" using f(3) by (simp add: same_mux_def mux_room_def)
  then show thesis using that [of "put_conn c s' (x\<lparr>mpool := p\<rparr>)" s'] f(4) [OF s'(1)] put same_mux_trans ar by (simp add: put_conn_def)
qed

text \<open>The first frame for an idle Conn starts it, and a goroutine to serve it when there is a handler.\<close>

lemma first_frame_arrives:
  assumes "conn_at E x c s" and "like_new E s" and "wire_frame (connID s) fd" and "is_data fd"
    and "0 \<le> ReadTimeout x" and "0 \<le> WriteTimeout x" and "hasHandler x"
  obtains x' s' fd' where "\<And>bss n. deliver E (fbytes fd # bss) n x = deliver E bss (n + length (fbytes fd)) x'"
    and "conn_at E x' c s'" and "same_mux x x'" and "spawned x' = spawned x @ [c]" and "same_place s s'" and "mux s' = mux s"
    and "fbytes fd' = fbytes fd" and "readCh s' = [fd']" and "\<not> cancel (readDeadline s')" and "\<not> cancel (writeDeadline s')"
    and "runstate s' = runStateActive" and "cfp s' = []" and "fdw s' = None" and "credit s' = credit s" and "\<not> hijacked s'"
    and "\<not> localClosed s'" and "\<not> remoteSentFinal s'"
proof -
  note c = conn_atD [OF assms(1)]
  have l: "unat (connID s) < length (connLookup x)" "connLookup x ! unat (connID s) = Some c" using assms(1) by (simp_all add: conn_at_def)
  have id: "h_id (fhdr fd) = unat (connID s)" "frame_ok (fbytes fd)" using assms(3) by (simp_all add: wire_frame_def)
  have ne: "unat (connID s) \<noteq> 0x1fff" using c(9) by (simp add: ProtocolMaxConnID_def MuxerConnID_eq word_le_nat_alt)
  obtain fd' p where f: "fbytes fd' = fbytes fd" "frame_room fd'" "pool_ok p"
    and nxt: "\<And>first s0 s' bss n. start_conn x (conn_view (heap x ! c) (x\<lparr>mpool := p\<rparr>)) = Ret (first, s0) \<Longrightarrow> SubmitFrame E (Some fd') s0 = Ret s' \<Longrightarrow>
      deliver E (fbytes fd # bss) n x = deliver E bss (n + length (fbytes fd))
        (put_conn c s' (if first \<and> hasHandler x then x\<lparr>mpool := p, spawned := spawned x @ [c]\<rparr> else x\<lparr>mpool := p\<rparr>))"
    using deliver_next [OF id(2), of x c E] ne id(1) l c(1,8) wire_frame_wire [OF assms(3)] by metis
  let ?z = "x\<lparr>mpool := p, spawned := spawned x @ [c]\<rparr>"
  have v: "conn_view (heap x ! c) (x\<lparr>mpool := p\<rparr>) = s\<lparr>pool := p\<rparr>" by (subst conn_view_again [where x = x]) (simp add: c(2))
  from start_conn_first [of "s\<lparr>pool := p\<rparr>" x] assms(2,5,6) c(6) obtain rd wd where st:
    "start_conn x (s\<lparr>pool := p\<rparr>) = Ret (True, s\<lparr>pool := p, runstate := runStateActive, readDeadline := rd, writeDeadline := wd\<rparr>)"
    "deadline_ok rd" "deadline_ok wd" "\<not> cancel rd" "\<not> cancel wd" by (auto simp: like_new_def)
  let ?s0 = "s\<lparr>pool := p, runstate := runStateActive, readDeadline := rd, writeDeadline := wd\<rparr>"
  let ?s1 = "?s0\<lparr>readCh := [fd']\<rparr>"
  have "wire_frame (connID s) fd'" "is_data fd'" using wire_frame_copy [OF assms(3) f(1,2)] frame_kinds_copy(1) [OF f(1)] assms(4) by simp_all
  then have sub: "SubmitFrame E (Some fd') ?s0 = Ret ?s1"
    using SubmitFrame_data [of "connID s" fd' ?s0 E] assms(2) by (simp add: like_new_def MaxSendWindowSize_def)
  have inv: "conn_inv E ?s1"
    using c(3) assms(2) st(2,3) f(2,3) id(2) by (auto simp: conn_inv_def conn_core_def like_new_def in_frame_def f(1) frame_ok_def)
  have at: "conn_at E ?z c (s\<lparr>pool := p\<rparr>)" using conn_at_pool [OF assms(1), of ?z] f(3) by simp
  note put = conn_at_put [OF at inv]
  have "same_mux x ?z" using f(3) by (simp add: same_mux_def mux_room_def)
  then show thesis using that [of "put_conn c ?s1 ?z" ?s1 fd'] nxt [unfolded v, OF st(1) sub] put same_mux_trans assms(2,7) st(4,5) f(1)
    by (simp add: put_conn_def same_place_def like_new_def credit_def)
qed

lemma may_submitI:
  "wire_frame (connID s) fd \<Longrightarrow> is_data fd \<Longrightarrow> \<not> remoteSentFinal s \<Longrightarrow> length (readCh s) < MaxSendWindowSize \<Longrightarrow> may_submit E fd s"
  "wire_frame (connID s) fd \<Longrightarrow> is_ack fd \<Longrightarrow> credit s < SendWindowSize E \<Longrightarrow> ackCh s < MaxSendWindowSize \<Longrightarrow> may_submit E fd s"
  "wire_frame (connID s) fd \<Longrightarrow> is_final fd \<Longrightarrow> \<not> remoteSentFinal s \<Longrightarrow> may_submit E fd s"
  using frame_kinds_disjoint [of fd] by (auto simp: may_submit_def)

lemma arrivedD:
  assumes "arrived E fd s s'"
  shows "same_place s s'" "mux s' = mux s"
    "is_data fd \<Longrightarrow> \<exists>fd' p. fbytes fd' = fbytes fd \<and> s' = s\<lparr>pool := p, readCh := readCh s @ [fd']\<rparr>"
    "is_ack fd \<Longrightarrow> \<exists>p. s' = s\<lparr>pool := p, ackCh := Suc (ackCh s)\<rparr>"
    "is_final fd \<Longrightarrow> \<not> localSentFinal s \<Longrightarrow> \<exists>p. s' = s\<lparr>pool := p, remoteSentFinal := True, readChClosed := True\<rparr>"
    "is_final fd \<Longrightarrow> localSentFinal s \<Longrightarrow> like_new E s'"
  using assms frame_kinds_disjoint [of fd] by (auto simp: arrived_def split: if_splits)

text \<open>One more acknowledgement fits as long as a frame is unacknowledged.\<close>

lemma credit_acks:
  assumes "conn_inv E s" and "sanitycheck E" and "credit s < SendWindowSize E"
  shows "ackCh s < MaxSendWindowSize"
  using assms by (auto simp: conn_inv_def conn_core_def credit_def sanitycheck_def)

section \<open>The reading goroutine\<close>

definition mux_up :: "Muxer \<Rightarrow> bool" where
  "mux_up x \<longleftrightarrow> mux_room x \<and> collector x = None \<and> \<not> mu x \<and> mux_running (chans x) \<and> 0 \<le> ReadTimeout x \<and> 0 \<le> WriteTimeout x"

lemma mux_up_same: "mux_up x \<Longrightarrow> same_mux x y \<Longrightarrow> mux_running (chans y) \<Longrightarrow> mux_up y"
  by (simp add: mux_up_def same_mux_def)

text \<open>The stream between two Muxers that carries the frames \<open>fds\<close> and then ends.\<close>

definition wire_stream :: "FrameData list \<Rightarrow> reader" where
  "wire_stream fds = \<lparr>rd_data = wire_of fds, rd_err = ErrEOF\<rparr>"

lemma wire_stream_of: "wire_stream fds = stream_of (map fbytes fds) ErrEOF"
  by (simp add: wire_stream_def stream_of_def wire_of_def comp_def)

lemma readers_same: "conn_at E (x\<lparr>readers := n\<rparr>) c s = conn_at E x c s" "same_mux (x\<lparr>readers := n\<rparr>) y = same_mux x y"
  "mux_up (x\<lparr>readers := n\<rparr>) = mux_up x"
  by (simp_all add: conn_at_def same_mux_def mux_up_def mux_room_def conn_view_def)

lemma ReadFrom_at:
  assumes "list_all (\<lambda>fd. frame_ok (fbytes fd)) fds" and "mux_up x"
    and "deliver E (map fbytes fds) 0 (x\<lparr>readers := Suc (readers x)\<rparr>) = Ret ((n, None, []), y)" and "conn_at E y c s"
  obtains z p where "Muxer_ReadFrom E (wire_stream fds) x = Ret ((n, Some ErrEOF, wire_stream []), z)"
    and "conn_at E z c (s\<lparr>pool := p\<rparr>)" and "same_mux y z" and "spawned z = spawned y" and "chans z = chans y"
proof -
  note c = conn_atD [OF assms(4)]
  have x: "list_all frame_ok (map fbytes fds)" "mux_room x" "collector x = None" "\<not> mu x" "\<not> doneChan (chans x)"
    using assms(1,2) by (simp_all add: mux_up_def mux_running_def list_all_iff)
  from ReadFrom_of_deliver [OF x assms(3) c(8), of ErrEOF] obtain p where
    r: "Muxer_ReadFrom E (wire_stream fds) x = Ret ((n, Some ErrEOF, wire_stream []), y\<lparr>mpool := p, readers := readers y - 1\<rparr>)" "pool_ok p"
    by (auto simp: wire_stream_of)
  let ?z = "y\<lparr>mpool := p, readers := readers y - 1\<rparr>"
  have "conn_at E ?z c (s\<lparr>pool := p\<rparr>)" using conn_at_pool [OF assms(4), of ?z] r(2) by simp
  moreover have "same_mux y ?z" using r(2) by (simp add: same_mux_def mux_room_def)
  ultimately show thesis using that [OF r(1)] by simp
qed

end
