(* ===== verification/Rap_System.thy ===== *)
theory Rap_System
  imports Conn_Exchange Rap_Arrivals Client
begin

text \<open>
  The components put together: a request written on a Conn of one Muxer, carried by the two Muxers' loops to the
  Conn with the same ID on the other side, served there by a handler, its response carried back and passed on by
  the Client, and both Conns closed and recycled. Every step is a definition of the component theories, run one
  after the other the way the goroutines of the two programs run them.
\<close>

section \<open>A Muxer that keeps its idle Conns\<close>

text \<open>While the loops run and no Conn is handed out or released: \<open>q\<close> is the channel of idle Conns, which has room.\<close>

definition mux_keeps :: "connref list \<Rightarrow> mux_chans \<Rightarrow> bool" where
  "mux_keeps q m \<longleftrightarrow> mux_running m \<and> conns m = q \<and> length q < conns_cap m"

interpretation mux_keep: accepting_muxer muxer_conns "mux_keeps q" writeCh for q
proof
  fix m fd k
  assume m: "mux_keeps q m"
  have run: "Muxer_ConnWrite k fd m = Ret (None, m\<lparr>writeCh := writeCh m @ [fd]\<rparr>)"
    using m Muxer_ConnWrite_cases [of k fd m] by (auto simp: mux_keeps_def mux_running_def)
  with m show "safe (ConnWrite muxer_conns k fd m) (\<lambda>(err, m'). mux_keeps q m' \<and>
      (if err = None then writeCh m' = writeCh m @ [fd]
       else writeCh m' = writeCh m \<and> err = Some ServerClosedError \<and> ConnAborted muxer_conns m))"
    by (simp add: mux_keeps_def mux_running_def)
  show "\<exists>m'. ConnWrite muxer_conns k fd m = Ret (None, m')" using run by simp
  show "\<not> ConnAborted muxer_conns m" using m by (simp add: mux_keeps_def mux_running_def)
qed

lemma keeps_running: "mux_keeps q m \<Longrightarrow> mux_running m"
  by (simp add: mux_keeps_def)

lemma ConnRelease_keeps: "mux_keeps q m \<Longrightarrow> ConnRelease c m = Ret (m\<lparr>conns := q @ [c]\<rparr>)"
  by (simp add: mux_keeps_def ConnRelease_def)

text \<open>A Conn as \<^verbatim>\<open>NewConn\<close> hands it out, new or recycled.\<close>

definition fresh_conn :: "rap_config \<Rightarrow> Muxer \<Rightarrow> connref \<Rightarrow> bool" where
  "fresh_conn E x c \<longleftrightarrow> conn_at E x c (conn_view (heap x ! c) x) \<and> like_new E (conn_view (heap x ! c) x)"

lemma fresh_at: "conn_at E x c s \<Longrightarrow> like_new E s \<Longrightarrow> fresh_conn E x c"
  by (simp add: fresh_conn_def conn_at_def)

section \<open>The steps of an exchange\<close>

text \<open>The client's Conn while it waits for an answer: the request is out, nothing has come in.\<close>

definition asking :: "rap_config \<Rightarrow> mux_chans sys \<Rightarrow> bool" where
  "asking E s \<longleftrightarrow> runstate s \<noteq> runStateUnused \<and> readCh s = [] \<and> cfp s = [] \<and> fdw s = None \<and> \<not> localClosed s \<and> \<not> remoteSentFinal s
     \<and> readDeadline s = makeConnDeadline \<and> credit s = SendWindowSize E - 1"

lemma request_sent:
  assumes "conn_at E a c s" and "like_new E s" and "sanitycheck E" and "mux_up a" and "mux_keeps q (chans a)"
    and "request_ok r" and "request_route (rq_Path r) = Ret np" and "string_ok np"
    and "length (enc_request r np) < FrameMaxPayloadSize" and "sint (rq_ContentLength r) \<le> 0"
    and "rbody = None \<or> rbody = Some \<lparr>b_reads = [], b_err = ErrEOF, b_limit = None\<rparr>"
  obtains a1 s1 req where "on_conn c (Conn_WriteRequest E muxer_conns r rbody) a = Ret (if rbody = None then Some ErrEOF else None, a1)"
    and "writeCh (chans a1) = writeCh (chans a) @ [req]" and "conn_at E a1 c s1" and "same_mux a a1" and "mux_keeps q (chans a1)"
    and "same_place s s1" and "asking E s1"
    and "record_frame RecordTypeHTTPRequest (enc_request r np) req" and "wire_frame (connID s) req" and "is_data req"
proof -
  note c = conn_atD [OF assms(1)]
  have new: "mux_keep.writable s" "0 < credit s" "fdw s = None" "mux_keeps q (mux s)"
    using assms(2,3,5) c(4) by (simp_all add: like_new_def mux_keep.writable_def credit_def makeConnDeadline_def sanitycheck_def)
  from mux_keep.WriteRequest_sends [OF c(3) new(4,1-3) assms(6-11)] obtain s1 req where
    s1: "Conn_WriteRequest E muxer_conns r rbody s = Ret (if rbody = None then Some ErrEOF else None, s1)"
    "writeCh (mux s1) = writeCh (mux s) @ [req]" "record_frame RecordTypeHTTPRequest (enc_request r np) req" "wire_frame (connID s) req"
    "conn_inv E s1" "mux_keeps q (mux s1)" "write_changes s s1" "credit s1 = credit s - 1" "runstate s1 \<noteq> runStateUnused" "fdw s1 = None" by blast
  from on_conn_at [where f = "Conn_WriteRequest E muxer_conns r rbody", OF assms(1) s1(1,5) changes_place(1) [OF s1(7)]] obtain a1 where
    a1: "on_conn c (Conn_WriteRequest E muxer_conns r rbody) a = Ret (if rbody = None then Some ErrEOF else None, a1)"
    "conn_at E a1 c s1" "same_mux a a1" by blast
  have "asking E s1" using s1(7-10) assms(2) by (simp add: asking_def write_changes_def like_new_def credit_def)
  moreover have "is_data req"
  proof -
    from s1(3) have "4 < length (fbytes req)" by (auto simp: record_frame_def)
    with s1(4) show ?thesis by (auto simp: wire_frame_def is_ack_def is_final_def frame_ok_def has_payload_def is_data_def)
  qed
  ultimately show thesis
    using that [OF a1(1) _ a1(2,3) _ changes_place(1) [OF s1(7)]] s1(2-4,6) c(4) conn_atD(4) [OF a1(2)] by simp
qed

text \<open>The server's Conn when its goroutine starts: the request is in its queue.\<close>

definition asked :: "FrameData \<Rightarrow> mux_chans sys \<Rightarrow> bool" where
  "asked req t \<longleftrightarrow> (\<exists>fd. readCh t = [fd] \<and> fbytes fd = fbytes req) \<and> cfp t = [] \<and> fdw t = None \<and> \<not> hijacked t \<and> \<not> cancel (readDeadline t)
     \<and> mux_run.writable t"

lemma request_received:
  assumes "conn_at E b d t" and "like_new E t" and "mux_up b" and "hasHandler b" and "wire_frame (connID t) req" and "is_data req"
  obtains n b1 t1 where "Muxer_ReadFrom E (wire_stream [req]) b = Ret ((n, Some ErrEOF, wire_stream []), b1)" and "spawned b1 = spawned b @ [d]"
    and "conn_at E b1 d t1" and "same_mux b b1" and "chans b1 = chans b" and "same_place t t1" and "asked req t1" and "credit t1 = credit t"
proof -
  let ?b = "b\<lparr>readers := Suc (readers b)\<rparr>"
  have b: "conn_at E ?b d t" "0 \<le> ReadTimeout ?b" "0 \<le> WriteTimeout ?b" "hasHandler ?b"
    using assms(1,3,4) by (simp_all add: readers_same mux_up_def)
  obtain y t' fd where y: "\<And>bss n. deliver E (fbytes req # bss) n ?b = deliver E bss (n + length (fbytes req)) y"
    "conn_at E y d t'" "same_mux ?b y" "spawned y = spawned ?b @ [d]" "same_place t t'" "mux t' = mux t"
    "fbytes fd = fbytes req" "readCh t' = [fd]" "\<not> cancel (readDeadline t')" "\<not> cancel (writeDeadline t')"
    "runstate t' = runStateActive" "cfp t' = []" "fdw t' = None" "credit t' = credit t" "\<not> hijacked t'" "\<not> localClosed t'" "\<not> remoteSentFinal t'"
    by (rule first_frame_arrives [OF b(1) assms(2,5,6) b(2-4)]) (rule that)
  have "list_all (\<lambda>fd. frame_ok (fbytes fd)) [req]" using assms(5) by (simp add: wire_frame_def)
  moreover have "deliver E (map fbytes [req]) 0 ?b = Ret ((length (fbytes req), None, []), y)" unfolding list.map y(1) by simp
  ultimately obtain b1 p where b1: "Muxer_ReadFrom E (wire_stream [req]) b = Ret ((length (fbytes req), Some ErrEOF, wire_stream []), b1)"
    "conn_at E b1 d (t'\<lparr>pool := p\<rparr>)" "same_mux y b1" "spawned b1 = spawned y" "chans b1 = chans y" by (rule ReadFrom_at [OF _ assms(3) _ y(2)])
  have "asked req (t'\<lparr>pool := p\<rparr>)" using y(7-17) by (simp add: asked_def mux_run.writable_def)
  moreover have "same_place t (t'\<lparr>pool := p\<rparr>)" "credit (t'\<lparr>pool := p\<rparr>) = credit t" using y(5,14) by (simp_all add: same_place_def credit_def)
  ultimately show thesis using that [OF b1(1) _ b1(2)] same_mux_trans [OF y(3) [unfolded readers_same] b1(3)] b1(4,5) y(4,6) conn_atD(4) [OF y(2)] conn_atD(4) [OF assms(1)] by simp
qed

text \<open>The client's Conn with the answer in its queue and the peer's last word behind it.\<close>

definition answered :: "FrameData \<Rightarrow> mux_chans sys \<Rightarrow> bool" where
  "answered resp s \<longleftrightarrow> (\<exists>fd. readCh s = [fd] \<and> fbytes fd = fbytes resp) \<and> cfp s = [] \<and> fdw s = None \<and> \<not> localClosed s
     \<and> remoteSentFinal s \<and> \<not> cancel (readDeadline s)"

lemma answer_received:
  assumes "conn_at E a c s" and "asking E s" and "mux_up a" and "sanitycheck E"
    and ack: "wire_frame (connID s) ack" "is_ack ack" and resp: "wire_frame (connID s) resp" "is_data resp"
    and fin: "wire_frame (connID s) fin" "is_final fin"
  obtains n a' s' where "Muxer_ReadFrom E (wire_stream [ack, resp, fin]) a = Ret ((n, Some ErrEOF, wire_stream []), a')"
    and "conn_at E a' c s'" and "same_mux a a'" and "chans a' = chans a" and "same_place s s'" and "answered resp s'"
proof -
  let ?a = "a\<lparr>readers := Suc (readers a)\<rparr>"
  have s: "conn_inv E s" "credit s < SendWindowSize E" "runstate s \<noteq> runStateUnused" "\<not> localSentFinal s" "\<not> remoteSentFinal s" "readCh s = []"
    "mux_running (chans a)" "mux s = chans a"
    using conn_atD(3,4) [OF assms(1)] assms(2,3) by (auto simp: asking_def conn_inv_def mux_up_def)
  have at: "conn_at E ?a c s" "mux_running (chans ?a)" using assms(1) s(7) by (simp_all add: readers_same)
  note m1 = may_submitI(2) [OF ack s(2) credit_acks [OF s(1) assms(4) s(2)]]
  obtain x1 s1 where x1: "\<And>bss n. deliver E (fbytes ack # bss) n ?a = deliver E bss (n + length (fbytes ack)) x1"
    "conn_at E x1 c s1" "same_mux ?a x1" "arrived E ack s s1" "spawned x1 = spawned ?a"
    by (rule frame_arrives [OF at(1) s(3) at(2) m1 disjI2 [OF disjI1 [OF s(4)]]]) (rule that)
  obtain p1 where s1: "s1 = s\<lparr>pool := p1, ackCh := Suc (ackCh s)\<rparr>" using arrivedD(4) [OF x1(4) ack(2)] by blast
  have r1: "runstate s1 \<noteq> runStateUnused" "mux_running (chans x1)" "\<not> localSentFinal s1" "may_submit E resp s1"
    using conn_atD(4) [OF x1(2)] s resp by (auto simp: s1 MaxSendWindowSize_def intro: may_submitI(1))
  obtain x2 s2 where x2: "\<And>bss n. deliver E (fbytes resp # bss) n x1 = deliver E bss (n + length (fbytes resp)) x2"
    "conn_at E x2 c s2" "same_mux x1 x2" "arrived E resp s1 s2" "spawned x2 = spawned x1"
    by (rule frame_arrives [OF x1(2) r1(1,2,4) disjI2 [OF disjI1 [OF r1(3)]]]) (rule that)
  obtain p2 fd where s2: "s2 = s1\<lparr>pool := p2, readCh := [fd]\<rparr>" "fbytes fd = fbytes resp"
    using arrivedD(3) [OF x2(4) resp(2)] s(6) by (auto simp: s1)
  have r2: "runstate s2 \<noteq> runStateUnused" "mux_running (chans x2)" "\<not> localSentFinal s2" "may_submit E fin s2"
    using conn_atD(4) [OF x2(2)] s fin by (auto simp: s1 s2 intro: may_submitI(3))
  obtain x3 s3 where x3: "\<And>bss n. deliver E (fbytes fin # bss) n x2 = deliver E bss (n + length (fbytes fin)) x3"
    "conn_at E x3 c s3" "same_mux x2 x3" "arrived E fin s2 s3" "spawned x3 = spawned x2"
    by (rule frame_arrives [OF x2(2) r2(1,2,4) disjI2 [OF disjI1 [OF r2(3)]]]) (rule that)
  obtain p3 where s3: "s3 = s2\<lparr>pool := p3, remoteSentFinal := True, readChClosed := True\<rparr>" using arrivedD(5) [OF x3(4) fin(2) r2(3)] by blast
  let ?n = "length (fbytes ack) + length (fbytes resp) + length (fbytes fin)"
  have "deliver E (map fbytes [ack, resp, fin]) 0 ?a = Ret ((?n, None, []), x3)" unfolding list.map x1(1) x2(1) x3(1) by simp
  moreover have "list_all (\<lambda>fd. frame_ok (fbytes fd)) [ack, resp, fin]" using ack resp fin by (simp add: wire_frame_def)
  ultimately obtain a' p where a': "Muxer_ReadFrom E (wire_stream [ack, resp, fin]) a = Ret ((?n, Some ErrEOF, wire_stream []), a')"
    "conn_at E a' c (s3\<lparr>pool := p\<rparr>)" "same_mux x3 a'" "spawned a' = spawned x3" "chans a' = chans x3"
    using ReadFrom_at [OF _ assms(3) _ x3(2)] by blast
  have "same_mux a a'" using same_mux_trans [OF x1(3) same_mux_trans [OF x2(3) same_mux_trans [OF x3(3) a'(3)]]] by (simp add: readers_same)
  moreover have "answered resp (s3\<lparr>pool := p\<rparr>)" "same_place s (s3\<lparr>pool := p\<rparr>)" "mux s3 = mux s"
    using assms(2) s2(2) by (simp_all add: s1 s2 s3 answered_def asking_def makeConnDeadline_def same_place_def)
  ultimately show thesis using that [OF a'(1,2)] a'(5) conn_atD(4) [OF x3(2)] s(8) by simp
qed

text \<open>The Client passes the response on, and closes: an acknowledgement and the final frame go out, and the Conn goes back to its channel.\<close>

lemma client_finishes:
  assumes "conn_at E a c s" and "answered resp s" and "mux_keeps q (chans a)" and "onRecycle s = Some (ConnRelease c)"
    and "record_frame RecordTypeHTTPResponse (enc_response code m (- 1)) resp" and "code \<le> 0x7fff" and "kvv_ok m" and "http_header m"
    and "requestErr = None \<or> isClosedError requestErr" and "\<not> (isUpgrade \<and> code = 101)"
  obtains a' a'' ack fin where
    "on_conn c (client_response E muxer_conns isUpgrade hj tunnel wr requestErr \<lparr>rw_header = [], rw_status = []\<rparr> w) a
      = Ret ((None, None, None, \<lparr>rw_header = m, rw_status = [code]\<rparr>, w), a')"
    and "on_conn c (Close E muxer_conns) a' = Ret (None, a'')" and "writeCh (chans a'') = writeCh (chans a) @ [ack, fin]"
    and "wire_frame (connID s) ack" and "is_ack ack" and "wire_frame (connID s) fin" and "is_final fin"
    and "conns (chans a'') = q @ [c]" and "fresh_conn E a'' c" and "same_mux a a''" and "mux_running (chans a'')"
proof -
  note c = conn_atD [OF assms(1)]
  let ?rw = "\<lparr>rw_header = [], rw_status = []\<rparr> :: response_writer" and ?rw' = "\<lparr>rw_header = m, rw_status = [code]\<rparr> :: response_writer"
  let ?f = "client_response E muxer_conns isUpgrade hj tunnel wr requestErr ?rw w"
  from assms(2) obtain fd where s: "readCh s = [fd]" "fbytes fd = fbytes resp" "cfp s = []" "fdw s = None" "\<not> localClosed s" "remoteSentFinal s"
    "\<not> cancel (readDeadline s)" by (auto simp: answered_def)
  have k: "mux_keeps q (mux s)" using assms(3) c(4) by simp
  have rf: "record_frame RecordTypeHTTPResponse (enc_response code m (- 1)) fd" using assms(5) frame_kinds_copy(4) [OF s(2)] by simp
  obtain s1 ack where p: "Conn_ProxyResponse E muxer_conns ?rw s = Ret ((code, None, ?rw'), s1)" "conn_inv E s1" "read_changes s s1"
    "mux_keeps q (mux s1)" "readCh s1 = []" "cfp s1 = []" "writeCh (mux s1) = writeCh (mux s) @ [ack]" "wire_frame (connID s) ack" "is_ack ack"
    using mux_keep.ProxyResponse_takes [OF c(3) k s(3,1,7,5) rf assms(6-8), of ?rw] by (auto simp: with_length_def)
  have "readChClosed s" using c(3) s(6) by (simp add: conn_inv_def conn_core_def)
  then have e: "readChClosed s1" "\<not> cancel (readDeadline s1)" "\<not> localClosed s1"
    using p(3) s(5,7) by (simp_all add: read_changes_def)
  obtain s2 where w: "Conn_WriteTo E muxer_conns wr w s1 = Ret ((w, 0, None), s2)" "conn_inv E s2" "read_changes s1 s2" "mux s2 = mux s1"
    by (rule mux_keep.WriteTo_at_end [OF p(2,4,6,5) e])
  note ch = read_changes_trans [OF p(3) w(3)]
  have "?f s = Ret ((None, None, None, ?rw', w), s2)"
    using p(1) w(1) assms(9,10) by (auto simp: client_response_def Let_def)
  from on_conn_at [where f = ?f, OF assms(1) this w(2) changes_place(2) [OF ch]] obtain a' where
    a': "on_conn c ?f a = Ret ((None, None, None, ?rw', w), a')" "conn_at E a' c s2" "same_mux a a'" by blast
  have s2: "\<not> localClosed s2" "remoteSentFinal s2" "fdw s2 = None" "onRecycle s2 = Some (ConnRelease c)" "mux_keeps q (mux s2)" "connID s2 = connID s"
    using ch s(4-6) assms(4) w(4) p(4) by (simp_all add: read_changes_def)
  have rel: "\<exists>m'. ConnRelease c m = Ret m' \<and> writeCh m' = writeCh m" if "mux_keeps q m" for m
    using ConnRelease_keeps [OF that] by simp
  from mux_keep.Close_recycles [OF w(2) s2(5,1-4) rel] obtain s3 m3 fin where
    cl: "Close E muxer_conns s2 = Ret (None, s3)" "conn_inv E s3" "like_new E s3" "same_place s2 s3" "mux_keeps q m3"
    "writeCh m3 = writeCh (mux s2) @ [fin]" "wire_frame (connID s2) fin" "is_final fin" "ConnRelease c m3 = Ret (mux s3)" by blast
  from on_conn_at [where f = "Close E muxer_conns", OF a'(2) cl(1,2,4)] obtain a'' where
    a'': "on_conn c (Close E muxer_conns) a' = Ret (None, a'')" "conn_at E a'' c s3" "same_mux a' a''" by blast
  have m3: "mux s3 = m3\<lparr>conns := q @ [c]\<rparr>" using cl(9) ConnRelease_keeps [OF cl(5), of c] by simp
  have ch3: "chans a'' = m3\<lparr>conns := q @ [c]\<rparr>" using conn_atD(4) [OF a''(2)] m3 by simp
  show thesis
  proof (rule that [OF a'(1) a''(1)])
    show "writeCh (chans a'') = writeCh (chans a) @ [ack, fin]" using ch3 cl(6) w(4) p(7) c(4) by simp
    show "fresh_conn E a'' c" by (rule fresh_at [OF a''(2) cl(3)])
    show "same_mux a a''" by (rule same_mux_trans [OF a'(3) a''(3)])
  qed (use p(8,9) cl(5,7,8) s2(6) ch3 in \<open>simp_all add: mux_keeps_def mux_running_def\<close>)
qed

text \<open>The server's Conn after \<^verbatim>\<open>Serve\<close>: the answer and the final frame are out, the acknowledgement and the peer's last word are not in yet.\<close>

definition answering :: "rap_config \<Rightarrow> mux_chans sys \<Rightarrow> bool" where
  "answering E t \<longleftrightarrow> runstate t = runStateWaitFin \<and> localClosed t \<and> \<not> remoteSentFinal t \<and> credit t < SendWindowSize E \<and> onRecycle t = None"

lemma request_served:
  assumes "conn_at E b d t" and "asked req t" and "mux_running (chans b)" and "0 < credit t" and "credit t \<le> SendWindowSize E" and "onRecycle t = None"
    and "record_frame RecordTypeHTTPRequest (enc_request r np) req" and "request_ok r" and "string_ok np" and "url_Parse auth np = Some u"
    and "\<And>t. h (received r np u) t = map_go snd (RW_WriteHeader E (int code) rw t)"
    and "\<not> wroteHeader rw" and "HeaderMap rw = Some m" and "map_of m ''Content-Length'' = None"
    and "code \<le> 0x7fff" and "kvv_ok m" and "length (enc_response code m (- 1)) \<le> FrameMaxPayloadSize - 1"
  obtains b' t' ack resp fin where "on_conn d (Serve E muxer_conns auth h) b = Ret (None, b')"
    and "writeCh (chans b') = writeCh (chans b) @ [ack, resp, fin]" and "conn_at E b' d t'" and "same_mux b b'" and "mux_running (chans b')"
    and "same_place t t'" and "answering E t'"
    and "wire_frame (connID t) ack" and "is_ack ack" and "wire_frame (connID t) resp" and "is_data resp"
    and "record_frame RecordTypeHTTPResponse (enc_response code m (- 1)) resp" and "wire_frame (connID t) fin" and "is_final fin"
proof -
  note c = conn_atD [OF assms(1)]
  from assms(2) obtain fd where t: "readCh t = [fd]" "fbytes fd = fbytes req" "cfp t = []" "fdw t = None" "\<not> hijacked t" "\<not> cancel (readDeadline t)"
    "mux_run.writable t" by (auto simp: asked_def)
  have rf: "record_frame RecordTypeHTTPRequest (enc_request r np) fd" using assms(7) frame_kinds_copy(4) [OF t(2)] by simp
  have run: "mux_running (mux t)" using assms(3) c(4) by simp
  from mux_run.Serve_answers [where h = h, OF c(3) run t(3,1,6,7,4) assms(4) t(5) assms(6) rf assms(8-17)] obtain t' ack resp fin where
    s: "Serve E muxer_conns auth h t = Ret (None, t')" "writeCh (mux t') = writeCh (mux t) @ [ack, resp, fin]"
    "wire_frame (connID t) ack" "is_ack ack" "wire_frame (connID t) resp" "is_data resp"
    "record_frame RecordTypeHTTPResponse (enc_response code m (- 1)) resp" "wire_frame (connID t) fin" "is_final fin"
    "conn_inv E t'" "mux_running (mux t')" "same_place t t'" "localClosed t'" "\<not> remoteSentFinal t'" "credit t' = credit t - 1"
    "runstate t' = runStateWaitFin" by blast
  from on_conn_at [where f = "Serve E muxer_conns auth h", OF assms(1) s(1,10,12)] obtain b' where
    b': "on_conn d (Serve E muxer_conns auth h) b = Ret (None, b')" "conn_at E b' d t'" "same_mux b b'" by blast
  have "answering E t'" using s(12-16) assms(5,6) by (simp add: answering_def same_place_def)
  then show thesis using that [OF b'(1) _ b'(2,3) _ s(12)] s(2-9,11) c(4) conn_atD(4) [OF b'(2)] by simp
qed

text \<open>The client's last word arrives, and the server's Conn is recycled by the reading goroutine.\<close>

lemma last_word_received:
  assumes "conn_at E b d t" and "answering E t" and "mux_up b" and "sanitycheck E"
    and ack: "wire_frame (connID t) ack" "is_ack ack" and fin: "wire_frame (connID t) fin" "is_final fin"
  obtains n b' where "Muxer_ReadFrom E (wire_stream [ack, fin]) b = Ret ((n, Some ErrEOF, wire_stream []), b')"
    and "fresh_conn E b' d" and "same_mux b b'" and "chans b' = chans b" and "spawned b' = spawned b"
proof -
  let ?b = "b\<lparr>readers := Suc (readers b)\<rparr>"
  have t: "conn_inv E t" "credit t < SendWindowSize E" "runstate t \<noteq> runStateUnused" "localSentFinal t" "\<not> remoteSentFinal t" "onRecycle t = None"
    "mux_running (chans b)" "mux t = chans b"
    using conn_atD(3,4) [OF assms(1)] assms(2,3) by (auto simp: answering_def conn_inv_def mux_up_def)
  have at: "conn_at E ?b d t" "mux_running (chans ?b)" using assms(1) t(7) by (simp_all add: readers_same)
  note m1 = may_submitI(2) [OF ack t(2) credit_acks [OF t(1) assms(4) t(2)]]
  obtain x1 t1 where x1: "\<And>bss n. deliver E (fbytes ack # bss) n ?b = deliver E bss (n + length (fbytes ack)) x1"
    "conn_at E x1 d t1" "same_mux ?b x1" "arrived E ack t t1" "spawned x1 = spawned ?b"
    by (rule frame_arrives [OF at(1) t(3) at(2) m1 disjI1 [OF t(6)]]) (rule that)
  obtain p1 where t1: "t1 = t\<lparr>pool := p1, ackCh := Suc (ackCh t)\<rparr>" using arrivedD(4) [OF x1(4) ack(2)] by blast
  have r1: "runstate t1 \<noteq> runStateUnused" "mux_running (chans x1)" "localSentFinal t1" "onRecycle t1 = None" "may_submit E fin t1"
    using conn_atD(4) [OF x1(2)] t fin by (auto simp: t1 intro: may_submitI(3))
  obtain x2 t2 where x2: "\<And>bss n. deliver E (fbytes fin # bss) n x1 = deliver E bss (n + length (fbytes fin)) x2"
    "conn_at E x2 d t2" "same_mux x1 x2" "arrived E fin t1 t2" "spawned x2 = spawned x1"
    by (rule frame_arrives [OF x1(2) r1(1,2,5) disjI1 [OF r1(4)]]) (rule that)
  have new: "like_new E t2" "mux t2 = chans b" using arrivedD(2,6) [OF x2(4)] fin(2) r1(3) t(8) by (simp_all add: t1)
  let ?n = "length (fbytes ack) + length (fbytes fin)"
  have "deliver E (map fbytes [ack, fin]) 0 ?b = Ret ((?n, None, []), x2)" unfolding list.map x1(1) x2(1) by simp
  moreover have "list_all (\<lambda>fd. frame_ok (fbytes fd)) [ack, fin]" using ack fin by (simp add: wire_frame_def)
  ultimately obtain b' p where b': "Muxer_ReadFrom E (wire_stream [ack, fin]) b = Ret ((?n, Some ErrEOF, wire_stream []), b')"
    "conn_at E b' d (t2\<lparr>pool := p\<rparr>)" "same_mux x2 b'" "spawned b' = spawned x2" "chans b' = chans x2"
    using ReadFrom_at [OF _ assms(3) _ x2(2)] by blast
  have "fresh_conn E b' d" using fresh_at [OF b'(2)] new(1) by (simp add: like_new_def)
  moreover have "same_mux b b'" using same_mux_trans [OF x1(3) same_mux_trans [OF x2(3) b'(3)]] by (simp add: readers_same)
  ultimately show thesis using that [OF b'(1)] b'(4,5) x1(5) x2(5) new(2) conn_atD(4) [OF x2(2)] by simp
qed
section \<open>A request and its response\<close>

text \<open>
  C4. A request makes it to the handler, the answer back, and both Conns are as good as new. Between two Muxers whose
  loops run, on a Conn that \<^verbatim>\<open>NewConn\<close> has just handed out and the idle Conn with the same ID on the other side: \<^verbatim>\<open>WriteRequest\<close>
  puts one frame on the stream; the other Muxer's reader hands it to its Conn and starts one goroutine; \<^verbatim>\<open>Serve\<close> there
  gives the handler the request that was sent and nothing else, and a handler that answers with a status and
  a header has them sent back; the first Muxer's reader hands these to the Conn that asked, the Client gives its
  response writer that status, that header and an empty body; its \<^verbatim>\<open>Close\<close> says the last word, which the other
  Muxer's reader takes. Then both Conns are what \<^verbatim>\<open>NewConn\<close> makes, and the one that was handed out is back in the channel
  of free Conns. None of the steps panics or waits.
\<close>

theorem request_answered:
  assumes "sanitycheck E"
    and "fresh_conn E a c" and "mux_up a" and "onRecycle (heap a ! c) = Some (ConnRelease c)" and "length (conns (chans a)) < conns_cap (chans a)"
    and "fresh_conn E b d" and "mux_up b" and "hasHandler b" and "onRecycle (heap b ! d) = None" and "connID (heap b ! d) = connID (heap a ! c)"
    and "request_ok r" and "request_route (rq_Path r) = Ret np" and "string_ok np" and "url_Parse auth np = Some u"
    and "length (enc_request r np) < FrameMaxPayloadSize" and "sint (rq_ContentLength r) \<le> 0"
    and "rbody = None \<or> rbody = Some \<lparr>b_reads = [], b_err = ErrEOF, b_limit = None\<rparr>"
    and "\<And>t. h (received r np u) t = map_go snd (RW_WriteHeader E (int code) rw t)"
    and "\<not> wroteHeader rw" and "HeaderMap rw = Some m" and "map_of m ''Content-Length'' = None"
    and "code \<le> 0x7fff" and "code \<noteq> 101" and "kvv_ok m" and "http_header m" and "length (enc_response code m (- 1)) \<le> FrameMaxPayloadSize - 1"
  shows "\<exists>a1 req n b1 b2 fds n' a2 a3 a4 fds' n'' b3 requestErr.
      on_conn c (Conn_WriteRequest E muxer_conns r rbody) a = Ret (requestErr, a1)
    \<and> requestErr = (if rbody = None then Some ErrEOF else None) \<and> writeCh (chans a1) = writeCh (chans a) @ [req]
    \<and> Muxer_ReadFrom E (wire_stream [req]) b = Ret ((n, Some ErrEOF, wire_stream []), b1) \<and> spawned b1 = spawned b @ [d]
    \<and> on_conn d (Serve E muxer_conns auth h) b1 = Ret (None, b2) \<and> writeCh (chans b2) = writeCh (chans b) @ fds
    \<and> Muxer_ReadFrom E (wire_stream fds) a1 = Ret ((n', Some ErrEOF, wire_stream []), a2)
    \<and> on_conn c (client_response E muxer_conns (is_upgrade r) hj tunnel wr requestErr \<lparr>rw_header = [], rw_status = []\<rparr> w) a2
        = Ret ((None, None, None, \<lparr>rw_header = m, rw_status = [code]\<rparr>, w), a3)
    \<and> on_conn c (Close E muxer_conns) a3 = Ret (None, a4) \<and> writeCh (chans a4) = writeCh (chans a1) @ fds'
    \<and> Muxer_ReadFrom E (wire_stream fds') b2 = Ret ((n'', Some ErrEOF, wire_stream []), b3)
    \<and> fresh_conn E a4 c \<and> mux_up a4 \<and> conns (chans a4) = conns (chans a) @ [c] \<and> fresh_conn E b3 d \<and> mux_up b3"
proof -
  let ?s = "conn_view (heap a ! c) a" and ?t = "conn_view (heap b ! d) b" and ?q = "conns (chans a)"
  let ?e = "if rbody = None then Some ErrEOF else None"
  have a: "conn_at E a c ?s" "like_new E ?s" "mux_keeps ?q (chans a)" using assms(2,3,5) by (simp_all add: fresh_conn_def mux_keeps_def mux_up_def)
  have b: "conn_at E b d ?t" "like_new E ?t" "onRecycle ?t = None" "connID ?t = connID ?s" "credit ?t = SendWindowSize E"
    using assms(6,9,10) by (simp_all add: fresh_conn_def like_new_def credit_def)
  obtain a1 s1 req where a1: "on_conn c (Conn_WriteRequest E muxer_conns r rbody) a = Ret (?e, a1)" "writeCh (chans a1) = writeCh (chans a) @ [req]"
    "conn_at E a1 c s1" "same_mux a a1" "mux_keeps ?q (chans a1)" "same_place ?s s1" "asking E s1"
    "record_frame RecordTypeHTTPRequest (enc_request r np) req" "wire_frame (connID ?s) req" "is_data req"
    by (rule request_sent [OF a(1,2) assms(1,3) a(3) assms(11-13,15-17)])
  obtain n b1 t1 where b1: "Muxer_ReadFrom E (wire_stream [req]) b = Ret ((n, Some ErrEOF, wire_stream []), b1)" "spawned b1 = spawned b @ [d]"
    "conn_at E b1 d t1" "same_mux b b1" "chans b1 = chans b" "same_place ?t t1" "asked req t1" "credit t1 = credit ?t"
    by (rule request_received [OF b(1,2) assms(7,8) a1(9) [folded b(4)] a1(10)])
  have t1: "onRecycle t1 = None" "connID t1 = connID ?s" "0 < credit t1" "credit t1 \<le> SendWindowSize E" "mux_running (chans b1)"
    using b1(5,6,8) b(3-5) assms(1,7) by (simp_all add: same_place_def sanitycheck_def mux_up_def)
  obtain b2 t2 ack resp fin where b2: "on_conn d (Serve E muxer_conns auth h) b1 = Ret (None, b2)" "writeCh (chans b2) = writeCh (chans b1) @ [ack, resp, fin]"
    "conn_at E b2 d t2" "same_mux b1 b2" "mux_running (chans b2)" "same_place t1 t2" "answering E t2"
    "wire_frame (connID t1) ack" "is_ack ack" "wire_frame (connID t1) resp" "is_data resp"
    "record_frame RecordTypeHTTPResponse (enc_response code m (- 1)) resp" "wire_frame (connID t1) fin" "is_final fin"
    by (rule request_served [where h = h, OF b1(3,7) t1(5,3,4,1) a1(8) assms(11,13,14,18-22,24,26)])
  have id: "connID s1 = connID ?s" "onRecycle s1 = Some (ConnRelease c)" "connID t1 = connID s1" "connID t2 = connID s1"
    using a1(6) b2(6) t1(2) assms(4) by (simp_all add: same_place_def)
  have up: "mux_up a1" "mux_up b2"
    using mux_up_same [OF assms(3) a1(4) keeps_running [OF a1(5)]] mux_up_same [OF assms(7) same_mux_trans [OF b1(4) b2(4)] b2(5)] by simp_all
  obtain n' a2 s2 where a2: "Muxer_ReadFrom E (wire_stream [ack, resp, fin]) a1 = Ret ((n', Some ErrEOF, wire_stream []), a2)"
    "conn_at E a2 c s2" "same_mux a1 a2" "chans a2 = chans a1" "same_place s1 s2" "answered resp s2"
    by (rule answer_received [OF a1(3,7) up(1) assms(1) b2(8-11,13,14) [unfolded id(3)]])
  have s2: "onRecycle s2 = Some (ConnRelease c)" "mux_keeps ?q (chans a2)" "connID s2 = connID s1"
    using a2(4,5) id(2) a1(5) by (simp_all add: same_place_def)
  have re: "?e = None \<or> isClosedError ?e" "\<not> (is_upgrade r \<and> code = 101)" using assms(23) by (simp_all add: isClosedError_def)
  obtain a3 a4 ack' fin' where a4: "on_conn c (client_response E muxer_conns (is_upgrade r) hj tunnel wr ?e \<lparr>rw_header = [], rw_status = []\<rparr> w) a2
      = Ret ((None, None, None, \<lparr>rw_header = m, rw_status = [code]\<rparr>, w), a3)"
    "on_conn c (Close E muxer_conns) a3 = Ret (None, a4)" "writeCh (chans a4) = writeCh (chans a2) @ [ack', fin']"
    "wire_frame (connID s2) ack'" "is_ack ack'" "wire_frame (connID s2) fin'" "is_final fin'"
    "conns (chans a4) = ?q @ [c]" "fresh_conn E a4 c" "same_mux a2 a4" "mux_running (chans a4)"
    by (rule client_finishes [where hj = hj and tunnel = tunnel and wr = wr and w = w, OF a2(2,6) s2(2,1) b2(12) assms(22,24,25) re])
  have wf: "wire_frame (connID t2) ack'" "wire_frame (connID t2) fin'" using a4(4,6) s2(3) id(4) by simp_all
  obtain n'' b3 where b3: "Muxer_ReadFrom E (wire_stream [ack', fin']) b2 = Ret ((n'', Some ErrEOF, wire_stream []), b3)" "fresh_conn E b3 d"
    "same_mux b2 b3" "chans b3 = chans b2" "spawned b3 = spawned b2"
    by (rule last_word_received [OF b2(3,7) up(2) assms(1) wf(1) a4(5) wf(2) a4(7)])
  have "mux_up a4" "mux_up b3"
    using mux_up_same [OF up(1) same_mux_trans [OF a2(3) a4(10)] a4(11)] mux_up_same [OF up(2) b3(3)] b3(4) b2(5) by simp_all
  with a1(1,2) b1(1,2) b2(1,2) a2(1) a4(1-3,8,9) b3(1,2) show ?thesis unfolding a2(4) b1(5) by blast
qed
text \<open>A handler that answers every request with the same status and header, and the two ends of an exchange.\<close>

definition teapot :: "mux_chans handler" where
  "teapot req t = map_go snd (RW_WriteHeader rap_default 418 (NewResponseWriter\<lparr>HeaderMap := Some [(''Etag'', [''x''])]\<rparr>) t)"

definition client_mux :: Muxer where
  "client_mux = pair_mux\<lparr>heap := [blank_conn 0, (blank_conn 1)\<lparr>onRecycle := Some (ConnRelease 1)\<rparr>],
     chans := (chans pair_mux)\<lparr>conns_cap := 1\<rparr>\<rparr>"

lemmas example_mux_defs = client_mux_def pair_mux_def running_mux_def blank_conn_def

lemma example_mux_fresh:
  "fresh_conn rap_default pair_mux 1" "mux_up pair_mux" "fresh_conn rap_default client_mux 1" "mux_up client_mux"
proof -
  show "fresh_conn rap_default pair_mux 1" "fresh_conn rap_default client_mux 1"
    by (simp_all add: fresh_conn_def conn_at_def example_mux_defs conn_view_def conn.defs sys.defs conn_inv_def conn_core_def like_new_def
      rap_default_def ProtocolMaxConnID_def MuxerConnID_eq MaxSendWindowSize_def)
  show "mux_up pair_mux" "mux_up client_mux" by (simp_all add: mux_up_def example_mux_defs mux_room_def mux_running_def)
qed

theorem request_answered_witness:
  "\<exists>a1 req n b1 b2 fds n' a2 a3 a4 fds' n'' b3.
      on_conn 1 (Conn_WriteRequest rap_default muxer_conns example_request None) client_mux = Ret (Some ErrEOF, a1)
    \<and> writeCh (chans a1) = [req]
    \<and> Muxer_ReadFrom rap_default (wire_stream [req]) pair_mux = Ret ((n, Some ErrEOF, wire_stream []), b1) \<and> spawned b1 = [1]
    \<and> on_conn 1 (Serve rap_default muxer_conns (\<lambda>_. None) teapot) b1 = Ret (None, b2) \<and> writeCh (chans b2) = fds
    \<and> Muxer_ReadFrom rap_default (wire_stream fds) a1 = Ret ((n', Some ErrEOF, wire_stream []), a2)
    \<and> on_conn 1 (client_response rap_default muxer_conns (is_upgrade example_request) NoHijacker Ret (\<lambda>w bs. (w @ bs, length bs, None))
          (Some ErrEOF) \<lparr>rw_header = [], rw_status = []\<rparr> []) a2
        = Ret ((None, None, None, \<lparr>rw_header = [(''Etag'', [''x''])], rw_status = [418]\<rparr>, [] :: byte list), a3)
    \<and> on_conn 1 (Close rap_default muxer_conns) a3 = Ret (None, a4) \<and> writeCh (chans a4) = writeCh (chans a1) @ fds'
    \<and> Muxer_ReadFrom rap_default (wire_stream fds') b2 = Ret ((n'', Some ErrEOF, wire_stream []), b3)
    \<and> fresh_conn rap_default a4 1 \<and> conns (chans a4) = [1] \<and> fresh_conn rap_default b3 1"
proof -
  let ?m = "[(''Etag'', [''x''])]"
  have p: "request_route (rq_Path example_request) = Ret ''/a/b''" "string_ok ''/a/b''" "plain_path ''/a/b''"
    by (simp_all add: example_request_def request_route_def path_Clean_def Let_def clean_step_def join_with_def string_ok_def
      plain_path_def has_prefix_def path_char_def unreserved_def is_digit_def is_lower_def is_upper_def)
  have q: "length (enc_request example_request ''/a/b'') \<le> 100" "sint (rq_ContentLength example_request) \<le> 0"
    by (simp_all add: enc_request_def example_request_def enc_string_def enc_len_def enc_kvv_def enc_entries_def enc_strings_def enc_null_def
        enc_int64_def zigzag_def enc_uint64.simps sent_host_def sent_length_def Let_def)
  have m: "kvv_ok ?m" "http_header ?m" "map_of ?m ''Content-Length'' = None"
    by (simp_all add: kvv_ok_def string_ok_def http_header_def CanonicalHeaderKey_def valid_header_byte_def is_digit_def is_lower_def
        is_upper_def Let_def to_upper_def to_lower_def)
  have l: "length (enc_response 418 ?m (- 1)) \<le> 100"
    by (simp add: enc_response_def enc_string_def enc_len_def enc_kvv_def enc_entries_def enc_strings_def enc_null_def
        enc_int64_def zigzag_def enc_uint64.simps)
  have a: "onRecycle (heap client_mux ! 1) = Some (ConnRelease 1)" "length (conns (chans client_mux)) < conns_cap (chans client_mux)"
    "hasHandler pair_mux" "onRecycle (heap pair_mux ! 1) = None" "connID (heap pair_mux ! 1) = connID (heap client_mux ! 1)"
    "writeCh (chans client_mux) = []" "writeCh (chans pair_mux) = []" "spawned pair_mux = []" "conns (chans client_mux) = []"
    by (simp_all add: example_mux_defs)
  show ?thesis
    using request_answered [OF rap_default_sane example_mux_fresh(3,4) a(1,2) example_mux_fresh(1,2) a(3-5) example_request_ok p(1,2)
        url_Parse_plain [OF p(3), where auth = "\<lambda>_. None"] _ q(2),
        where rbody = None and h = teapot and code = 418 and rw = "NewResponseWriter\<lparr>HeaderMap := Some ?m\<rparr>" and m = ?m
          and hj = NoHijacker and tunnel = Ret and wr = "\<lambda>w bs. (w @ bs, length bs, None)" and w = "[]"] q(1) l m
    by (simp add: teapot_def NewResponseWriter_def frame_sizes a(6-9)) blast
qed

end
