(* ===== verification/Go_Fmt.thy ===== *)
theory Go_Fmt
  imports Go_Http
begin

text \<open>
  What the sources use of \<^verbatim>\<open>fmt\<close> and \<^verbatim>\<open>encoding/hex\<close>: the verbs \<^verbatim>\<open>%d\<close>, \<^verbatim>\<open>%x\<close>, \<^verbatim>\<open>%02x\<close> and \<^verbatim>\<open>%04x\<close> on integers, and the
  hexadecimal form of a byte slice; with the facts that make a printed text readable again: how numbers
  are read back from their digits, and how a text falls apart at its separators.
\<close>

section \<open>Verbs\<close>

definition hex_char :: "nat \<Rightarrow> char" where
  "hex_char d = (if d < 10 then char_of (48 + d) else char_of (87 + d))"

fun hex_digits :: "nat \<Rightarrow> string" where
  "hex_digits n = (if n < 16 then [hex_char n] else hex_digits (n div 16) @ [hex_char (n mod 16)])"

declare hex_digits.simps [simp del]

text \<open>\<^verbatim>\<open>%0wx\<close>: padded with zeros on the left to at least \<open>w\<close> digits; \<^verbatim>\<open>%x\<close> is the case \<open>w = 0\<close>.\<close>

definition fmt_x :: "nat \<Rightarrow> nat \<Rightarrow> string" where
  "fmt_x w n = replicate (w - length (hex_digits n)) (CHR ''0'') @ hex_digits n"

definition EncodeToString :: "byte list \<Rightarrow> string" where
  "EncodeToString bs = concat (map (\<lambda>b. [hex_char (unat b div 16), hex_char (unat b mod 16)]) bs)"

section \<open>Reading digits back\<close>

definition hex_val :: "char \<Rightarrow> nat" where
  "hex_val c = (let n = of_char c in if n < 58 then n - 48 else n - 87)"

definition hex_value :: "string \<Rightarrow> nat" where
  "hex_value s = foldl (\<lambda>n c. 16 * n + hex_val c) 0 s"

lemma hex_val_char: "d < 16 \<Longrightarrow> hex_val (hex_char d) = d"
  by (auto simp: hex_val_def hex_char_def Let_def)

lemma hex_char_inj: "d < 16 \<Longrightarrow> e < 16 \<Longrightarrow> hex_char d = hex_char e \<longleftrightarrow> d = e"
  by (metis hex_val_char)

lemma hex_value_digits: "hex_value (hex_digits n) = n"
proof (induction n rule: hex_digits.induct)
  case (1 n)
  then show ?case
    by (subst hex_digits.simps) (auto simp: hex_value_def hex_val_char)
qed

lemma hex_value_zeros: "hex_value (replicate k (CHR ''0'') @ s) = hex_value s"
  by (induction k) (simp_all add: hex_value_def hex_val_def Let_def)

lemma fmt_x_value: "hex_value (fmt_x w n) = n"
  by (simp add: fmt_x_def hex_value_zeros hex_value_digits)

lemma fmt_x_inj: "fmt_x w m = fmt_x w n \<longleftrightarrow> m = n"
  by (metis fmt_x_value)

lemma length_hex_digits: "n < 16 ^ Suc k \<Longrightarrow> length (hex_digits n) \<le> Suc k"
proof (induction k arbitrary: n)
  case (Suc k)
  then have "n div 16 < 16 ^ Suc k" by (simp add: div_less_iff_less_mult)
  then show ?case using Suc.IH [of "n div 16"] by (subst hex_digits.simps) simp
qed (simp add: hex_digits.simps)

lemma length_fmt_x: "n < 16 ^ Suc k \<Longrightarrow> length (fmt_x (Suc k) n) = Suc k"
  using length_hex_digits [of n k] by (simp add: fmt_x_def)

lemma dec_value_digits: "dec_value (dec_digits n) = n"
proof (induction n rule: dec_digits.induct)
  case (1 n)
  then show ?case
    by (subst dec_digits.simps) (auto simp: dec_value_def digit_char_def)
qed

lemma dec_digits_inj: "dec_digits m = dec_digits n \<longleftrightarrow> m = n"
  by (metis dec_value_digits)

lemma dec_digits_digits: "list_all is_digit (dec_digits n)"
proof (induction n rule: dec_digits.induct)
  case (1 n)
  have "d < 10 \<Longrightarrow> is_digit (digit_char d)" for d by (simp add: is_digit_def digit_char_def)
  with 1 show ?case by (subst dec_digits.simps) simp
qed

lemma dec_digits_no_space: "CHR '' '' \<notin> set (dec_digits n)" "CHR '')'' \<notin> set (dec_digits n)"
  using dec_digits_digits [of n] by (auto simp: list_all_iff is_digit_def)

lemma length_Encode: "length (EncodeToString bs) = 2 * length bs"
  by (induction bs) (simp_all add: EncodeToString_def)

lemma Encode_inj: "EncodeToString as = EncodeToString bs \<longleftrightarrow> as = bs"
proof (induction as arbitrary: bs)
  case Nil
  then show ?case by (cases bs) (simp_all add: EncodeToString_def)
next
  case (Cons a as)
  have b: "unat x div 16 < 16 \<and> unat x mod 16 < 16" for x :: byte
    using unat_byte_bound [of x] by (simp add: div_less_iff_less_mult)
  show ?case
  proof (cases bs)
    case (Cons c cs)
    have "EncodeToString (a # as) = EncodeToString bs \<longleftrightarrow>
        unat a div 16 = unat c div 16 \<and> unat a mod 16 = unat c mod 16 \<and> EncodeToString as = EncodeToString cs"
      using b [of a] b [of c] by (simp add: Cons EncodeToString_def hex_char_inj)
    moreover have "unat a div 16 = unat c div 16 \<and> unat a mod 16 = unat c mod 16 \<longleftrightarrow> a = c"
      by (metis div_mult_mod_eq unsigned_word_eqI)
    ultimately show ?thesis using Cons.IH [of cs] by (auto simp: Cons)
  qed (simp add: EncodeToString_def)
qed

section \<open>Texts with separators\<close>

lemma split_text:
  assumes "c \<notin> set x" and "c \<notin> set y"
  shows "x @ c # r = y @ c # q \<longleftrightarrow> x = y \<and> r = q"
  using assms
proof (induction x arbitrary: y)
  case Nil
  then show ?case by (cases y) auto
next
  case (Cons a x)
  then show ?case by (cases y) auto
qed

end
