(* ===== verification/Rap_Text.thy ===== *)
theory Rap_Text
  imports Go_Fmt Muxer
begin

unbundle bit_operations_syntax

text \<open>
  The texts the package makes of its values: the \<^verbatim>\<open>String\<close> methods of \<^verbatim>\<open>ConnID\<close>, \<^verbatim>\<open>FrameHeader\<close>, \<^verbatim>\<open>FrameData\<close>,
  \<^verbatim>\<open>FrameParser\<close>, \<^verbatim>\<open>Conn\<close> and \<^verbatim>\<open>Muxer\<close>, and the \<^verbatim>\<open>Error\<close> methods of its errors. They go into logs and panics, where they
  are all there is to see of a frame, so the question is what can be told from them.
\<close>

section \<open>Headers and frames\<close>

definition ConnID_String :: "ConnID \<Rightarrow> string" where
  "ConnID_String i = ''[ID '' @ fmt_x 4 (unat i) @ '']''"

definition muxerControlTexts :: "MuxerControl \<rightharpoonup> string" where
  "muxerControlTexts = map_of
     [(MuxerControlPanic, ''Panic''), (muxerControlReserved001, ''Rsvd001''), (MuxerControlPing, ''Ping''),
      (MuxerControlPong, ''Pong''), (muxerControlReserved100, ''Rsvd100''), (muxerControlReserved101, ''Rsvd101''),
      (muxerControlReserved110, ''Rsvd110''), (muxerControlReserved111, ''Rsvd111'')]"

definition muxerFlagTexts :: "FrameFlag \<rightharpoonup> string" where
  "muxerFlagTexts = map_of
     [(0, ''...''), (FrameFlagHead, ''..H''), (FrameFlagBody, ''.B.''), (FrameFlagBody OR FrameFlagHead, ''.BH''),
      (FrameFlagFlow, ''F..''), (FrameFlagFlow OR FrameFlagHead, ''F.H''), (FrameFlagFlow OR FrameFlagBody, ''FB.''),
      (FrameFlagFlow OR FrameFlagBody OR FrameFlagHead, ''FBH'')]"

text \<open>Looking up a key that a Go map does not have gives the zero value, here the empty string.\<close>

definition map_text :: "('k \<rightharpoonup> string) \<Rightarrow> 'k \<Rightarrow> string" where
  "map_text m k = (case m k of None \<Rightarrow> [] | Some t \<Rightarrow> t)"

definition FrameHeader_String :: "FrameHeader \<Rightarrow> string go" where
  "FrameHeader_String fh =
     bnd (bnd (IsMuxerControl fh) (\<lambda>ctl.
            if ctl then map_go (map_text muxerControlTexts) (MuxerControlOf fh)
            else map_go (map_text muxerFlagTexts) (FrameControl fh))) (\<lambda>midText.
     bnd (ConnIDOf fh) (\<lambda>i.
     bnd (SizeValue fh) (\<lambda>sz.
       Ret (''[FrameHeader '' @ ConnID_String i @ '' '' @ midText @ '' '' @ FormatInt sz @ '' ('' @ FormatInt (int (length fh)) @ '')]''))))"

text \<open>
  A nil frame, and a frame that is not nil: the contents are sliced before the header is printed, so a frame
  shorter than a header panics there.
\<close>

definition FrameData_String :: "FrameData option \<Rightarrow> string go" where
  "FrameData_String fdo =
     (case fdo of
        None \<Rightarrow> Ret ''[FrameData nil]''
      | Some fd \<Rightarrow>
          bnd (if length (fbytes fd) > 32 then Ret (EncodeToString (take (32 - FrameHeaderSize) (drop FrameHeaderSize (fbytes fd))) @ ''...'')
               else map_go EncodeToString (slice_from (fbytes fd) FrameHeaderSize)) (\<lambda>contents.
          bnd (FrameHeader_String (fbytes fd)) (\<lambda>hdr. Ret (''[FrameData '' @ hdr @ '' '' @ contents @ '']''))))"

definition FrameParser_String :: "FrameParser \<Rightarrow> string" where
  "FrameParser_String fp =
     (if length fp < 1 then ''[FrameReader 0]''
      else if length fp < 32 then ''[FrameReader '' @ FormatInt (int (length fp)) @ '' '' @ EncodeToString fp @ '']''
      else ''[FrameReader '' @ FormatInt (int (length fp)) @ '' '' @ EncodeToString (take 32 fp) @ ''...]'')"

section \<open>Conns and Muxers\<close>

definition isHijacked :: "('m, 'z) conn_scheme \<Rightarrow> bool" where
  "isHijacked conn = hijacked conn"

definition getRunState :: "('m, 'z) conn_scheme \<Rightarrow> runState" where
  "getRunState conn = runstate conn"

definition hasRemoteSentFinal :: "('m, 'z) conn_scheme \<Rightarrow> bool" where
  "hasRemoteSentFinal conn = remoteSentFinal conn"

definition hasLocalSentFinal :: "('m, 'z) conn_scheme \<Rightarrow> bool" where
  "hasLocalSentFinal conn = localSentFinal conn"

definition getSendWindow :: "('m, 'z) conn_scheme \<Rightarrow> int" where
  "getSendWindow conn = sendWindow conn"

text \<open>
  \<^verbatim>\<open>conn.mux\<close> as \<^verbatim>\<open>getMux\<close> sees it: the serial number of the Muxer if it is one, \<^const>\<open>None\<close> for any other \<^verbatim>\<open>ConnMuxer\<close>.
\<close>

definition Conn_Serial :: "u32 option \<Rightarrow> ('m, 'z) conn_scheme \<Rightarrow> string" where
  "Conn_Serial mo conn =
     (let muxSerial = (case mo of None \<Rightarrow> 0 | Some n \<Rightarrow> n)
      in fmt_x 0 (unat muxSerial) @ '':'' @ fmt_x 0 (unat (serialNumber conn)))"

definition Conn_String :: "u32 option \<Rightarrow> ('m, 'z) conn_scheme \<Rightarrow> string" where
  "Conn_String mo conn =
     (let state = (case getRunState conn of runStateUnused \<Rightarrow> ''IDLE  '' | runStateActive \<Rightarrow> '' RUN  ''
                   | runStateWaitFin \<Rightarrow> ''  FIN '' | runStateRecycle \<Rightarrow> ''    RC'');
          hj = (if isHijacked conn then '' HJ'' else ''  '');
          locF = (if hasLocalSentFinal conn then ''LF'' else ''  '');
          remF = (if hasRemoteSentFinal conn then ''RF'' else ''  '')
      in ''[Conn '' @ Conn_Serial mo conn @ '' '' @ ConnID_String (connID conn) @ '' '' @ state @ '' '' @ hj @ '' '' @ locF @ '' '' @ remF
         @ '' ('' @ FormatInt (getSendWindow conn) @ ''+'' @ FormatInt (int (ackCh conn)) @ '')]'')"

definition Muxer_String :: "u32 \<Rightarrow> string" where
  "Muxer_String serial = ''[Muxer '' @ fmt_x 0 (unat serial) @ '']''"

text \<open>The address of either end of a Conn is a constant.\<close>

definition connAddr_Network :: string where "connAddr_Network = ''rap''"
definition connAddr_String :: string where "connAddr_String = ''rap''"

definition LocalAddr :: "('m, 'z) conn_scheme \<Rightarrow> string \<times> string" where
  "LocalAddr conn = (connAddr_Network, connAddr_String)"

definition RemoteAddr :: "('m, 'z) conn_scheme \<Rightarrow> string \<times> string" where
  "RemoteAddr conn = (connAddr_Network, connAddr_String)"

section \<open>Errors\<close>

text \<open>
  The \<^verbatim>\<open>Error\<close> methods of the package's own error types, and the text of an error value; \<^const>\<open>None\<close> for errors made
  elsewhere. No code makes an \<^verbatim>\<open>ErrTimeoutWaitingForReader\<close>.
\<close>

definition ErrLengthNegative_Error :: string where "ErrLengthNegative_Error = ''length negative''"
definition ErrLengthOverflow_Error :: string where "ErrLengthOverflow_Error = ''length overflow''"
definition ErrFrameTooBig_Error :: string where "ErrFrameTooBig_Error = ''frame too big''"
definition ErrFrameTooSmall_Error :: string where "ErrFrameTooSmall_Error = ''frame too small''"
definition ErrInvalidRouteIndex_Error :: string where "ErrInvalidRouteIndex_Error = ''invalid route index''"

definition ErrUnhandledRecordType_Error :: "byte \<Rightarrow> string" where
  "ErrUnhandledRecordType_Error v = ''unhandled record type 0x'' @ fmt_x 2 (unat v)"

definition ErrMissingFrameHead_Error :: string where "ErrMissingFrameHead_Error = ''missing frame head''"
definition timeoutError_Error :: string where "timeoutError_Error = ''deadline exceeded''"
definition serverClosedError_Error :: string where "serverClosedError_Error = ''server closed''"
definition ProtocolError_Error :: string where "ProtocolError_Error = ''protocol error''"
definition PanicError_Error :: string where "PanicError_Error = ''peer panic''"

definition ErrTimeoutWaitingForReader_Error :: string where
  "ErrTimeoutWaitingForReader_Error = ''timeout waiting for reader at close''"

definition Error_text :: "goerr \<Rightarrow> string option" where
  "Error_text e =
     (case e of
        ErrLengthNegative \<Rightarrow> Some ErrLengthNegative_Error
      | ErrLengthOverflow \<Rightarrow> Some ErrLengthOverflow_Error
      | ErrFrameTooBig \<Rightarrow> Some ErrFrameTooBig_Error
      | ErrFrameTooSmall \<Rightarrow> Some ErrFrameTooSmall_Error
      | ErrInvalidRouteIndex \<Rightarrow> Some ErrInvalidRouteIndex_Error
      | ErrUnhandledRecordType v \<Rightarrow> Some (ErrUnhandledRecordType_Error v)
      | ErrMissingFrameHead \<Rightarrow> Some ErrMissingFrameHead_Error
      | TimeoutError \<Rightarrow> Some timeoutError_Error
      | ServerClosedError \<Rightarrow> Some serverClosedError_Error
      | ProtocolError \<Rightarrow> Some ProtocolError_Error
      | PanicError msg \<Rightarrow> Some PanicError_Error
      | _ \<Rightarrow> None)"

text \<open>\<^verbatim>\<open>timeoutError\<close> is a \<^verbatim>\<open>net.Error\<close>: it says of itself that it is a timeout and that it is temporary.\<close>

definition timeoutError_Timeout :: bool where "timeoutError_Timeout = True"
definition timeoutError_Temporary :: bool where "timeoutError_Temporary = True"

section \<open>What a text tells of a frame\<close>

definition control_text :: "bool \<Rightarrow> bool \<Rightarrow> bool \<Rightarrow> string" where
  "control_text f b g = map_text muxerControlTexts (ctl_byte f b g 0)"

definition flag_text :: "bool \<Rightarrow> bool \<Rightarrow> bool \<Rightarrow> string" where
  "flag_text f b g = map_text muxerFlagTexts (ctl_byte f b g 0)"

lemmas control_defs = muxerControlTexts_def muxerFlagTexts_def MuxerControlPanic_def MuxerControlPing_def MuxerControlPong_def
  muxerControlReserved001_def muxerControlReserved100_def muxerControlReserved101_def muxerControlReserved110_def muxerControlReserved111_def

lemma control_text_eq:
  "control_text f b g = (if f then ''Rsvd1'' @ [if b then CHR ''1'' else CHR ''0'', if g then CHR ''1'' else CHR ''0'']
     else if b then (if g then ''Pong'' else ''Ping'') else if g then ''Rsvd001'' else ''Panic'')"
  by (cases f; cases b; cases g) (simp_all add: control_text_def map_text_def control_defs flag_defs ctl_byte_def)

lemma flag_text_eq:
  "flag_text f b g = [if f then CHR ''F'' else CHR ''.'', if b then CHR ''B'' else CHR ''.'', if g then CHR ''H'' else CHR ''.'']"
  by (cases f; cases b; cases g) (simp_all add: flag_text_def map_text_def control_defs flag_defs ctl_byte_def)

lemma mid_text_inj: "control_text f b g = control_text f' b' g' \<longleftrightarrow> f = f' \<and> b = b' \<and> g = g'"
  "flag_text f b g = flag_text f' b' g' \<longleftrightarrow> f = f' \<and> b = b' \<and> g = g'"
  by (auto simp: control_text_eq flag_text_eq split: if_splits)

lemma mid_text_no_space: "CHR '' '' \<notin> set (control_text f b g)" "CHR '' '' \<notin> set (flag_text f b g)"
  by (simp_all add: control_text_eq flag_text_eq)

text \<open>The text of a header, and that it is a prefix code: what follows it cannot be confused with it.\<close>

definition mid_text :: "header \<Rightarrow> string" where
  "mid_text h = (if h_id h = 0x1fff then control_text (h_flow h) (h_body h) (h_head h) else flag_text (h_flow h) (h_body h) (h_head h))"

lemma mid_text_spaces: "CHR '' '' \<notin> set (mid_text h)"
  by (simp add: mid_text_def mid_text_no_space)

definition header_text :: "header \<Rightarrow> nat \<Rightarrow> string" where
  "header_text h n = ''[FrameHeader [ID '' @ fmt_x 4 (h_id h) @ ''] ''
     @ mid_text h @ '' '' @ dec_digits (h_size h) @ '' ('' @ dec_digits n @ '')]''"

lemma FrameHeader_String_text:
  assumes "hdr_ok h"
  shows "FrameHeader_String (hdr_bytes h @ p) = Ret (header_text h (4 + length p))"
proof -
  have "unat (of_nat (h_id h) :: ConnID) = h_id h" using assms by (simp add: hdr_ok_def unat_of_nat take_bit_nat_eq_self)
  then show ?thesis
    using assms by (simp add: FrameHeader_String_def hdr_read hdr_classify header_text_def mid_text_def control_text_def flag_text_def ConnID_String_def FormatInt_def nat_add_distrib)
qed

lemma header_text_prefix:
  assumes "hdr_ok h" and "hdr_ok h'" and "header_text h n @ r = header_text h' n' @ r'"
  shows "h = h' \<and> n = n' \<and> r = r'"
proof -
  have ids: "h_id h < 16 ^ Suc 3" "h_id h' < 16 ^ Suc 3" using assms(1,2) by (simp_all add: hdr_ok_def)
  have "length (fmt_x 4 (h_id h)) = length (fmt_x 4 (h_id h'))" using length_fmt_x [OF ids(1)] length_fmt_x [OF ids(2)] by (simp add: eval_nat_numeral)
  with assms(3) have id: "h_id h = h_id h'" and
    m: "mid_text h @ CHR '' '' # (dec_digits (h_size h) @ '' ('' @ dec_digits n @ '')]'' @ r) = mid_text h' @ CHR '' '' # (dec_digits (h_size h') @ '' ('' @ dec_digits n' @ '')]'' @ r')"
    by (simp_all add: header_text_def fmt_x_inj)
  from m have mid: "mid_text h = mid_text h'" and
    s: "dec_digits (h_size h) @ CHR '' '' # (''('' @ dec_digits n @ '')]'' @ r) = dec_digits (h_size h') @ CHR '' '' # (''('' @ dec_digits n' @ '')]'' @ r')"
    by (simp_all add: split_text mid_text_spaces)
  from s have sz: "h_size h = h_size h'" and l: "dec_digits n @ CHR '')'' # ('']'' @ r) = dec_digits n' @ CHR '')'' # ('']'' @ r')"
    by (simp_all add: split_text dec_digits_no_space dec_digits_inj)
  from l have "n = n'" "r = r'" by (simp_all add: split_text dec_digits_no_space dec_digits_inj)
  moreover have "h = h'" using mid id sz by (cases h; cases h') (auto simp: mid_text_def mid_text_inj split: if_splits)
  ultimately show ?thesis by blast
qed

lemma FrameData_String_text:
  assumes "4 \<le> length (fbytes fd)"
  shows "FrameData_String (Some fd) = Ret (''[FrameData '' @ header_text (fhdr fd) (length (fbytes fd)) @ '' ''
     @ EncodeToString (take 28 (drop 4 (fbytes fd))) @ (if length (fbytes fd) > 32 then ''...'' else []) @ '']'')"
proof -
  have "FrameHeader_String (fbytes fd) = Ret (header_text (fhdr fd) (length (fbytes fd)))"
    using FrameHeader_String_text [OF frame_view(2) [OF assms], of "drop 4 (fbytes fd)"] frame_view(1) [OF assms, symmetric] assms by simp
  with assms show ?thesis by (auto simp: FrameData_String_def FrameHeaderSize_def slice_from_def)
qed

text \<open>
  The text of a frame, which is all a panic message or a log says of it, identifies what it shows. Frames of
  at least a header have a text, a shorter frame that is not nil panics; and two frames with the same
  text have the same length and agree in their header and in every byte up to the thirty-second, so that
  frames of up to 32 bytes are the same.
\<close>

theorem frame_text_tells:
  "(4 \<le> length (fbytes fd) \<longrightarrow> (\<exists>t. FrameData_String (Some fd) = Ret t))
   \<and> (length (fbytes fd) < 4 \<longrightarrow> FrameData_String (Some fd) = Panics SliceBounds)
   \<and> (FrameData_String (Some fd) = Ret t \<and> FrameData_String (Some fd') = Ret t
       \<longrightarrow> length (fbytes fd) = length (fbytes fd') \<and> take 32 (fbytes fd) = take 32 (fbytes fd'))"
proof (intro conjI impI)
  have short: "FrameData_String (Some fd) = Panics SliceBounds" if "length (fbytes fd) < 4" for fd
    using that by (simp add: FrameData_String_def FrameHeaderSize_def slice_from_def)
  show "\<exists>t. FrameData_String (Some fd) = Ret t" if "4 \<le> length (fbytes fd)" using FrameData_String_text [OF that] by blast
  show "FrameData_String (Some fd) = Panics SliceBounds" if "length (fbytes fd) < 4" using that by (rule short)
  assume a: "FrameData_String (Some fd) = Ret t \<and> FrameData_String (Some fd') = Ret t"
  have len: "4 \<le> length (fbytes fd)" "4 \<le> length (fbytes fd')"
  proof -
    show "4 \<le> length (fbytes fd)" using a short [of fd] by (cases "length (fbytes fd) < 4") auto
    show "4 \<le> length (fbytes fd')" using a short [of fd'] by (cases "length (fbytes fd') < 4") auto
  qed
  let ?c = "\<lambda>fd. '' '' @ EncodeToString (take 28 (drop 4 (fbytes fd))) @ (if length (fbytes fd) > 32 then ''...'' else []) @ '']''"
  have "header_text (fhdr fd) (length (fbytes fd)) @ ?c fd = header_text (fhdr fd') (length (fbytes fd')) @ ?c fd'"
  proof -
    have "FrameData_String (Some fd) = FrameData_String (Some fd')" using a by simp
    then show ?thesis unfolding FrameData_String_text [OF len(1)] FrameData_String_text [OF len(2)] by (simp only: go.inject same_append_eq)
  qed
  from header_text_prefix [OF frame_view(2) [OF len(1)] frame_view(2) [OF len(2)] this]
  have h: "fhdr fd = fhdr fd'" "length (fbytes fd) = length (fbytes fd')" "?c fd = ?c fd'" by blast+
  then have p: "take 28 (drop 4 (fbytes fd)) = take 28 (drop 4 (fbytes fd'))" by (auto simp: Encode_inj split: if_splits)
  have t: "take 32 bs = take 4 bs @ take 28 (drop 4 bs)" for bs :: "byte list" by (simp add: take_add [of 4 28, simplified])
  have t4: "take 4 (fbytes fd) = hdr_bytes (fhdr fd)" if "4 \<le> length (fbytes fd)" for fd :: FrameData
    using frame_view(1) [OF that] by (metis append_eq_conv_conj length_hdr_bytes)
  show "length (fbytes fd) = length (fbytes fd')" by (rule h(2))
  show "take 32 (fbytes fd) = take 32 (fbytes fd')" unfolding t using t4 [OF len(1)] t4 [OF len(2)] h(1) p by simp
qed

theorem frame_text_tells_witness:
  "FrameData_String (Some \<lparr>fbytes = [0, 0, 0, 0, 0, 1, 0x2f], fspare = []\<rparr>) = Ret ''[FrameData [FrameHeader [ID 0000] ... 0 (7)] 00012f]''
   \<and> FrameData_String (Some \<lparr>fbytes = [0, 12, 0xe0], fspare = []\<rparr>) = Panics SliceBounds
   \<and> (\<forall>bs. length bs = 7 \<and> FrameData_String (Some \<lparr>fbytes = bs, fspare = []\<rparr>) = Ret ''[FrameData [FrameHeader [ID 0000] ... 0 (7)] 00012f]''
        \<longrightarrow> bs = [0, 0, 0, 0, 0, 1, 0x2f])"
proof -
  let ?fd = "\<lparr>fbytes = [0, 0, 0, 0, 0, 1, 0x2f], fspare = []\<rparr>"
  have t: "FrameData_String (Some ?fd) = Ret ''[FrameData [FrameHeader [ID 0000] ... 0 (7)] 00012f]''"
    by code_simp
  have "FrameData_String (Some \<lparr>fbytes = [0, 12, 0xe0], fspare = []\<rparr>) = Panics SliceBounds"
    using frame_text_tells [of "\<lparr>fbytes = [0, 12, 0xe0], fspare = []\<rparr>"] by simp
  moreover have "bs = [0, 0, 0, 0, 0, 1, 0x2f]"
    if b: "length bs = 7" "FrameData_String (Some \<lparr>fbytes = bs, fspare = []\<rparr>) = Ret ''[FrameData [FrameHeader [ID 0000] ... 0 (7)] 00012f]''" for bs
  proof -
    have "take 32 (fbytes ?fd) = take 32 (fbytes \<lparr>fbytes = bs, fspare = []\<rparr>)"
      using frame_text_tells [of ?fd _ "\<lparr>fbytes = bs, fspare = []\<rparr>"] t b(2) by blast
    then show ?thesis using b(1) by simp
  qed
  ultimately show ?thesis using t by blast
qed

text \<open>
  A parser's text ends in dots when there is more than it shows, and also when there are exactly 32 bytes, all
  of which it shows.
\<close>

lemma FrameParser_String_32:
  assumes "length fp = 32"
  shows "FrameParser_String fp = ''[FrameReader 32 '' @ EncodeToString fp @ ''...]''"
proof -
  have "FormatInt 32 = ''32''" by code_simp
  with assms show ?thesis by (simp add: FrameParser_String_def)
qed

end
