(* ===== verification/Rap_Commands.thy ===== *)
theory Rap_Commands
  imports Client
begin

text \<open>
  The two programs of the repository: \<^verbatim>\<open>src/cmd/raptest/main.go\<close>, which sends three requests to a RAP server and
  compares each answer with the text of the request, and \<^verbatim>\<open>src/cmd/rapgateway/main.go\<close>, which runs an HTTP server
  whose handler is a Client. A program's arguments are the list \<open>args\<close>; what it writes on standard output is a text.
\<close>

section \<open>Reading a body to its end\<close>

text \<open>\<^verbatim>\<open>ioutil.ReadAll\<close>: the bytes up to the first error, which is returned unless it is the end of the body.\<close>

definition not_eof :: "goerr \<Rightarrow> goerr option" where
  "not_eof e = (if e = ErrEOF then None else Some e)"

fun read_all :: "nat option \<Rightarrow> (byte list \<times> goerr option) list \<Rightarrow> goerr \<Rightarrow> byte list \<times> goerr option" where
  "read_all lim [] e = ([], if lim = Some 0 then None else not_eof e)"
| "read_all lim ((c, e') # cs) e =
     (if lim = Some 0 then ([], None)
      else case lim of
        Some l \<Rightarrow>
          if l < length c then (take l c, None)
          else (case e' of
                  Some e' \<Rightarrow> (c, not_eof e')
                | None \<Rightarrow> (case read_all (Some (l - length c)) cs e of (d, err) \<Rightarrow> (c @ d, err)))
      | None \<Rightarrow>
          (case e' of
             Some e' \<Rightarrow> (c, not_eof e')
           | None \<Rightarrow> (case read_all None cs e of (d, err) \<Rightarrow> (c @ d, err))))"

definition ReadAll :: "body \<Rightarrow> byte list \<times> goerr option" where
  "ReadAll r = read_all (b_limit r) (b_reads r) (b_err r)"

text \<open>\<^verbatim>\<open>bytes.NewReader(bs)\<close>, whose reads give the bytes and then the end, also for no bytes at all.\<close>

definition NewReader :: "byte list \<Rightarrow> body" where
  "NewReader bs = \<lparr>b_reads = (if bs = [] then [] else [(bs, None)]), b_err = ErrEOF, b_limit = None\<rparr>"

section \<open>Requests\<close>

text \<open>An \<^verbatim>\<open>http.Request\<close> as a client program has it: what a Client sends of it, the request line's target and the body.\<close>

record echo_request = request +
  rq_RequestURI :: string
  rq_Body :: "body option"

text \<open>
  \<^verbatim>\<open>httptest.NewRequest\<close> on a target that is a path: the host is \<^verbatim>\<open>example.com\<close>, there is no header, and the length is
  known for no body and for a \<^verbatim>\<open>bytes.Reader\<close> but not for another reader. No body is \<^verbatim>\<open>http.NoBody\<close>, which is empty.
\<close>

datatype test_body = NoBody | BytesReader "byte list" | OtherReader "byte list"

definition httptest_NewRequest :: "string \<Rightarrow> string \<Rightarrow> test_body \<Rightarrow> echo_request" where
  "httptest_NewRequest m target b =
     \<lparr>rq_Method = m, rq_Scheme = [], rq_Path = target, rq_Query = [], rq_Header = [], rq_Host = ''example.com'',
      rq_ContentLength = (case b of NoBody \<Rightarrow> 0 | BytesReader bs \<Rightarrow> of_nat (length bs) | OtherReader _ \<Rightarrow> - 1),
      rq_RequestURI = target,
      rq_Body = Some (NewReader (case b of NoBody \<Rightarrow> [] | BytesReader bs \<Rightarrow> bs | OtherReader bs \<Rightarrow> bs))\<rparr>"

definition addRequiredHeaders :: "echo_request \<Rightarrow> echo_request" where
  "addRequiredHeaders req = (if rq_Body req = None then req\<lparr>rq_ContentLength := 0\<rparr> else req)"

text \<open>\<^verbatim>\<open>renderRequest\<close>: the text, and the request, whose body has been read and is replaced by one with the same bytes.\<close>

fun comma_values :: "nat \<Rightarrow> string list \<Rightarrow> string" where
  "comma_values n [] = []"
| "comma_values n (v # vs) = (if n > 0 then '', '' else []) @ v @ comma_values (n + 1) vs"

fun render_header :: "kvv \<Rightarrow> bool \<Rightarrow> bool \<Rightarrow> string \<times> bool \<times> bool" where
  "render_header [] foundHost foundContentLength = ([], foundHost, foundContentLength)"
| "render_header ((hdr, vals) # m) foundHost foundContentLength =
     (case render_header m (foundHost \<or> hdr = ''Host'') (foundContentLength \<or> hdr = ''Content-Length'') of (t, h, l) \<Rightarrow>
        (hdr @ '': '' @ comma_values 0 vals @ [CHR 0x0A] @ t, h, l))"

definition render_body :: "echo_request \<Rightarrow> string \<times> echo_request" where
  "render_body req =
     (case rq_Body req of
        None \<Rightarrow> ([], req)
      | Some b \<Rightarrow> let contents = fst (ReadAll b) in (bytes_str contents, req\<lparr>rq_Body := Some (NewReader contents)\<rparr>))"

definition renderRequest :: "echo_request \<Rightarrow> string \<times> echo_request" where
  "renderRequest req =
     (case render_body req of (bodyText, req) \<Rightarrow>
        case render_header (rq_Header req) False False of (t, foundHost, foundContentLength) \<Rightarrow>
          (rq_Method req @ '' '' @ rq_RequestURI req @ [CHR 0x0A] @ t
             @ (if \<not> foundHost \<and> rq_Host req \<noteq> [] then ''Host: '' @ rq_Host req @ [CHR 0x0A] else [])
             @ (if \<not> foundContentLength \<and> sint (rq_ContentLength req) \<ge> 0
                then ''Content-Length: '' @ FormatInt (sint (rq_ContentLength req)) @ [CHR 0x0A] else [])
             @ (if bodyText \<noteq> [] then CHR 0x0A # bodyText else []), req))"

section \<open>Echoes\<close>

text \<open>
  The Client's \<^verbatim>\<open>ServeHTTP\<close> on an \<^verbatim>\<open>httptest.ResponseRecorder\<close>, which is no \<^verbatim>\<open>http.Hijacker\<close> and keeps every byte of the
  body: an error page is the text of the error and a newline. \<open>text_of\<close> gives the text of an error and \<open>duration\<close> that of
  a duration.
\<close>

definition record_bytes :: "byte list writer" where
  "record_bytes w bs = (w @ bs, length bs, None)"

definition error_page :: "string \<Rightarrow> byte list" where
  "error_page t = str_bytes (t @ [CHR 0x0A])"

definition recorded_body :: "(goerr \<Rightarrow> string) \<Rightarrow> (int \<Rightarrow> string) \<Rightarrow> byte list client_reply \<Rightarrow> byte list go" where
  "recorded_body text_of duration r =
     (case r of
        ServiceUnavailable \<Rightarrow> Ret (error_page ''Service Unavailable'')
      | GatewayTimeout err None \<Rightarrow> Ret (error_page (text_of err))
      | GatewayTimeout err (Some d) \<Rightarrow> Ret (error_page (text_of err @ ''; no response for '' @ duration d))
      | Proxied (Some p) _ _ \<Rightarrow> Panics p
      | Proxied None _ w \<Rightarrow> Ret w)"

definition serve_recorded ::
  "rap_config \<Rightarrow> (nat \<Rightarrow> goerr option) \<Rightarrow> (Muxer \<Rightarrow> Muxer) \<Rightarrow> (mux_chans sys \<Rightarrow> mux_chans sys go) \<Rightarrow> (goerr \<Rightarrow> string)
     \<Rightarrow> (int \<Rightarrow> string) \<Rightarrow> response_writer \<Rightarrow> echo_request \<Rightarrow> Client \<Rightarrow> (byte list \<times> Client) go" where
  "serve_recorded E dial meanwhile tunnel text_of duration rw req c =
     bnd (Client_ServeHTTP E dial meanwhile NoHijacker tunnel record_bytes (request.truncate req) (rq_Body req) rw [] c) (\<lambda>(r, c).
       bnd (recorded_body text_of duration r) (\<lambda>bs. Ret (bs, c)))"

text \<open>
  \<^verbatim>\<open>echoClient\<close> and what it prints. \<open>serve\<close> is the Client's \<^verbatim>\<open>ServeHTTP\<close> on a recorder, \<^const>\<open>serve_recorded\<close> or that method
  with the network and the server beyond it.
\<close>

definition mismatch_text :: "string \<Rightarrow> string \<Rightarrow> string" where
  "mismatch_text expect actual =
     ''expect:'' @ [CHR 0x0A] @ ''['' @ expect @ '']'' @ [CHR 0x0A] @ ''actual:'' @ [CHR 0x0A] @ ''['' @ actual @ '']'' @ [CHR 0x0A]"

definition ok_text :: "string \<Rightarrow> string" where
  "ok_text expect = ''OK ['' @ expect @ '']'' @ [CHR 0x0A]"

definition echoClient ::
  "(echo_request \<Rightarrow> 'c \<Rightarrow> (byte list \<times> 'c) go) \<Rightarrow> 'c \<Rightarrow> echo_request \<Rightarrow> (string \<times> 'c) go" where
  "echoClient serve c req =
     (case renderRequest req of (expect, req) \<Rightarrow>
        bnd (serve req c) (\<lambda>(recorded, c).
          Ret ((case ReadAll (NewReader recorded) of
                  (body, None) \<Rightarrow>
                    let actual = bytes_str body in
                    if expect \<noteq> actual
                    then mismatch_text expect actual
                    else []
                | (_, Some _) \<Rightarrow> ''No echo received, expected:'' @ [CHR 0x0A] @ ''['' @ expect @ '']'' @ [CHR 0x0A])
               @ ok_text expect, c)))"

text \<open>\<^verbatim>\<open>echo\<close>: on the tester's Client, or on a new one for its address, which is closed afterwards.\<close>

record 'c echoTester =
  et_Addr :: string
  et_Client :: "'c option"

definition echo ::
  "(echo_request \<Rightarrow> 'c \<Rightarrow> (byte list \<times> 'c) go) \<Rightarrow> (string \<Rightarrow> 'c) \<Rightarrow> ('c \<Rightarrow> (goerr option \<times> 'c) go) \<Rightarrow> 'c echoTester
     \<Rightarrow> echo_request \<Rightarrow> (string \<times> 'c) go" where
  "echo serve new close e req =
     (case et_Client e of
        Some c \<Rightarrow> echoClient serve c req
      | None \<Rightarrow> bnd (echoClient serve (new (et_Addr e)) req) (\<lambda>(out, c). bnd (close c) (\<lambda>(_, c). Ret (out, c))))"

section \<open>The programs\<close>

text \<open>How a program ends: by \<^verbatim>\<open>log.Fatal\<close> with a message, or having printed a text.\<close>

datatype program_end = LogFatal string string | Finished string

definition missing_argument :: string where
  "missing_argument = ''missing required argument: address:port of upstream RAP server''"

definition raptest_main ::
  "(echo_request \<Rightarrow> 'c \<Rightarrow> (byte list \<times> 'c) go) \<Rightarrow> (string \<Rightarrow> 'c) \<Rightarrow> ('c \<Rightarrow> (goerr option \<times> 'c) go) \<Rightarrow> string list
     \<Rightarrow> program_end go" where
  "raptest_main serve new close args =
     (if length args < 1 then Ret (LogFatal [] missing_argument)
      else let et = \<lparr>et_Addr = args ! 0, et_Client = None\<rparr> in
        bnd (echo serve new close et (httptest_NewRequest ''GET'' ''/'' NoBody)) (\<lambda>(out1, _).
        bnd (echo serve new close et (httptest_NewRequest ''PUT'' ''/meh'' (BytesReader (str_bytes (''foo'' @ [CHR 0x0A] @ ''bar''))))) (\<lambda>(out2, _).
        bnd (echo serve new close et (httptest_NewRequest ''PUT'' ''/meh'' (OtherReader (str_bytes ''foo'')))) (\<lambda>(out3, _).
          Ret (Finished (out1 @ out2 @ out3))))))"

text \<open>
  The gateway. \<open>net_Listen\<close> gives the address that is listened on, or an error, which the program ignores: there is no
  listener then, and taking its \<^verbatim>\<open>Close\<close> for the \<^verbatim>\<open>defer\<close> is a nil dereference. \<open>serve\<close> is \<^verbatim>\<open>hs.Serve\<close>, which hands requests to
  the Client until it returns an error; \<^verbatim>\<open>log.Fatalln\<close> ends the program without the deferred calls.
\<close>

definition rapgateway_main ::
  "(string \<Rightarrow> 'c) \<Rightarrow> ('c \<Rightarrow> (goerr option \<times> 'c) go) \<Rightarrow> (string \<Rightarrow> goerr + string) \<Rightarrow> ('c \<Rightarrow> (goerr option \<times> 'c) go)
     \<Rightarrow> (goerr \<Rightarrow> string) \<Rightarrow> string \<Rightarrow> bool \<Rightarrow> string list \<Rightarrow> program_end go" where
  "rapgateway_main new close net_Listen serve text_of listenAddr printURL args =
     (if length args < 1 then Ret (LogFatal [] missing_argument)
      else let c = new (args ! 0) in
        case net_Listen listenAddr of
          Inl err \<Rightarrow> Panics NilDeref
        | Inr addr \<Rightarrow>
            let out = (if printURL then ''http://'' @ addr @ ''/'' @ [CHR 0x0A] else []) in
            bnd (serve c) (\<lambda>(err, c).
              case err of
                Some e \<Rightarrow> Ret (LogFatal out (text_of e))
              | None \<Rightarrow> bnd (close c) (\<lambda>_. Ret (Finished out))))"

section \<open>Facts\<close>

text \<open>\<^verbatim>\<open>ReadAll\<close> is the reads of \<^const>\<open>Body_Read\<close>, whatever the size of its buffers, up to the first error.\<close>

lemma ReadAll_by_reads:
  assumes "0 < n"
  shows "ReadAll r = (case Body_Read r n of (c, e, r') \<Rightarrow>
    case e of Some e \<Rightarrow> (c, not_eof e) | None \<Rightarrow> (c @ fst (ReadAll r'), snd (ReadAll r')))"
proof (cases "b_reads r")
  case Nil
  then show ?thesis by (simp add: ReadAll_def Body_Read_def not_eof_def)
next
  case (Cons x cs)
  obtain c e where x: "x = (c, e)" by (cases x)
  show ?thesis
  proof (cases "b_limit r")
    case None
    then show ?thesis using Cons x
      by (cases e) (auto simp: ReadAll_def Body_Read_def not_eof_def Let_def split: prod.splits)
  next
    case (Some l)
    have "n \<le> l \<Longrightarrow> take n c @ take (l - n) (drop n c) = take l c" by (simp flip: take_add)
    with Some show ?thesis using Cons x assms
      by (cases e) (auto simp: ReadAll_def Body_Read_def not_eof_def Let_def min_def split: prod.splits)
  qed
qed

lemma ReadAll_NewReader [simp]: "ReadAll (NewReader bs) = (bs, None)"
  by (simp add: ReadAll_def NewReader_def not_eof_def)

lemma echoClient_prints:
  "echoClient serve c req =
     (case renderRequest req of (expect, req) \<Rightarrow>
        bnd (serve req c) (\<lambda>(recorded, c).
          Ret ((if expect \<noteq> bytes_str recorded then mismatch_text expect (bytes_str recorded) else []) @ ok_text expect, c)))"
  by (simp add: echoClient_def Let_def)

text \<open>Rendering a request leaves it as it was to whoever reads it next: the same text, the same fields and bytes.\<close>

lemma renderRequest_again:
  assumes "renderRequest req = (t, req')"
  shows "renderRequest req' = (t, req')" and "request.truncate req' = request.truncate req"
    and "map_option ReadAll (rq_Body req') = map_option (\<lambda>b. (fst (ReadAll b), None)) (rq_Body req)"
proof -
  have b: "render_body req = (t1, r) \<Longrightarrow> render_body r = (t1, r) \<and> rq_Method r = rq_Method req \<and> rq_RequestURI r = rq_RequestURI req
    \<and> rq_Header r = rq_Header req \<and> rq_Host r = rq_Host req \<and> rq_ContentLength r = rq_ContentLength req
    \<and> request.truncate r = request.truncate req \<and> map_option ReadAll (rq_Body r) = map_option (\<lambda>b. (fst (ReadAll b), None)) (rq_Body req)" for t1 r
    by (auto simp: render_body_def Let_def request.defs split: option.splits)
  obtain t1 r where r: "render_body req = (t1, r)" by fastforce
  with assms have "r = req'" by (auto simp: renderRequest_def split: prod.splits)
  with r b [OF r] assms show "renderRequest req' = (t, req')" "request.truncate req' = request.truncate req"
    "map_option ReadAll (rq_Body req') = map_option (\<lambda>b. (fst (ReadAll b), None)) (rq_Body req)"
    by (auto simp: renderRequest_def split: prod.splits)
qed

text \<open>A Client whose dial fails answers with the error, and has then nothing to close.\<close>

lemma offline_serve:
  assumes "dial 0 = Some err"
  shows "\<exists>c'. serve_recorded E dial meanwhile tunnel text_of duration rw req (NewClient addr serial t orc) = Ret (error_page (text_of err), c')
    \<and> (\<exists>c''. Client_Close E c' = Ret (None, c''))"
  using assms
  by (simp add: serve_recorded_def Client_ServeHTTP_def Client_NewConn_def lock_client_def getMuxLocked_def selectBestMuxLocked_def
      NewConnMayDial_def run_loop_def MayDial_loop.simps dialLocked_def offlineError_def recorded_body_def NewClient_def
      Client_Close_def closeMuxersLocked_def Let_def)

lemma echo_reports:
  assumes "renderRequest req = (expect, req')" and "serve req' (new addr) = Ret (answer, c')" and "close c' = Ret (e, c'')"
  shows "echo serve new close \<lparr>et_Addr = addr, et_Client = None\<rparr> req =
    Ret ((if expect \<noteq> bytes_str answer then mismatch_text expect (bytes_str answer) else []) @ ok_text expect, c'')"
  using assms by (simp add: echo_def echoClient_prints)

text \<open>The texts of the three requests that \<^verbatim>\<open>raptest\<close> sends.\<close>

definition raptest_texts :: "string list" where
  "raptest_texts =
     [''GET /'' @ [CHR 0x0A] @ ''Host: example.com'' @ [CHR 0x0A] @ ''Content-Length: 0'' @ [CHR 0x0A],
      ''PUT /meh'' @ [CHR 0x0A] @ ''Host: example.com'' @ [CHR 0x0A] @ ''Content-Length: 7'' @ [CHR 0x0A, CHR 0x0A] @ ''foo'' @ [CHR 0x0A] @ ''bar'',
      ''PUT /meh'' @ [CHR 0x0A] @ ''Host: example.com'' @ [CHR 0x0A, CHR 0x0A] @ ''foo'']"

lemma raptest_rendered:
  "fst (renderRequest (httptest_NewRequest ''GET'' ''/'' NoBody)) = raptest_texts ! 0"
  "fst (renderRequest (httptest_NewRequest ''PUT'' ''/meh'' (BytesReader (str_bytes (''foo'' @ [CHR 0x0A] @ ''bar''))))) = raptest_texts ! 1"
  "fst (renderRequest (httptest_NewRequest ''PUT'' ''/meh'' (OtherReader (str_bytes ''foo'')))) = raptest_texts ! 2"
  by code_simp+

text \<open>
  C40. \<^verbatim>\<open>raptest\<close> says \<^verbatim>\<open>OK\<close> of every request, whether or not the server echoed it: with a server that cannot be dialled, it prints
  for each of its three requests that the answer, the page with the dial error, is not the one expected, then that
  the request is \<^verbatim>\<open>OK\<close>, and it ends like a run in which all is well.
\<close>

theorem raptest_says_ok:
  assumes "dial 0 = Some err" and "args \<noteq> []" and "page = text_of err @ [CHR 0x0A]" and "page \<notin> set raptest_texts"
  shows "raptest_main (serve_recorded E dial meanwhile tunnel text_of duration rw)
      (\<lambda>addr. NewClient addr serial t orc) (Client_Close E) args
    = Ret (Finished (concat (map (\<lambda>expect. mismatch_text expect page @ ok_text expect) raptest_texts)))"
proof -
  let ?serve = "serve_recorded E dial meanwhile tunnel text_of duration rw" and ?new = "\<lambda>addr. NewClient addr serial t orc"
  have e: "\<exists>c. echo ?serve ?new (Client_Close E) \<lparr>et_Addr = addr, et_Client = None\<rparr> req =
      Ret (mismatch_text expect page @ ok_text expect, c)"
    if f: "fst (renderRequest req) = expect" and "expect \<in> set raptest_texts" for addr req expect
  proof -
    obtain req' where r: "renderRequest req = (expect, req')" using f by (cases "renderRequest req") simp
    from offline_serve [where dial = dial, OF assms(1), of E meanwhile tunnel text_of duration rw req' addr serial t orc]
    obtain c' c'' where "?serve req' (?new addr) = Ret (error_page (text_of err), c')" "Client_Close E c' = Ret (None, c'')" by blast
    moreover have "expect \<noteq> page" using that(2) assms(4) by blast
    ultimately show ?thesis using echo_reports [OF r, of ?serve ?new addr "error_page (text_of err)" c' "Client_Close E" None c'']
      by (simp add: error_page_def assms(3))
  qed
  have "length raptest_texts = 3" by (simp add: raptest_texts_def)
  then have m: "raptest_texts ! k \<in> set raptest_texts" if "k < 3" for k using that by simp
  have l: "raptest_texts = [raptest_texts ! 0, raptest_texts ! 1, raptest_texts ! 2]" by (simp add: raptest_texts_def)
  from e [OF raptest_rendered(1) m, of "args ! 0"] e [OF raptest_rendered(2) m, of "args ! 0"] e [OF raptest_rendered(3) m, of "args ! 0"]
  show ?thesis using assms(2) by (subst l) (auto simp: raptest_main_def Let_def)
qed

theorem raptest_says_ok_witness:
  "raptest_main (serve_recorded rap_default (\<lambda>_. Some (ErrOther ''refused'')) id Ret (\<lambda>_. ''refused'') (\<lambda>_. [])
      \<lparr>rw_header = [], rw_status = []\<rparr>) (\<lambda>addr. NewClient addr 0 0 (\<lambda>_. 0)) (Client_Close rap_default) [''localhost:10111'']
    = Ret (Finished (concat (map (\<lambda>expect. mismatch_text expect (''refused'' @ [CHR 0x0A]) @ ok_text expect) raptest_texts)))"
  by (rule raptest_says_ok) (simp_all add: raptest_texts_def)

text \<open>A gateway that cannot listen on its address panics; one that is given no server to talk to says so.\<close>

lemma rapgateway_without_listener:
  "net_Listen listenAddr = Inl err \<Longrightarrow> args \<noteq> [] \<Longrightarrow>
     rapgateway_main new close net_Listen serve text_of listenAddr printURL args = Panics NilDeref"
  "rapgateway_main new close net_Listen serve text_of listenAddr printURL [] = Ret (LogFatal [] missing_argument)"
  by (simp_all add: rapgateway_main_def)

end
