(* ===== verification/Spec2Isabelle.thy ===== *)
theory Spec2Isabelle
  imports Conn_Calls Conn_Late_Read Conn_Deadline Client_Laws Server_Laws Reverse_Proxy Rap_System Rap_Text Rap_Commands
begin

text \<open>
  A verification of \<^verbatim>\<open>linkdata/rap\<close>, the REST Aggregation Protocol in Go: many HTTP requests and their
  responses share one network connection, each on a Conn of its own, with flow control by frames.

  \<^bold>\<open>The program and the theories.\<close>

  \<^item> Frames. A frame is a four-byte header and a payload. \<^verbatim>\<open>src/frameheader.go\<close>, \<^verbatim>\<open>src/rap.go\<close>,
    \<^verbatim>\<open>src/recordtype.go\<close>, \<^verbatim>\<open>src/raceenabled.go\<close> and \<^verbatim>\<open>src/sanitycheck.go\<close> are in \<open>Frame_Header\<close> (every accessor on the byte slice; the
    run-time tunables are the record \<open>rap_config\<close>, and \<open>sanitycheck\<close> is what \<^verbatim>\<open>init\<close> accepts); \<^verbatim>\<open>src/framedata.go\<close> is in
    \<open>Frame_Data\<close> (a slice is its bytes and the spare capacity behind them, so that reslicing and appending can
    be told apart) and, for requests, in \<open>Frame_Request\<close>; \<^verbatim>\<open>src/frameparser.go\<close> is in \<open>Frame_Parser\<close> and \<open>Frame_Request\<close>;
    \<^verbatim>\<open>src/framepool.go\<close> is in \<open>Frame_Pool\<close>.
  \<^item> A Conn, \<^verbatim>\<open>src/conn.go\<close>: the two directions of one exchange, with a window of frames, acknowledgements, a
    closing handshake of final frames, recycling, deadlines and takeover. \<open>Conn\<close> has the struct as the
    record \<open>conn\<close>, extended to \<open>sys\<close> by what it shares with its surroundings (the state of its Muxer, the frame
    pool, a clock, and the picks of \<^verbatim>\<open>select\<close>), and one definition per method; requests, responses and \<^verbatim>\<open>Serve\<close>, and
    \<^verbatim>\<open>src/responsewriter.go\<close>, are in \<open>Conn_Http\<close>. A deadline in \<open>Conn\<close> is a time and whether it has passed; \<open>Conn_Deadline\<close> has the
    timers and channels that \<^verbatim>\<open>connDeadline\<close> is made of.
  \<^item> A Muxer, \<^verbatim>\<open>src/muxer.go\<close>, is in \<open>Muxer\<close>: its Conns are objects on a store, reached from the lookup table, the
    channel of free Conns and the users; the two loops on the stream, control frames, closing.
  \<^item> A Client, \<^verbatim>\<open>src/client.go\<close>, is in \<open>Client\<close>; a Server, \<^verbatim>\<open>src/server.go\<close>, in \<open>Server\<close>; the proxy to an HTTP server,
    \<^verbatim>\<open>src/reverseproxy.go\<close>, in \<open>Reverse_Proxy\<close>.
  \<^item> The texts of the package, its \<^verbatim>\<open>String\<close> and \<^verbatim>\<open>Error\<close> methods in all these files, are in \<open>Rap_Text\<close>; the two programs,
    \<^verbatim>\<open>src/cmd/raptest/main.go\<close> and \<^verbatim>\<open>src/cmd/rapgateway/main.go\<close>, in \<open>Rap_Commands\<close>.
  \<^item> \<open>Go_Http\<close>, \<open>Go_Url\<close> and \<open>Go_Fmt\<close> hold what the sources use of Go's library: decimal and hexadecimal numbers, header maps, \<^verbatim>\<open>path.Clean\<close>,
    query and path escapes, references. \<open>Rap_Prelude\<close> has the outcome of a call, shared by all: \<open>Ret\<close> a result,
    \<open>Panics\<close> with what a run-time check or \<^verbatim>\<open>panic\<close> says, or \<open>Blocks\<close>, waiting for what no one else does.

  A method runs on the state as it finds it and returns the state it leaves. A mutex is a Boolean, and taking
  one that is held blocks, which is how the model shows self-deadlocks. What goroutines do to each other
  is in the step relations: \<open>link_reach\<close> of \<open>Conn_Link\<close>, where two Conns and the frames between them move in any
  order, \<open>mux_reach\<close> of \<open>Muxer_Laws\<close> and \<open>srv_reach\<close> of \<open>Server_Laws\<close>; where a method waits in its middle, what the others
  do meanwhile is a parameter of it.

  \<^bold>\<open>What is shown.\<close>

  \<^item> Frames (\<open>Frame_Header\<close>, \<open>Frame_Data\<close>, \<open>Frame_Parser\<close>, \<open>Frame_Pool\<close>): the setters refine updates of an abstract
    header; frames, integers, strings, responses and requests are read back as they were written; reading is safe
    on any bytes; pooled frames are blank. The contract of \<^verbatim>\<open>io.Writer\<close> is the locale \<open>io_writer\<close>, that of a data type
    on the wire the locale \<open>codec\<close>.
  \<^item> Conns. \<open>Conn_Laws\<close> has the contract of a Muxer towards its Conns, the locale \<open>conn_muxer\<close>, and the laws of the two sides of a
    Conn over it; \<open>Conn_Safety\<close> shows, call by call, that none panics on a Conn that satisfies its invariant and that the
    invariant is kept; \<open>Conn_Calls\<close> has all methods, with the conditions under which those that are given frames, records,
    requests, writers or handlers do not panic; \<open>Conn_Progress\<close>, over the stronger locale \<open>accepting_muxer\<close>, that calls return; \<open>Conn_Wire\<close> interprets both and
    states the properties; \<open>Conn_Link\<close> composes two Conns: as long as nobody takes a frame from the read queue of an end
    after closing it, no interleaving makes either panic, and what one reads is what the other wrote, in order, within
    the window; \<open>Conn_Late_Read\<close> shows that the condition is needed, by a run in which it is broken and the other end panics.
    \<open>Conn_Deadline\<close>: timers and channels refine the deadline that the
    methods use, no channel is closed twice and nobody waits on one that is never closed.
  \<^item> Requests (\<open>Frame_Request\<close>, \<open>Conn_Http\<close>): what \<^verbatim>\<open>Serve\<close> hands to the handler is the request that was sent, and it never
    leaves a Conn open.
  \<^item> Muxers. \<open>Muxer_Laws\<close> interprets \<open>conn_muxer\<close> on the Muxer itself, and shows that a Conn is never given to two users and
    that releasing one finds room; \<open>Muxer_Stream\<close> shows that reading is dispatching in order, does not go round for ever and waits for nothing but
    the stream unless the writing goroutine or a mutex holder fails it, that writing is in order over any output that satisfies the locale \<open>mux_writer\<close>, and that a ping measures the round trip; \<open>Muxer_Close\<close> what
    shutting down does; \<open>Muxer_Demux\<close> that the lookup table is well typed, and that one stream is, to every Conn, the pipe that
    \<open>Conn_Link\<close> assumes: its own frames, all of them, in order.
  \<^item> The whole. \<open>Conn_Exchange\<close> has the two ends of an exchange on a Conn, over any \<open>accepting_muxer\<close>; \<open>Rap_Arrivals\<close> the frames that
    arrive at a Conn in its Muxer; \<open>Rap_System\<close> composes them: a request goes from a Conn of one Muxer over the stream to the handler
    at the other, the answer goes back to the Client, and closing leaves both Conns as \<^verbatim>\<open>NewConn\<close> makes them, with every step the code's own.
  \<^item> \<open>Client_Laws\<close>: a Client finds a Conn or says why not, without looping; \<open>Server_Laws\<close>: a Server keeps to its limit.
  \<^item> \<open>Rap_Text\<close>: the text of a frame tells its header and the first 32 bytes; \<open>Rap_Commands\<close>: what the programs print.

  Where the code does not do what its comments or the protocol say, the theorem states what it does:
  frames dropped by \<^verbatim>\<open>Close\<close>, an acknowledgement sent after the final frame, loops that do not end, records that make the process panic, a shutdown that always times
  out, proxied headers that are never sent, a test program that always says \<^verbatim>\<open>OK\<close>.

  \<^bold>\<open>Bounds and fuel.\<close> There is no fuel: a loop that may not end is a \<open>partial_function\<close> into \<^typ>\<open>'a option\<close>, with \<^const>\<open>None\<close> for not
  returning, and that it returns is proved where it is claimed. Machine integers have their width.
  The conditions on frame sizes and IDs are those that \<open>sanitycheck\<close> guarantees.

  \<^bold>\<open>Not modelled.\<close> The package comment in \<^verbatim>\<open>src/doc.go\<close> has no code; the parsing of command-line flags and \<^verbatim>\<open>http.Server\<close> are the library's.
  The clock does not move, and timers do not fire, while a method runs: a deadline ends a wait when the method starts after it
  has fired, and a result that says that a method waits or goes round for ever is stated for a Conn with no deadline
  armed, or does not depend on one. A reading goroutine that is held up inside \<^verbatim>\<open>ReadFrom\<close> while \<^verbatim>\<open>Close\<close> waits for it, and a Muxer of a
  Server that has its place but has not started, are not told apart from one that reads and one that runs.
  Data races between unlocked accesses are outside a model in which every access is atomic.
  The frame pool is one channel for the whole process; here each Muxer has its own, which changes nothing of
  what a pool promises. The authority part of a URL, \<^verbatim>\<open>net.Dial\<close>, \<^verbatim>\<open>net.Listen\<close>, \<^verbatim>\<open>RoundTrip\<close> and the handlers are parameters.
\<close>

end
